(* ===== verification/Prelude.thy ===== *)
theory Prelude
  imports Main "HOL-Library.Char_ord" "HOL-Library.List_Lexorder"
begin

section \<open>Shared vocabulary and automation\<close>

text \<open>
  Generic material used by every component: the collections of rewrite rules, facts on
  lists that are sorted without repeated keys, and the order in which a Redis sorted set
  lists its members.

  A sorted set is listed as (member, score) pairs in ascending order of score, members of
  equal score in ascending byte order (the order of \<open>Char_ord\<close> and \<open>List_Lexorder\<close>).
  Scores are milliseconds or event numbers; they are whole numbers far below 2^53, so the
  double that Redis stores is exact and \<open>int\<close> is its value.
\<close>

named_theorems key_simps \<open>rules that decide equality of key names\<close>

type_synonym item = "string \<times> int"

definition item_less :: "item \<Rightarrow> item \<Rightarrow> bool" where
  "item_less x y \<longleftrightarrow> snd x < snd y \<or> (snd x = snd y \<and> fst x < fst y)"

definition zwf :: "item list \<Rightarrow> bool" where
  "zwf xs \<longleftrightarrow> sorted_wrt item_less xs \<and> distinct (map fst xs)"

definition members :: "item list \<Rightarrow> string set" where
  "members xs = fst ` set xs"

lemma item_less_irrefl [simp]: "\<not> item_less x x"
  by (simp add: item_less_def)

lemma item_less_trans: "item_less x y \<Longrightarrow> item_less y z \<Longrightarrow> item_less x z"
  by (auto simp: item_less_def)

lemma item_less_asym: "item_less x y \<Longrightarrow> \<not> item_less y x"
  by (auto simp: item_less_def)

lemma item_less_total: "x \<noteq> y \<Longrightarrow> item_less x y \<or> item_less y x"
  by (cases x; cases y) (auto simp: item_less_def)

lemma zwf_Nil [simp]: "zwf []"
  by (simp add: zwf_def)

lemma members_Nil [simp]: "members [] = {}"
  by (simp add: members_def)

lemma members_append [simp]: "members (xs @ ys) = members xs \<union> members ys"
  by (auto simp: members_def)

lemma members_single [simp]: "members [(m, s)] = {m}"
  by (simp add: members_def)

lemma members_Cons: "members (x # xs) = insert (fst x) (members xs)"
  by (simp add: members_def)

lemma finite_members [simp]: "finite (members xs)"
  by (simp add: members_def)

lemma in_members_iff: "m \<in> members xs \<longleftrightarrow> (\<exists>s. (m, s) \<in> set xs)"
  by (force simp: members_def)

lemma members_empty_iff [simp]: "members xs = {} \<longleftrightarrow> xs = []"
  by (simp add: members_def)

lemma length_zwf: "zwf xs \<Longrightarrow> length xs = card (members xs)"
  using distinct_card [of "map fst xs"] by (simp add: zwf_def members_def)

lemma zwf_filter: "zwf xs \<Longrightarrow> zwf (filter P xs)"
  by (simp add: zwf_def sorted_wrt_filter distinct_map_filter)

lemma zwf_take: "zwf xs \<Longrightarrow> zwf (take n xs)"
  by (simp add: zwf_def sorted_wrt_take take_map [symmetric])

lemma zwf_snoc:
  "zwf xs \<Longrightarrow> m \<notin> members xs \<Longrightarrow> (\<forall>x\<in>set xs. item_less x (m, s)) \<Longrightarrow> zwf (xs @ [(m, s)])"
  by (auto simp: zwf_def sorted_wrt_append members_def)

lemma zwf_key_unique: "zwf xs \<Longrightarrow> (m, s) \<in> set xs \<Longrightarrow> (m, t) \<in> set xs \<Longrightarrow> s = t"
  unfolding zwf_def by (metis eq_key_imp_eq_value)

lemma zwf_minus:
  fixes xs ys :: "item list"
  assumes "zwf xs" and "set ys \<subseteq> set xs"
  shows "{x \<in> set xs. fst x \<notin> members ys} = set xs - set ys"
proof (rule set_eqI)
  fix x :: item
  obtain m s where x: "x = (m, s)" by (cases x)
  have "(m, t) \<in> set ys \<Longrightarrow> (m, s) \<in> set xs \<Longrightarrow> t = s" for t
    using assms zwf_key_unique by blast
  with x show "x \<in> {x \<in> set xs. fst x \<notin> members ys} \<longleftrightarrow> x \<in> set xs - set ys"
    by (auto simp: in_members_iff)
qed

lemma zwf_map_of: "zwf xs \<Longrightarrow> map_of xs m = Some s \<longleftrightarrow> (m, s) \<in> set xs"
  by (simp add: zwf_def)

lemma map_of_None_members: "map_of xs m = None \<longleftrightarrow> m \<notin> members xs"
  by (simp add: map_of_eq_None_iff members_def)

lemma sorted_wrt_item_eqI:
  "sorted_wrt item_less xs \<Longrightarrow> sorted_wrt item_less ys \<Longrightarrow> set xs = set ys \<Longrightarrow> xs = ys"
proof (induction xs arbitrary: ys)
  case Nil
  then show ?case by simp
next
  case (Cons x xs)
  then obtain y ys' where ys: "ys = y # ys'"
    by (cases ys) auto
  have xy: "x = y"
  proof (rule ccontr)
    assume ne: "x \<noteq> y"
    with Cons.prems(3) ys have "y \<in> set xs" and "x \<in> set ys'" by auto
    with Cons.prems(1,2) ys have "item_less x y" and "item_less y x" by auto
    then show False using item_less_asym by blast
  qed
  have "x \<notin> set xs" and "x \<notin> set ys'"
    using Cons.prems(1,2) ys xy by auto
  with Cons.prems(3) ys xy have "set xs = set ys'" by auto
  with Cons.IH [of ys'] Cons.prems(1,2) ys xy show ?case by simp
qed

text \<open>A listing is determined by its set of pairs: the laws of a sorted set speak of sets,
  and the order of the listing follows.\<close>

lemma zwf_eqI: "zwf xs \<Longrightarrow> zwf ys \<Longrightarrow> set xs = set ys \<Longrightarrow> xs = ys"
  by (auto simp: zwf_def intro: sorted_wrt_item_eqI)

subsection \<open>Positions in a listing\<close>

definition zpos :: "item list \<Rightarrow> string \<Rightarrow> nat" where
  "zpos xs m = length (takeWhile (\<lambda>x. fst x \<noteq> m) xs)"

lemma zpos_less: "m \<in> members xs \<Longrightarrow> zpos xs m < length xs"
  by (induction xs) (auto simp: zpos_def members_def)

lemma zpos_nth: "m \<in> members xs \<Longrightarrow> fst (xs ! zpos xs m) = m"
  unfolding zpos_def by (metis (mono_tags, lifting) nth_length_takeWhile zpos_def zpos_less)

lemma zpos_snoc: "m \<notin> members xs \<Longrightarrow> zpos (xs @ [(m, s)]) m = length xs"
  by (induction xs) (auto simp: zpos_def members_def)

lemma zpos_middle: "m \<notin> members xs \<Longrightarrow> zpos (xs @ (m, s) # ys) m = length xs"
  by (induction xs) (auto simp: zpos_def members_def)

lemma zpos_eq_card:
  assumes "zwf xs" and "(m, s) \<in> set xs"
  shows "zpos xs m = card {x \<in> set xs. item_less x (m, s)}"
proof -
  obtain ys zs where xs: "xs = ys @ (m, s) # zs" and "(m, s) \<notin> set ys"
    using assms(2) by (meson split_list_first)
  have d: "distinct (map fst xs)" and so: "sorted_wrt item_less xs"
    using assms(1) by (auto simp: zwf_def)
  have nm: "\<forall>y\<in>set ys. fst y \<noteq> m"
    using d xs by (auto simp: image_iff)
  then have z: "zpos xs m = length ys"
    by (simp add: zpos_def xs takeWhile_append2)
  have "{x \<in> set xs. item_less x (m, s)} = set ys"
    using so xs item_less_asym by (auto simp: sorted_wrt_append)
  moreover have "distinct ys"
    using d xs by (simp add: distinct_map)
  ultimately show ?thesis using z by (simp add: distinct_card)
qed

lemma zpos_card: "zwf xs \<Longrightarrow> m \<in> members xs \<Longrightarrow> zpos xs m < card (members xs)"
  using zpos_less length_zwf by fastforce

subsection \<open>Storing a pair in a listing\<close>

text \<open>The listing after ZADD: the member's old pair goes, the new one stands where its score
  puts it.\<close>

definition zput :: "item \<Rightarrow> item list \<Rightarrow> item list" where
  "zput x xs = (let ys = filter (\<lambda>y. fst y \<noteq> fst x) xs
     in takeWhile (\<lambda>y. item_less y x) ys @ x # dropWhile (\<lambda>y. item_less y x) ys)"

lemma set_zput: "set (zput x xs) = insert x {y \<in> set xs. fst y \<noteq> fst x}"
proof -
  have "set (takeWhile P ys @ dropWhile P ys) = set ys" for P and ys :: "item list"
    by simp
  then show ?thesis by (auto simp: zput_def Let_def simp del: takeWhile_dropWhile_id)
qed

lemma zwf_zput [simp]:
  assumes "zwf xs"
  shows "zwf (zput x xs)"
proof -
  define ys where "ys = filter (\<lambda>y. fst y \<noteq> fst x) xs"
  define a where "a = takeWhile (\<lambda>y. item_less y x) ys"
  define b where "b = dropWhile (\<lambda>y. item_less y x) ys"
  have ab: "a @ b = ys" by (simp add: a_def b_def)
  have wf: "zwf (a @ b)" using assms by (simp add: ab ys_def zwf_filter)
  have nm: "\<forall>y\<in>set (a @ b). fst y \<noteq> fst x" by (simp add: ab ys_def)
  have la: "\<forall>y\<in>set a. item_less y x" by (auto simp: a_def dest: set_takeWhileD)
  have lb: "\<forall>y\<in>set b. item_less x y"
  proof
    fix y assume y: "y \<in> set b"
    then obtain h t where b: "b = h # t" by (cases b) auto
    then have "\<not> item_less h x" by (metis b_def hd_dropWhile list.discI list.sel(1))
    moreover have "h \<noteq> x" using nm b by auto
    ultimately have h: "item_less x h" using item_less_total by blast
    show "item_less x y"
      using y b h wf item_less_trans [of x h y] by (auto simp: zwf_def sorted_wrt_append)
  qed
  have "sorted_wrt item_less (a @ x # b)"
    using wf la lb by (auto simp: zwf_def sorted_wrt_append)
  moreover have "fst x \<notin> set (map fst (a @ b))"
    using nm by (metis (no_types) imageE set_map)
  with wf have "distinct (map fst (a @ x # b))"
    by (simp add: zwf_def)
  ultimately have "zwf (a @ x # b)" by (simp only: zwf_def)
  then show ?thesis by (simp add: zput_def ys_def a_def b_def Let_def)
qed

lemma members_zput [simp]: "members (zput (m, s) xs) = insert m (members xs)"
  by (auto simp: members_def set_zput)

text \<open>The listing after ZREM.\<close>

definition zdel :: "string list \<Rightarrow> item list \<Rightarrow> item list" where
  "zdel ms xs = filter (\<lambda>x. fst x \<notin> set ms) xs"

lemma members_zdel [simp]: "members (zdel ms xs) = members xs - set ms"
  by (auto simp: members_def zdel_def image_iff)

lemma zwf_zdel [simp]: "zwf xs \<Longrightarrow> zwf (zdel ms xs)"
  by (simp add: zdel_def zwf_filter)

lemma set_zdel: "set (zdel ms xs) = {x \<in> set xs. fst x \<notin> set ms}"
  by (simp add: zdel_def)

lemma zdel_Nil [simp]: "zdel [] xs = xs"
  by (simp add: zdel_def)

lemma zdel_zdel [simp]: "zdel ms (zdel ns xs) = zdel (ns @ ms) xs"
  by (simp add: zdel_def conj_commute)

lemma zput_zdel [simp]: "zput (m, s) (zdel [m] xs) = zput (m, s) xs"
  by (simp add: zput_def zdel_def Let_def conj_commute)

text \<open>A score above every other puts the member last: the discipline of the queue.\<close>

lemma zput_last:
  assumes "zwf xs" and "\<forall>x\<in>set xs. fst x \<noteq> m \<longrightarrow> item_less x (m, s)"
  shows "zput (m, s) xs = zdel [m] xs @ [(m, s)]"
proof (rule zwf_eqI)
  show "zwf (zdel [m] xs @ [(m, s)])"
    using assms by (intro zwf_snoc) (auto simp: set_zdel)
qed (auto simp: set_zput zwf_zput set_zdel assms)

text \<open>In general the pairs below stay in front and the others behind.\<close>

lemma sorted_prefix:
  assumes "sorted_wrt item_less ys"
  shows "takeWhile (\<lambda>y. item_less y x) ys = filter (\<lambda>y. item_less y x) ys"
    and "dropWhile (\<lambda>y. item_less y x) ys = filter (\<lambda>y. \<not> item_less y x) ys"
proof -
  have "filter (\<lambda>y. item_less y x) ys = []" "filter (\<lambda>y. \<not> item_less y x) ys = ys"
    if "sorted_wrt item_less (y # ys)" "\<not> item_less y x" for y ys
    using that item_less_trans [of y _ x] by (auto simp: filter_empty_conv filter_id_conv)
  with assms show "takeWhile (\<lambda>y. item_less y x) ys = filter (\<lambda>y. item_less y x) ys"
    "dropWhile (\<lambda>y. item_less y x) ys = filter (\<lambda>y. \<not> item_less y x) ys"
    by (induction ys) auto
qed

lemma zput_split:
  assumes "zwf xs"
  shows "zput x xs = (let ys = filter (\<lambda>y. fst y \<noteq> fst x) xs in
    filter (\<lambda>y. item_less y x) ys @ x # filter (\<lambda>y. item_less x y) ys)"
proof -
  let ?ys = "filter (\<lambda>y. fst y \<noteq> fst x) xs"
  have "sorted_wrt item_less ?ys" using zwf_filter [OF assms] by (simp add: zwf_def)
  note sp = sorted_prefix [OF this, of x]
  have "filter (\<lambda>y. \<not> item_less y x) ?ys = filter (\<lambda>y. item_less x y) ?ys"
    using item_less_total [of _ x] item_less_asym [of _ x] item_less_asym [of x]
    by (intro filter_cong [OF refl]) force
  with sp show ?thesis unfolding zput_def Let_def by presburger
qed

subsection \<open>Small facts on lists\<close>

lemma set_take_filter: "set (take n (filter P xs)) \<subseteq> {x \<in> set xs. P x}"
  using set_take_subset [of n "filter P xs"] by auto

lemma zdel_take:
  assumes "zwf xs"
  shows "zdel (map fst (take n xs)) xs = drop n xs"
proof -
  let ?f = "fst :: item \<Rightarrow> string"

  have "distinct (map ?f (take n xs @ drop n xs))" using assms by (simp add: zwf_def)
  then have dj: "?f ` set (take n xs) \<inter> ?f ` set (drop n xs) = {}"
    by (simp only: map_append distinct_append set_map)
  have "filter (\<lambda>x. ?f x \<notin> ?f ` set (take n xs)) (take n xs @ drop n xs) = drop n xs"
    using dj by (auto simp only: filter_append) (auto simp: filter_empty_conv filter_id_conv)
  then show ?thesis by (simp add: zdel_def)
qed

end
