(* ===== verification/GoStd.thy ===== *)
theory GoStd
  imports Prelude
begin

section \<open>What the program uses of Go's standard library\<close>

text \<open>
  \<open>strconv.FormatInt\<close> and \<open>strconv.ParseInt\<close> in base 10 at 64 bits, \<open>strings.SplitN\<close>,
  \<open>strings.Split\<close>, \<open>strings.TrimSpace\<close> and \<open>strings.LastIndex\<close>. An \<open>int64\<close> is an \<open>int\<close>
  in the range \<open>in64\<close>; the counters and times of the program stay inside it.
\<close>

definition in64 :: "int \<Rightarrow> bool" where
  "in64 n \<longleftrightarrow> - (2 ^ 63) \<le> n \<and> n < 2 ^ 63"

definition digit :: "nat \<Rightarrow> char" where
  "digit d = char_of (48 + d)"

fun nat_str :: "nat \<Rightarrow> string" where
  "nat_str n = (if n < 10 then [digit n] else nat_str (n div 10) @ [digit (n mod 10)])"

declare nat_str.simps [simp del]

definition FormatInt :: "int \<Rightarrow> string" where
  "FormatInt n = (if n < 0 then CHR ''-'' # nat_str (nat (- n)) else nat_str (nat n))"

definition is_digit :: "char \<Rightarrow> bool" where
  "is_digit c \<longleftrightarrow> 48 \<le> (of_char c :: nat) \<and> (of_char c :: nat) \<le> 57"

definition digits_val :: "string \<Rightarrow> nat" where
  "digits_val s = foldl (\<lambda>a c. a * 10 + (of_char c - 48)) 0 s"

definition parse_digits :: "string \<Rightarrow> nat option" where
  "parse_digits s = (if s \<noteq> [] \<and> list_all is_digit s then Some (digits_val s) else None)"

text \<open>An optional sign, digits, and the range check of \<open>bitSize = 64\<close>; None stands for the
  error return.\<close>

definition ParseInt :: "string \<Rightarrow> int option" where
  "ParseInt s =
     (let r = (case s of
                 [] \<Rightarrow> None
               | c # cs \<Rightarrow>
                   if c = CHR ''-'' then map_option (\<lambda>n. - int n) (parse_digits cs)
                   else if c = CHR ''+'' then map_option int (parse_digits cs)
                   else map_option int (parse_digits (c # cs)))
      in case r of Some n \<Rightarrow> if in64 n then Some n else None | None \<Rightarrow> None)"

lemma digit_of_char: "d < 10 \<Longrightarrow> (of_char (digit d) :: nat) = 48 + d"
  by (simp add: digit_def of_char_of)

lemma is_digit_digit: "d < 10 \<Longrightarrow> is_digit (digit d)"
  by (simp add: is_digit_def digit_of_char)

lemma nat_str_nonempty: "nat_str n \<noteq> []"
  by (subst nat_str.simps) simp

lemma nat_str_digits: "list_all is_digit (nat_str n)"
proof (induction n rule: nat_str.induct)
  case (1 n)
  then show ?case
    by (subst nat_str.simps) (auto simp: is_digit_digit)
qed

lemma digits_val_nat_str: "digits_val (nat_str n) = n"
proof (induction n rule: nat_str.induct)
  case (1 n)
  then show ?case
    by (subst nat_str.simps) (auto simp: digits_val_def digit_of_char)
qed

lemma parse_digits_nat_str [simp]: "parse_digits (nat_str n) = Some n"
  by (simp add: parse_digits_def nat_str_nonempty nat_str_digits digits_val_nat_str)

lemma is_digit_not_sign: "is_digit c \<Longrightarrow> c \<noteq> CHR ''-'' \<and> c \<noteq> CHR ''+''"
  by (auto simp: is_digit_def)

lemma nat_str_cases: obtains c cs where "nat_str n = c # cs" "c \<noteq> CHR ''-''" "c \<noteq> CHR ''+''"
  using nat_str_nonempty [of n] nat_str_digits [of n] is_digit_not_sign
  by (cases "nat_str n") auto

text \<open>Printing and reading back is the identity on the 64-bit range.\<close>

lemma ParseInt_FormatInt [simp]: "in64 n \<Longrightarrow> ParseInt (FormatInt n) = Some n"
proof (cases "n < 0")
  case True
  assume "in64 n"
  with True show ?thesis by (simp add: FormatInt_def ParseInt_def Let_def)
next
  case False
  assume r: "in64 n"
  obtain c cs where c: "nat_str (nat n) = c # cs" "c \<noteq> CHR ''-''" "c \<noteq> CHR ''+''"
    by (rule nat_str_cases)
  have "parse_digits (c # cs) = Some (nat n)"
    by (simp flip: c(1))
  with False r c show ?thesis by (simp add: FormatInt_def ParseInt_def Let_def)
qed

lemma FormatInt_sign: "hd (FormatInt n) = CHR ''-'' \<longleftrightarrow> n < 0"
proof -
  obtain c cs where "nat_str (nat n) = c # cs" "c \<noteq> CHR ''-''"
    by (rule nat_str_cases)
  then show ?thesis by (simp add: FormatInt_def)
qed

lemma FormatInt_inj: "FormatInt a = FormatInt b \<longleftrightarrow> a = b"
proof
  assume eq: "FormatInt a = FormatInt b"
  have s: "a < 0 \<longleftrightarrow> b < 0" using eq FormatInt_sign [of a] FormatInt_sign [of b] by simp
  show "a = b"
  proof (cases "a < 0")
    case True
    with eq s have "nat_str (nat (- a)) = nat_str (nat (- b))" by (simp add: FormatInt_def)
    then have "nat (- a) = nat (- b)" by (metis digits_val_nat_str)
    with True s show ?thesis by simp
  next
    case False
    with eq s have "nat_str (nat a) = nat_str (nat b)" by (simp add: FormatInt_def)
    then have "nat a = nat b" by (metis digits_val_nat_str)
    with False s show ?thesis by simp
  qed
qed simp

lemma FormatInt_nonempty [simp]: "FormatInt n \<noteq> []"
  by (simp add: FormatInt_def nat_str_nonempty)

lemma FormatInt_chars: "c \<in> set (FormatInt n) \<Longrightarrow> is_digit c \<or> c = CHR ''-''"
  using nat_str_digits by (auto simp: FormatInt_def list_all_iff split: if_splits)

subsection \<open>strings\<close>

text \<open>\<open>SplitN (s, sep, n)\<close> for \<open>n > 0\<close>: at most \<open>n\<close> pieces, the last one unsplit.\<close>

fun SplitN :: "nat \<Rightarrow> char \<Rightarrow> string \<Rightarrow> string list" where
  "SplitN 0 sep s = []"
| "SplitN (Suc 0) sep s = [s]"
| "SplitN (Suc (Suc n)) sep s =
     (if sep \<in> set s
      then takeWhile (\<lambda>c. c \<noteq> sep) s # SplitN (Suc n) sep (tl (dropWhile (\<lambda>c. c \<noteq> sep) s))
      else [s])"

lemma dropWhile_sep: "sep \<notin> set p \<Longrightarrow> dropWhile (\<lambda>c. c \<noteq> sep) (p @ sep # r) = sep # r"
  by (induction p) auto

lemma takeWhile_sep: "sep \<notin> set p \<Longrightarrow> takeWhile (\<lambda>c. c \<noteq> sep) (p @ sep # r) = p"
  by (induction p) auto

lemma SplitN_step:
  "sep \<notin> set p \<Longrightarrow> SplitN (Suc (Suc n)) sep (p @ sep # r) = p # SplitN (Suc n) sep r"
  by (simp add: takeWhile_sep dropWhile_sep)

text \<open>Joining the pieces with the separator gives the string back.\<close>

lemma SplitN_join:
  "n > 0 \<Longrightarrow> concat (map (\<lambda>p. sep # p) (SplitN n sep s)) = sep # s"
proof (induction n sep s rule: SplitN.induct)
  case (3 n sep s)
  show ?case
  proof (cases "sep \<in> set s")
    case True
    then obtain p r where "s = p @ sep # r" "sep \<notin> set p"
      by (meson split_list_first)
    with 3 show ?thesis by (simp add: takeWhile_sep dropWhile_sep)
  next
    case False
    then show ?thesis by simp
  qed
qed auto

text \<open>\<open>Split (s, sep)\<close> for a separator of one character: all the pieces.\<close>

function Split :: "char \<Rightarrow> string \<Rightarrow> string list" where
  "Split sep s =
     (if sep \<in> set s
      then takeWhile (\<lambda>c. c \<noteq> sep) s # Split sep (tl (dropWhile (\<lambda>c. c \<noteq> sep) s))
      else [s])"
  by auto

lemma after_sep_shorter: "sep \<in> set s \<Longrightarrow> length (dropWhile (\<lambda>c. c \<noteq> sep) s) - Suc 0 < length s"
  using length_dropWhile_le [of "\<lambda>c. c \<noteq> sep" s] by (cases s) auto

termination Split
  by (relation "measure (\<lambda>(sep, s). length s)") (simp_all add: after_sep_shorter)

declare Split.simps [simp del]

lemma Split_join: "concat (map (\<lambda>p. sep # p) (Split sep s)) = sep # s"
proof (induction sep s rule: Split.induct)
  case (1 sep s)
  show ?case
  proof (cases "sep \<in> set s")
    case True
    then obtain p r where s: "s = p @ sep # r" "sep \<notin> set p"
      by (meson split_list_first)
    then have "tl (dropWhile (\<lambda>c. c \<noteq> sep) s) = r" by (simp add: dropWhile_sep)
    with 1 [OF True] s show ?thesis by (subst Split.simps) (simp add: takeWhile_sep)
  next
    case False
    then show ?thesis by (subst Split.simps) simp
  qed
qed

lemma Split_no_sep: "p \<in> set (Split sep s) \<Longrightarrow> sep \<notin> set p"
proof (induction sep s arbitrary: p rule: Split.induct)
  case (1 sep s)
  show ?case
  proof (cases "sep \<in> set s")
    case True
    with 1 show ?thesis
      by (subst (asm) (2) Split.simps) (auto dest: set_takeWhileD)
  next
    case False
    with 1 show ?thesis by (subst (asm) (2) Split.simps) auto
  qed
qed

text \<open>\<open>TrimSpace\<close> on ASCII text.\<close>

definition is_space :: "char \<Rightarrow> bool" where
  "is_space c \<longleftrightarrow> (let n = of_char c :: nat in 9 \<le> n \<and> n \<le> 13 \<or> n = 32)"

definition TrimSpace :: "string \<Rightarrow> string" where
  "TrimSpace s = rev (dropWhile is_space (rev (dropWhile is_space s)))"

text \<open>\<open>s[LastIndex(s, sep)+1:]\<close>, the whole string if \<open>sep\<close> does not occur.\<close>

definition after_last :: "char \<Rightarrow> string \<Rightarrow> string" where
  "after_last sep s = rev (takeWhile (\<lambda>c. c \<noteq> sep) (rev s))"

text \<open>Arithmetic on \<open>int64\<close> wraps around.\<close>

definition wrap64 :: "int \<Rightarrow> int" where
  "wrap64 n = (n + 2 ^ 63) mod 2 ^ 64 - 2 ^ 63"

lemma wrap64_in64 [simp]: "in64 (wrap64 n)"
  by (simp add: wrap64_def in64_def)

lemma wrap64_id [simp]: "in64 n \<Longrightarrow> wrap64 n = n"
  by (simp add: wrap64_def in64_def)

lemma wrap64_add [simp]: "wrap64 (wrap64 a + b) = wrap64 (a + b)"
proof -
  have "wrap64 a + b + 2 ^ 63 = (a + 2 ^ 63) mod 2 ^ 64 + b" by (simp add: wrap64_def)
  then have "(wrap64 a + b + 2 ^ 63) mod 2 ^ 64 = (a + 2 ^ 63 + b) mod 2 ^ 64"
    by (simp only: mod_add_left_eq)
  then have "wrap64 (wrap64 a + b) = (a + 2 ^ 63 + b) mod 2 ^ 64 - 2 ^ 63"
    by (simp only: wrap64_def [of "wrap64 a + b"])
  then show ?thesis by (simp add: wrap64_def [of "a + b"] add_ac)
qed

end
