(* ===== verification/RedisService.thy ===== *)
theory RedisService
  imports GoStd
begin

section \<open>The Redis server as a parameter\<close>

text \<open>
  Redis is a service the repository only calls: no code of it is under src/. Every definition
  of the model that touches it takes the commands as an argument, a record \<open>R\<close> of type
  \<open>'db redis\<close> over an unknown type \<open>'db\<close> of databases. The locale \<open>redis_service\<close> names the
  documented behaviour of those commands; the properties assume it, and \<open>RefRedis\<close> gives a
  complete executable server that satisfies it.

  A key is used at one type only (\<open>Keys\<close> proves that the program's key names never collide),
  so \<open>'db\<close> stands for the databases in which no command meets a key of the wrong type.
  \<open>ZITEMS\<close> is \<open>ZRANGE key 0 -1 WITHSCORES\<close>; the laws describe a sorted set through it.
  \<open>ELAPSE\<close> is not a command but the passing of server time, which lets keys expire.
\<close>

datatype zbound = NegInf | PosInf | Incl int | Excl int

fun min_ok :: "zbound \<Rightarrow> int \<Rightarrow> bool" where
  "min_ok NegInf s = True"
| "min_ok PosInf s = False"
| "min_ok (Incl b) s = (b \<le> s)"
| "min_ok (Excl b) s = (b < s)"

fun max_ok :: "zbound \<Rightarrow> int \<Rightarrow> bool" where
  "max_ok NegInf s = False"
| "max_ok PosInf s = True"
| "max_ok (Incl b) s = (s \<le> b)"
| "max_ok (Excl b) s = (s < b)"

record 'db redis =
  ZITEMS :: "'db \<Rightarrow> string \<Rightarrow> item list"
  ZADD :: "string \<Rightarrow> int \<Rightarrow> string \<Rightarrow> 'db \<Rightarrow> 'db"
  ZREM :: "string \<Rightarrow> string list \<Rightarrow> 'db \<Rightarrow> int \<times> 'db"
  ZSCORE :: "'db \<Rightarrow> string \<Rightarrow> string \<Rightarrow> int option"
  ZCARD :: "'db \<Rightarrow> string \<Rightarrow> int"
  ZRANK :: "'db \<Rightarrow> string \<Rightarrow> string \<Rightarrow> int option"
  ZRANGE :: "'db \<Rightarrow> string \<Rightarrow> int \<Rightarrow> int \<Rightarrow> string list"
  ZREVRANGE :: "'db \<Rightarrow> string \<Rightarrow> int \<Rightarrow> int \<Rightarrow> item list"
  ZRANGEBYSCORE :: "'db \<Rightarrow> string \<Rightarrow> zbound \<Rightarrow> zbound \<Rightarrow> (int \<times> int) option \<Rightarrow> string list"
  ZREMRANGEBYRANK :: "string \<Rightarrow> int \<Rightarrow> int \<Rightarrow> 'db \<Rightarrow> 'db"
  SADD :: "string \<Rightarrow> string \<Rightarrow> 'db \<Rightarrow> 'db"
  SREM :: "string \<Rightarrow> string \<Rightarrow> 'db \<Rightarrow> 'db"
  SMEMBERS :: "'db \<Rightarrow> string \<Rightarrow> string list"
  GET :: "'db \<Rightarrow> string \<Rightarrow> string option"
  MGET :: "'db \<Rightarrow> string list \<Rightarrow> string option list"
  INCRBY :: "string \<Rightarrow> int \<Rightarrow> 'db \<Rightarrow> int option \<times> 'db"
  SETPX :: "string \<Rightarrow> string \<Rightarrow> int \<Rightarrow> 'db \<Rightarrow> 'db"
  EXISTS :: "'db \<Rightarrow> string \<Rightarrow> bool"
  EXPIRE :: "string \<Rightarrow> int \<Rightarrow> 'db \<Rightarrow> 'db"
  PTTL :: "'db \<Rightarrow> string \<Rightarrow> int option"
  DEL :: "string list \<Rightarrow> 'db \<Rightarrow> 'db"
  ELAPSE :: "int \<Rightarrow> 'db \<Rightarrow> 'db"

text \<open>Index ranges of ZRANGE and its kin: both ends inclusive, negative ends counted from the
  end; an end still negative is 0 at the left and selects nothing at the right.\<close>

definition index_range :: "int \<Rightarrow> int \<Rightarrow> 'a list \<Rightarrow> 'a list" where
  "index_range a b xs =
     (let n = int (length xs);
          i = (if a < 0 then max 0 (a + n) else a);
          j = (if b < 0 then b + n else b)
      in if j < i then [] else take (nat (j - i + 1)) (drop (nat i) xs))"

definition limited :: "(int \<times> int) option \<Rightarrow> 'a list \<Rightarrow> 'a list" where
  "limited lim xs =
     (case lim of None \<Rightarrow> xs
      | Some (off, cnt) \<Rightarrow>
          if cnt < 0 then drop (nat off) xs else take (nat cnt) (drop (nat off) xs))"

text \<open>Two databases that agree on everything a client can observe at one key.\<close>

definition same_at :: "'db redis \<Rightarrow> 'db \<Rightarrow> 'db \<Rightarrow> string \<Rightarrow> bool" where
  "same_at R db db' k \<longleftrightarrow>
     ZITEMS R db k = ZITEMS R db' k \<and> set (SMEMBERS R db k) = set (SMEMBERS R db' k) \<and>
     GET R db k = GET R db' k \<and> PTTL R db k = PTTL R db' k"

definition gone_at :: "'db redis \<Rightarrow> 'db \<Rightarrow> string \<Rightarrow> bool" where
  "gone_at R db k \<longleftrightarrow>
     ZITEMS R db k = [] \<and> set (SMEMBERS R db k) = {} \<and> GET R db k = None \<and> PTTL R db k = None"

text \<open>The counter value INCRBY reads: 0 for a missing key.\<close>

definition counter_is :: "'db redis \<Rightarrow> 'db \<Rightarrow> string \<Rightarrow> int \<Rightarrow> bool" where
  "counter_is R db k n \<longleftrightarrow>
     in64 n \<and> (GET R db k = None \<and> n = 0 \<or> GET R db k = Some (FormatInt n))"

locale redis_service =
  fixes R :: "'db redis"
  assumes zitems_wf [simp]: "zwf (ZITEMS R db k)"
    and zadd_items:
      "set (ZITEMS R (ZADD R k s m db) k) = insert (m, s) {x \<in> set (ZITEMS R db k). fst x \<noteq> m}"
    and zadd_frame: "k' \<noteq> k \<Longrightarrow> same_at R (ZADD R k s m db) db k'"
    and zrem_items:
      "set (ZITEMS R (snd (ZREM R k ms db)) k) = {x \<in> set (ZITEMS R db k). fst x \<notin> set ms}"
    and zrem_count: "fst (ZREM R k ms db) = int (card (members (ZITEMS R db k) \<inter> set ms))"
    and zrem_frame: "k' \<noteq> k \<Longrightarrow> same_at R (snd (ZREM R k ms db)) db k'"
    and zscore_items: "ZSCORE R db k m = map_of (ZITEMS R db k) m"
    and zcard_items: "ZCARD R db k = int (length (ZITEMS R db k))"
    and zrank_items: "ZRANK R db k m =
      (if m \<in> members (ZITEMS R db k) then Some (int (zpos (ZITEMS R db k) m)) else None)"
    and zrange_items: "ZRANGE R db k a b = map fst (index_range a b (ZITEMS R db k))"
    and zrevrange_items: "ZREVRANGE R db k a b = index_range a b (rev (ZITEMS R db k))"
    and zrangebyscore_items: "ZRANGEBYSCORE R db k lo hi lim =
      map fst (limited lim (filter (\<lambda>x. min_ok lo (snd x) \<and> max_ok hi (snd x)) (ZITEMS R db k)))"
    and zremrangebyrank_items: "set (ZITEMS R (ZREMRANGEBYRANK R k a b db) k) =
      set (ZITEMS R db k) - set (index_range a b (ZITEMS R db k))"
    and zremrangebyrank_frame: "k' \<noteq> k \<Longrightarrow> same_at R (ZREMRANGEBYRANK R k a b db) db k'"
    and sadd_members: "set (SMEMBERS R (SADD R k v db) k) = insert v (set (SMEMBERS R db k))"
    and sadd_frame: "k' \<noteq> k \<Longrightarrow> same_at R (SADD R k v db) db k'"
    and srem_members: "set (SMEMBERS R (SREM R k v db) k) = set (SMEMBERS R db k) - {v}"
    and srem_frame: "k' \<noteq> k \<Longrightarrow> same_at R (SREM R k v db) db k'"
    and mget_get: "MGET R db ks = map (GET R db) ks"
    and incrby_value: "counter_is R db k n \<Longrightarrow> in64 (n + d) \<Longrightarrow>
      fst (INCRBY R k d db) = Some (n + d) \<and>
      GET R (snd (INCRBY R k d db)) k = Some (FormatInt (n + d))"
    and incrby_overflow: "counter_is R db k n \<Longrightarrow> \<not> in64 (n + d) \<Longrightarrow>
      INCRBY R k d db = (None, db)"
    and incrby_frame: "k' \<noteq> k \<Longrightarrow> same_at R (snd (INCRBY R k d db)) db k'"
    and setpx_value: "0 < d \<Longrightarrow> GET R (SETPX R k v d db) k = Some v \<and>
      PTTL R (SETPX R k v d db) k = Some d"
    and setpx_frame: "k' \<noteq> k \<Longrightarrow> same_at R (SETPX R k v d db) db k'"
    and exists_iff: "EXISTS R db k \<longleftrightarrow>
      ZITEMS R db k \<noteq> [] \<or> set (SMEMBERS R db k) \<noteq> {} \<or> GET R db k \<noteq> None"
    and expire_ttl: "EXISTS R db k \<Longrightarrow> 0 < d \<Longrightarrow> PTTL R (EXPIRE R k d db) k = Some (d * 1000)"
    and expire_keeps: "0 < d \<Longrightarrow> ZITEMS R (EXPIRE R k d db) k = ZITEMS R db k \<and>
      GET R (EXPIRE R k d db) k = GET R db k"
    and expire_frame: "k' \<noteq> k \<Longrightarrow> same_at R (EXPIRE R k d db) db k'"
    and del_gone: "k \<in> set ks \<Longrightarrow> gone_at R (DEL R ks db) k"
    and del_frame: "k \<notin> set ks \<Longrightarrow> same_at R (DEL R ks db) db k"
    and no_ttl_kept: "PTTL R db k = None \<Longrightarrow>
      PTTL R (ZADD R k s m db) k = None \<and> PTTL R (snd (ZREM R k ms db)) k = None \<and>
      PTTL R (SADD R k v db) k = None \<and> PTTL R (SREM R k v db) k = None \<and>
      PTTL R (snd (INCRBY R k d db)) k = None \<and> PTTL R (DEL R ks db) k = None"
    and elapse_live: "PTTL R db k = None \<Longrightarrow> same_at R (ELAPSE R d db) db k"
    and elapse_before: "PTTL R db k = Some r \<Longrightarrow> 0 \<le> d \<Longrightarrow> d < r \<Longrightarrow>
      ZITEMS R (ELAPSE R d db) k = ZITEMS R db k \<and> GET R (ELAPSE R d db) k = GET R db k \<and>
      PTTL R (ELAPSE R d db) k = Some (r - d)"
    and elapse_after: "PTTL R db k = Some r \<Longrightarrow> r \<le> d \<Longrightarrow> gone_at R (ELAPSE R d db) k"
begin

subsection \<open>Reads after writes\<close>

lemmas frames = zadd_frame zrem_frame zremrangebyrank_frame sadd_frame srem_frame incrby_frame
  setpx_frame expire_frame

lemma zitems_frame [simp]:
  assumes "k' \<noteq> k"
  shows "ZITEMS R (ZADD R k s m db) k' = ZITEMS R db k'"
    and "ZITEMS R (snd (ZREM R k ms db)) k' = ZITEMS R db k'"
    and "ZITEMS R (ZREMRANGEBYRANK R k a b db) k' = ZITEMS R db k'"
    and "ZITEMS R (SADD R k v db) k' = ZITEMS R db k'"
    and "ZITEMS R (SREM R k v db) k' = ZITEMS R db k'"
    and "ZITEMS R (snd (INCRBY R k d db)) k' = ZITEMS R db k'"
    and "ZITEMS R (SETPX R k v d db) k' = ZITEMS R db k'"
    and "ZITEMS R (EXPIRE R k d db) k' = ZITEMS R db k'"
  using frames [OF assms] by (simp_all add: same_at_def)

lemma smembers_frame [simp]:
  assumes "k' \<noteq> k"
  shows "set (SMEMBERS R (ZADD R k s m db) k') = set (SMEMBERS R db k')"
    and "set (SMEMBERS R (snd (ZREM R k ms db)) k') = set (SMEMBERS R db k')"
    and "set (SMEMBERS R (ZREMRANGEBYRANK R k a b db) k') = set (SMEMBERS R db k')"
    and "set (SMEMBERS R (SADD R k v db) k') = set (SMEMBERS R db k')"
    and "set (SMEMBERS R (SREM R k v db) k') = set (SMEMBERS R db k')"
    and "set (SMEMBERS R (snd (INCRBY R k d db)) k') = set (SMEMBERS R db k')"
    and "set (SMEMBERS R (SETPX R k v d db) k') = set (SMEMBERS R db k')"
    and "set (SMEMBERS R (EXPIRE R k d db) k') = set (SMEMBERS R db k')"
  using frames [OF assms] by (simp_all add: same_at_def)

lemma get_frame [simp]:
  assumes "k' \<noteq> k"
  shows "GET R (ZADD R k s m db) k' = GET R db k'"
    and "GET R (snd (ZREM R k ms db)) k' = GET R db k'"
    and "GET R (ZREMRANGEBYRANK R k a b db) k' = GET R db k'"
    and "GET R (SADD R k v db) k' = GET R db k'"
    and "GET R (SREM R k v db) k' = GET R db k'"
    and "GET R (snd (INCRBY R k d db)) k' = GET R db k'"
    and "GET R (SETPX R k v d db) k' = GET R db k'"
    and "GET R (EXPIRE R k d db) k' = GET R db k'"
  using frames [OF assms] by (simp_all add: same_at_def)

lemma pttl_frame [simp]:
  assumes "k' \<noteq> k"
  shows "PTTL R (ZADD R k s m db) k' = PTTL R db k'"
    and "PTTL R (snd (ZREM R k ms db)) k' = PTTL R db k'"
    and "PTTL R (ZREMRANGEBYRANK R k a b db) k' = PTTL R db k'"
    and "PTTL R (SADD R k v db) k' = PTTL R db k'"
    and "PTTL R (SREM R k v db) k' = PTTL R db k'"
    and "PTTL R (snd (INCRBY R k d db)) k' = PTTL R db k'"
    and "PTTL R (SETPX R k v d db) k' = PTTL R db k'"
    and "PTTL R (EXPIRE R k d db) k' = PTTL R db k'"
  using frames [OF assms] by (simp_all add: same_at_def)

lemma del_reads [simp]:
  "ZITEMS R (DEL R ks db) k = (if k \<in> set ks then [] else ZITEMS R db k)"
  "set (SMEMBERS R (DEL R ks db) k) = (if k \<in> set ks then {} else set (SMEMBERS R db k))"
  "GET R (DEL R ks db) k = (if k \<in> set ks then None else GET R db k)"
  using del_gone [of k ks db] del_frame [of k ks db]
  by (auto simp: same_at_def gone_at_def)

lemma same_at_refl [simp]: "same_at R db db k"
  by (simp add: same_at_def)

lemma same_at_trans: "same_at R a b k \<Longrightarrow> same_at R b c k \<Longrightarrow> same_at R a c k"
  by (simp add: same_at_def)

subsection \<open>Sorted sets\<close>

lemma zitems_zadd [simp]: "ZITEMS R (ZADD R k s m db) k = zput (m, s) (ZITEMS R db k)"
  by (rule zwf_eqI) (auto simp: zadd_items set_zput zwf_zput)

lemma zitems_zrem [simp]: "ZITEMS R (snd (ZREM R k ms db)) k = zdel ms (ZITEMS R db k)"
  by (rule zwf_eqI) (auto simp: zrem_items set_zdel)

lemma zcard_card: "ZCARD R db k = int (card (members (ZITEMS R db k)))"
  by (simp add: zcard_items length_zwf)

lemma zcard_nonneg [simp]: "0 \<le> ZCARD R db k"
  by (simp add: zcard_items)

lemma zcard_0_iff: "ZCARD R db k = 0 \<longleftrightarrow> ZITEMS R db k = []"
  by (simp add: zcard_items)

lemma zscore_None_iff [simp]: "ZSCORE R db k m = None \<longleftrightarrow> m \<notin> members (ZITEMS R db k)"
  by (simp add: zscore_items map_of_None_members)

lemma zrem_count_single [simp]:
  "fst (ZREM R k [m] db) = (if m \<in> members (ZITEMS R db k) then 1 else 0)"
  by (simp add: zrem_count)

text \<open>ZRANGE from the head of the set.\<close>

lemma zrange_head: "0 < n \<Longrightarrow> ZRANGE R db k 0 (n - 1) = map fst (take (nat n) (ZITEMS R db k))"
  by (simp add: zrange_items index_range_def)

lemma limited_subset: "set (limited lim xs) \<subseteq> set xs"
  by (auto simp: limited_def split: option.splits if_splits prod.splits
      dest: in_set_takeD in_set_dropD)

lemma zrangebyscore_subset:
  "m \<in> set (ZRANGEBYSCORE R db k lo hi lim) \<Longrightarrow>
     \<exists>s. (m, s) \<in> set (ZITEMS R db k) \<and> min_ok lo s \<and> max_ok hi s"
proof -
  let ?xs = "filter (\<lambda>x. min_ok lo (snd x) \<and> max_ok hi (snd x)) (ZITEMS R db k)"
  assume "m \<in> set (ZRANGEBYSCORE R db k lo hi lim)"
  then obtain s where "(m, s) \<in> set (limited lim ?xs)"
    by (auto simp: zrangebyscore_items)
  then have "(m, s) \<in> set ?xs" using limited_subset by (rule rev_subsetD)
  then show ?thesis by auto
qed

lemma zrangebyscore_members:
  "set (ZRANGEBYSCORE R db k lo hi lim) \<subseteq> members (ZITEMS R db k)"
  using zrangebyscore_subset by (force simp: members_def)

end

end
