(* ===== verification/Keys.thy ===== *)
theory Keys
  imports RedisService
begin

section \<open>Key names (redis/keys.go, redis/events.go, redis/rate.go)\<close>

text \<open>
  The key builders, and the fact the whole model leans on: no two of them ever give the same
  name, whatever the movie identifiers are. \<open>qkey\<close> names the families, \<open>key_str\<close> is the
  string each denotes; the builders rewrite to \<open>key_str\<close> (collection \<open>key_simps\<close>), where
  equality of keys is equality of a datatype.
\<close>

definition ActiveKey :: "string \<Rightarrow> string" where
  "ActiveKey movieID = ''sessions:{'' @ movieID @ ''}:active''"

definition WaitingKey :: "string \<Rightarrow> string" where
  "WaitingKey movieID = ''sessions:{'' @ movieID @ ''}:waiting''"

definition WaitingLastseenKey :: "string \<Rightarrow> string" where
  "WaitingLastseenKey movieID = ''waiting_lastseen:{'' @ movieID @ ''}''"

definition PromotedCountKey :: "string \<Rightarrow> string" where
  "PromotedCountKey movieID = ''promoted_count:{'' @ movieID @ ''}''"

definition PendingKey :: "string \<Rightarrow> string" where
  "PendingKey movieID = ''pending_events:{'' @ movieID @ ''}''"

definition ActiveMoviesKey :: string where
  "ActiveMoviesKey = ''active_movies''"

definition WaitingMoviesKey :: string where
  "WaitingMoviesKey = ''waiting_movies''"

definition PromotePauseKey :: string where
  "PromotePauseKey = ''queue:promote_pause''"

definition EventsKey :: "string \<Rightarrow> string" where
  "EventsKey movieID = ''events:{'' @ movieID @ ''}''"

definition EventsIDKey :: "string \<Rightarrow> string" where
  "EventsIDKey movieID = ''events_id:{'' @ movieID @ ''}''"

definition RateBucketKey :: "string \<Rightarrow> int \<Rightarrow> string" where
  "RateBucketKey movieID unixSec = ''promote_rate:{'' @ movieID @ ''}:'' @ FormatInt unixSec"

datatype qkey =
  KActive string | KWaiting string | KLastseen string | KPromoted string | KPending string
  | KEvents string | KEventsID string | KBucket string int
  | KActiveMovies | KWaitingMovies | KPause

fun key_str :: "qkey \<Rightarrow> string" where
  "key_str (KActive m) = ActiveKey m"
| "key_str (KWaiting m) = WaitingKey m"
| "key_str (KLastseen m) = WaitingLastseenKey m"
| "key_str (KPromoted m) = PromotedCountKey m"
| "key_str (KPending m) = PendingKey m"
| "key_str (KEvents m) = EventsKey m"
| "key_str (KEventsID m) = EventsIDKey m"
| "key_str (KBucket m t) = RateBucketKey m t"
| "key_str KActiveMovies = ActiveMoviesKey"
| "key_str KWaitingMovies = WaitingMoviesKey"
| "key_str KPause = PromotePauseKey"

lemmas key_defs = ActiveKey_def WaitingKey_def WaitingLastseenKey_def PromotedCountKey_def
  PendingKey_def ActiveMoviesKey_def WaitingMoviesKey_def PromotePauseKey_def EventsKey_def
  EventsIDKey_def RateBucketKey_def

lemma last_sep_inj:
  assumes "c \<notin> set f" and "c \<notin> set f'" and "m @ c # f = m' @ c # f'"
  shows "m = m' \<and> f = f'"
proof -
  have e: "rev f @ c # rev m = rev f' @ c # rev m'"
    using arg_cong [OF assms(3), of rev] by simp
  have "rev f = rev f'"
    using arg_cong [OF e, of "takeWhile (\<lambda>x. x \<noteq> c)"] assms(1,2) by (simp add: takeWhile_sep)
  with e show ?thesis by simp
qed

lemma bucket_inj: "RateBucketKey m t = RateBucketKey m' t' \<longleftrightarrow> m = m' \<and> t = t'"
proof
  assume "RateBucketKey m t = RateBucketKey m' t'"
  then have "m @ CHR ''}'' # (CHR '':'' # FormatInt t) = m' @ CHR ''}'' # (CHR '':'' # FormatInt t')"
    by (simp add: RateBucketKey_def)
  moreover have "CHR ''}'' \<notin> set (CHR '':'' # FormatInt t)" for t
    using FormatInt_chars [of "CHR ''}''" t] by (auto simp: is_digit_def)
  ultimately have "m = m' \<and> CHR '':'' # FormatInt t = CHR '':'' # FormatInt t'"
    by (intro last_sep_inj)
  then show "m = m' \<and> t = t'" by (simp add: FormatInt_inj)
qed simp

lemma last_char_differs:
  assumes "xs \<noteq> []" and "ys \<noteq> []" and "last xs \<noteq> last ys"
  shows "a @ xs \<noteq> b @ ys"
proof
  assume "a @ xs = b @ ys"
  from arg_cong [OF this, of last] assms show False by simp
qed

lemma active_waiting: "ActiveKey m \<noteq> WaitingKey m'"
  using last_char_differs [of "''}:active''" "''}:waiting''" m m'] by (simp add: key_defs)

lemma key_str_same:
  "ActiveKey m = ActiveKey m' \<longleftrightarrow> m = m'" "WaitingKey m = WaitingKey m' \<longleftrightarrow> m = m'"
  "WaitingLastseenKey m = WaitingLastseenKey m' \<longleftrightarrow> m = m'"
  "PromotedCountKey m = PromotedCountKey m' \<longleftrightarrow> m = m'" "PendingKey m = PendingKey m' \<longleftrightarrow> m = m'"
  "EventsKey m = EventsKey m' \<longleftrightarrow> m = m'" "EventsIDKey m = EventsIDKey m' \<longleftrightarrow> m = m'"
  by (simp_all add: key_defs)

text \<open>The family of a key shows in its first eleven characters, but for the first two.\<close>

fun key_head :: "qkey \<Rightarrow> nat" where
  "key_head (KActive m) = 0" | "key_head (KWaiting m) = 0" | "key_head (KLastseen m) = 1"
| "key_head (KPromoted m) = 2" | "key_head (KPending m) = 3" | "key_head (KEvents m) = 4"
| "key_head (KEventsID m) = 5" | "key_head (KBucket m t) = 6" | "key_head KActiveMovies = 7"
| "key_head KWaitingMovies = 8" | "key_head KPause = 9"

definition head_of :: "string \<Rightarrow> nat" where
  "head_of s =
     (if s ! 0 = CHR ''s'' then 0
      else if s ! 0 = CHR ''w'' then (if s ! 8 = CHR ''l'' then 1 else 8)
      else if s ! 0 = CHR ''p'' then
        (if s ! 1 = CHR ''e'' then 3 else if s ! 7 = CHR ''d'' then 2 else 6)
      else if s ! 0 = CHR ''e'' then (if s ! 6 = CHR '':'' then 4 else 5)
      else if s ! 0 = CHR ''a'' then 7 else 9)"

lemma head_of_key: "head_of (key_str a) = key_head a"
  by (cases a) (simp_all add: key_defs head_of_def)

lemma key_str_inj [key_simps]: "key_str a = key_str b \<longleftrightarrow> a = b"
proof
  assume e: "key_str a = key_str b"
  then have "key_head a = key_head b" using head_of_key by metis
  with e show "a = b"
    by (cases a; cases b)
      (simp_all add: key_str_same bucket_inj active_waiting active_waiting [symmetric])
qed simp

lemmas key_str_fold [key_simps] = key_str.simps [symmetric]

declare key_str.simps [simp del]

text \<open>The key builders are injective and their ranges pairwise disjoint, for every movie
  identifier (also one with braces or colons in it) and every second.\<close>

lemma key_names_never_collide:
  "inj key_str \<and> key_str ` {KActive m, KWaiting m, KLastseen m, KPromoted m, KPending m,
       KEvents m, KEventsID m} \<inter> key_str ` {KActiveMovies, KWaitingMovies, KPause} = {}"
  by (auto simp: inj_def key_str_inj)

end
