(* ===== verification/World.thy ===== *)
theory World
  imports Keys
begin

section \<open>The program's surroundings: calls that fail, the broker, the clock\<close>

text \<open>
  One pod's code runs against a Redis database, a Kafka broker and a clock. The state
  \<open>'db world\<close> holds the three, the process-wide counters of the kafka and metrics packages,
  and what the surroundings have in store: \<open>fates\<close> says how the coming Redis calls end and
  what the other clients do meanwhile, \<open>kfates\<close> how the coming Kafka writes end, \<open>ticks\<close> how
  far the clock moves at each reading. An exhausted list means the good case, so every finite
  course of events is some choice of these lists, and a theorem for all worlds is one for all
  of them.

  A Redis call may be sent more than once (go-redis retries after a network error or a
  timeout), and a lost reply does not mean that nothing ran. \<open>Fate lost gaps ok\<close> lists the
  attempts that got no reply, each with the number of the call's commands the server executed,
  and says whether a last attempt got its reply. Every attempt also carries what other clients
  did before each of its commands: the pods share the database, and only a single command or
  script is atomic. A Kafka write likewise: \<open>KFate lost ok\<close> marks the messages each failed
  attempt stored all the same.
\<close>

datatype reply = RInt int | RBulk string | RArray "reply list" | RErr string

datatype go_error = RedisDown | RedisReply string | BadReply reply | KafkaDown

datatype 'db fate = Fate "(('db \<Rightarrow> 'db) list \<times> nat) list" "('db \<Rightarrow> 'db) list" bool

datatype kfate = KFate "bool list list" bool

text \<open>kafka.Event; an absent reason (omitempty) is the empty string.\<close>

record Event =
  eRequestID :: string
  eMovieID :: string
  eReason :: string

record message =
  mTopic :: string
  mKey :: string
  mValue :: string

record 'db world =
  rdb :: 'db
  fates :: "'db fate list"
  broker :: "message list"
  kfates :: "kfate list"
  clock :: int
  ticks :: "nat list"
  PublishFailures :: int
  ConsumeFailures :: int
  publishedTotal :: "string \<Rightarrow> int"
  promotedTotal :: "string \<Rightarrow> int"
  completedTotal :: int
  completedLagCount :: int
  loopLastTick :: "string \<Rightarrow> int"

definition ideal_world :: "'db \<Rightarrow> int \<Rightarrow> 'db world" where
  "ideal_world db t = \<lparr>rdb = db, fates = [], broker = [], kfates = [], clock = t, ticks = [],
     PublishFailures = 0, ConsumeFailures = 0, publishedTotal = (\<lambda>_. 0),
     promotedTotal = (\<lambda>_. 0), completedTotal = 0, completedLagCount = 0,
     loopLastTick = (\<lambda>_. 0)\<rparr>"

definition next_fate :: "'db world \<Rightarrow> 'db fate" where
  "next_fate w = (case fates w of [] \<Rightarrow> Fate [] [] True | f # _ \<Rightarrow> f)"

subsection \<open>A pipeline: several commands in one round trip\<close>

text \<open>The commands run one after the other, each on its own; other clients' commands may run
  in between, and a lost connection may cut the sequence anywhere. \<open>Exec\<close> returns the first
  error among the replies.\<close>

type_synonym 'db pcmd = "'db \<Rightarrow> go_error option \<times> 'db"

definition gap :: "('db \<Rightarrow> 'db) list \<Rightarrow> 'db \<Rightarrow> 'db" where
  "gap gs db = (case gs of [] \<Rightarrow> db | g # _ \<Rightarrow> g db)"

fun pipe_db :: "('db \<Rightarrow> 'db) list \<Rightarrow> 'db pcmd list \<Rightarrow> 'db \<Rightarrow> 'db" where
  "pipe_db gs [] db = db"
| "pipe_db gs (c # cs) db = pipe_db (tl gs) cs (snd (c (gap gs db)))"

fun pipe_err :: "('db \<Rightarrow> 'db) list \<Rightarrow> 'db pcmd list \<Rightarrow> 'db \<Rightarrow> go_error option" where
  "pipe_err gs [] db = None"
| "pipe_err gs (c # cs) db =
     (case fst (c (gap gs db)) of
        Some e \<Rightarrow> Some e
      | None \<Rightarrow> pipe_err (tl gs) cs (snd (c (gap gs db))))"

definition redis_pipe :: "'db pcmd list \<Rightarrow> 'db world \<Rightarrow> (go_error + unit) \<times> 'db world" where
  "redis_pipe cs w =
     (case next_fate w of Fate lost gs ok \<Rightarrow>
        let db = fold (\<lambda>(gs, n). pipe_db gs (take n cs)) lost (rdb w);
            w' = w\<lparr>fates := tl (fates w)\<rparr>
        in if ok then ((case pipe_err gs cs db of Some e \<Rightarrow> Inl e | None \<Rightarrow> Inr ()),
                       w'\<lparr>rdb := pipe_db gs cs db\<rparr>)
           else (Inl RedisDown, w'\<lparr>rdb := db\<rparr>))"

definition pure_cmd :: "('db \<Rightarrow> 'db) \<Rightarrow> 'db pcmd" where
  "pure_cmd f db = (None, f db)"

text \<open>A pipeline of reads, with the values of its last attempt.\<close>

fun pipe_reads :: "('db \<Rightarrow> 'db) list \<Rightarrow> ('db \<Rightarrow> 'a) list \<Rightarrow> 'db \<Rightarrow> 'a list" where
  "pipe_reads gs [] db = []"
| "pipe_reads gs (f # fs) db = f (gap gs db) # pipe_reads (tl gs) fs (gap gs db)"

definition redis_reads :: "('db \<Rightarrow> 'a) list \<Rightarrow> 'db world \<Rightarrow> (go_error + 'a list) \<times> 'db world" where
  "redis_reads fs w =
     (case next_fate w of Fate lost gs ok \<Rightarrow>
        let cs = map (\<lambda>_. pure_cmd id) fs;
            db = fold (\<lambda>(gs, n). pipe_db gs (take n cs)) lost (rdb w)
        in (case redis_pipe cs w of (r, w') \<Rightarrow>
              (map_sum id (\<lambda>_. pipe_reads gs fs db) r, w')))"

subsection \<open>One command or script\<close>

fun replay :: "(('db \<Rightarrow> 'db) list \<times> nat) list \<Rightarrow> ('db \<Rightarrow> 'a \<times> 'db) \<Rightarrow> 'db \<Rightarrow> 'db" where
  "replay [] cmd db = db"
| "replay ((gs, n) # lost) cmd db =
     replay lost cmd (if n = 0 then gap gs db else snd (cmd (gap gs db)))"

definition redis_call :: "('db \<Rightarrow> 'a \<times> 'db) \<Rightarrow> 'db world \<Rightarrow> (go_error + 'a) \<times> 'db world" where
  "redis_call cmd w =
     (case next_fate w of Fate lost gs ok \<Rightarrow>
        let db = replay lost cmd (rdb w); w' = w\<lparr>fates := tl (fates w)\<rparr>
        in if ok then (Inr (fst (cmd (gap gs db))), w'\<lparr>rdb := snd (cmd (gap gs db))\<rparr>)
           else (Inl RedisDown, w'\<lparr>rdb := db\<rparr>))"

text \<open>\<open>Script.Run(...).Result()\<close>: an error reply of the script is an error of the call.\<close>

definition redis_script :: "('db \<Rightarrow> reply \<times> 'db) \<Rightarrow> 'db world \<Rightarrow> (go_error + reply) \<times> 'db world" where
  "redis_script cmd w =
     (case redis_call cmd w of
        (Inr (RErr e), w') \<Rightarrow> (Inl (RedisReply e), w')
      | r \<Rightarrow> r)"

definition redis_read :: "('db \<Rightarrow> 'a) \<Rightarrow> 'db world \<Rightarrow> (go_error + 'a) \<times> 'db world" where
  "redis_read f = redis_call (\<lambda>db. (f db, db))"

definition redis_write :: "('db \<Rightarrow> 'db) \<Rightarrow> 'db world \<Rightarrow> (go_error + unit) \<times> 'db world" where
  "redis_write f = redis_call (\<lambda>db. ((), f db))"

subsection \<open>time.Now\<close>

definition now_ms :: "'db world \<Rightarrow> int \<times> 'db world" where
  "now_ms w = (clock w,
     w\<lparr>clock := clock w + (case ticks w of [] \<Rightarrow> 0 | d # _ \<Rightarrow> int d), ticks := tl (ticks w)\<rparr>)"

text \<open>\<open>UnixMilli\<close> and \<open>Unix\<close> of one reading.\<close>

definition unix_sec :: "int \<Rightarrow> int" where
  "unix_sec ms = ms div 1000"

subsection \<open>Properties of the database that calls keep\<close>

text \<open>\<open>good P w\<close>: the database has the property, and whatever other clients will do in the
  course of this world keeps it. A call whose command keeps the property then preserves
  \<open>good P\<close>, however the call ends.\<close>

definition keeps_fate :: "('db \<Rightarrow> bool) \<Rightarrow> 'db fate \<Rightarrow> bool" where
  "keeps_fate P f = (case f of Fate lost gs ok \<Rightarrow>
     \<forall>g\<in>set gs \<union> (\<Union>(hs, n)\<in>set lost. set hs). \<forall>db. P db \<longrightarrow> P (g db))"

definition good :: "('db \<Rightarrow> bool) \<Rightarrow> 'db world \<Rightarrow> bool" where
  "good P w \<longleftrightarrow> P (rdb w) \<and> (\<forall>f\<in>set (fates w). keeps_fate P f)"

lemma goodD: "good P w \<Longrightarrow> P (rdb w)"
  by (simp add: good_def)

lemma good_same: "rdb w' = rdb w \<Longrightarrow> fates w' = fates w \<Longrightarrow> good P w' = good P w"
  by (simp add: good_def)

lemma good_calm: "fates w = [] \<Longrightarrow> good P w \<longleftrightarrow> P (rdb w)"
  by (simp add: good_def)

lemma gap_keeps: "\<forall>g\<in>set gs. \<forall>db. P db \<longrightarrow> P (g db) \<Longrightarrow> P db \<Longrightarrow> P (gap gs db)"
  by (simp add: gap_def split: list.splits)

lemma replay_keeps:
  assumes "\<And>db. P db \<Longrightarrow> P (snd (cmd db))"
    and "\<forall>(gs, n)\<in>set lost. \<forall>g\<in>set gs. \<forall>db. P db \<longrightarrow> P (g db)" and "P db"
  shows "P (replay lost cmd db)"
  using assms by (induction lost cmd db rule: replay.induct) (auto simp: gap_keeps)

lemma pipe_db_keeps:
  assumes "\<And>c db. c \<in> set cs \<Longrightarrow> P db \<Longrightarrow> P (snd (c db))"
    and "\<forall>g\<in>set gs. \<forall>db. P db \<longrightarrow> P (g db)" and "P db"
  shows "P (pipe_db gs cs db)"
  using assms
proof (induction gs cs db rule: pipe_db.induct)
  case (2 gs c cs db)
  from "2.prems" have "P (snd (c (gap gs db)))" by (simp add: gap_keeps)
  moreover have "\<forall>g\<in>set (tl gs). \<forall>db. P db \<longrightarrow> P (g db)"
    using "2.prems"(2) by (cases gs) auto
  ultimately show ?case using 2 by simp
qed simp

lemma good_next:
  assumes "good P w" and "next_fate w = Fate lost gs ok"
  shows "\<forall>(hs, n)\<in>set lost. \<forall>g\<in>set hs. \<forall>db. P db \<longrightarrow> P (g db)"
    and "\<forall>g\<in>set gs. \<forall>db. P db \<longrightarrow> P (g db)"
    and "\<forall>f\<in>set (tl (fates w)). keeps_fate P f"
  using assms
  by (cases "fates w"; fastforce simp: good_def next_fate_def keeps_fate_def split: list.splits)+

lemma redis_call_good:
  assumes "good P w" and cmd: "\<And>db. P db \<Longrightarrow> P (snd (cmd db))"
  shows "good P (snd (redis_call cmd w))"
proof -
  obtain lost gs ok where f: "next_fate w = Fate lost gs ok" by (cases "next_fate w")
  note keep = good_next [OF assms(1) f]
  have "P (replay lost cmd (rdb w))"
    by (rule replay_keeps [where P = P and cmd = cmd and lost = lost and db = "rdb w"])
      (use cmd keep(1) goodD [OF assms(1)] in auto)
  with keep show ?thesis
    by (simp add: redis_call_def f Let_def good_def gap_keeps cmd)
qed

lemma redis_script_snd [simp]: "snd (redis_script cmd w) = snd (redis_call cmd w)"
  by (auto simp: redis_script_def split: prod.splits sum.splits reply.splits)

lemma redis_script_good:
  "good P w \<Longrightarrow> (\<And>db. P db \<Longrightarrow> P (snd (cmd db))) \<Longrightarrow> good P (snd (redis_script cmd w))"
  by (simp add: redis_call_good)

lemma redis_read_good: "good P w \<Longrightarrow> good P (snd (redis_read f w))"
  by (simp add: redis_read_def redis_call_good)

lemma redis_write_good:
  "good P w \<Longrightarrow> (\<And>db. P db \<Longrightarrow> P (f db)) \<Longrightarrow> good P (snd (redis_write f w))"
  by (simp add: redis_write_def redis_call_good)

lemma redis_pipe_good:
  assumes "good P w" and cs: "\<And>c db. c \<in> set cs \<Longrightarrow> P db \<Longrightarrow> P (snd (c db))"
  shows "good P (snd (redis_pipe cs w))"
proof -
  obtain lost gs ok where f: "next_fate w = Fate lost gs ok" by (cases "next_fate w")
  note keep = good_next [OF assms(1) f]
  have cut: "P (fold (\<lambda>(hs, n). pipe_db hs (take n cs)) lost db)" if "P db" for db
    using keep(1) that
  proof (induction lost arbitrary: db)
    case (Cons x lost)
    obtain hs n where x: "x = (hs, n)" by (cases x)
    have "P (pipe_db hs (take n cs) db)"
      using Cons.prems x cs by (intro pipe_db_keeps [where P = P]) (auto dest: in_set_takeD)
    with Cons x show ?case by simp
  qed simp
  have "P (pipe_db gs cs (fold (\<lambda>(hs, n). pipe_db hs (take n cs)) lost (rdb w)))"
    by (rule pipe_db_keeps [where P = P and cs = cs]) (use cs keep(2) cut [OF goodD [OF assms(1)]] in auto)
  with cut [OF goodD [OF assms(1)]] keep(3) show ?thesis
    by (simp add: redis_pipe_def f Let_def good_def)
qed

lemma redis_reads_snd: "snd (redis_reads fs w) = snd (redis_pipe (map (\<lambda>_. pure_cmd id) fs) w)"
  by (simp add: redis_reads_def Let_def split_beta split: fate.splits)

lemma redis_reads_good: "good P w \<Longrightarrow> good P (snd (redis_reads fs w))"
  unfolding redis_reads_snd by (rule redis_pipe_good) (auto simp: pure_cmd_def)

lemma now_ms_good [simp]: "good P (snd (now_ms w)) = good P w"
  by (rule good_same) (simp_all add: now_ms_def split: list.splits)

text \<open>Everything else of the world is untouched by a Redis call.\<close>

lemma redis_call_fields [simp]:
  "broker (snd (redis_call cmd w)) = broker w" "kfates (snd (redis_call cmd w)) = kfates w"
  "clock (snd (redis_call cmd w)) = clock w" "fates (snd (redis_call cmd w)) = tl (fates w)"
  by (simp_all add: redis_call_def Let_def split: fate.splits)

lemma redis_read_fields [simp]:
  "broker (snd (redis_read f w)) = broker w" "kfates (snd (redis_read f w)) = kfates w"
  "clock (snd (redis_read f w)) = clock w" "fates (snd (redis_read f w)) = tl (fates w)"
  by (simp_all add: redis_read_def)

lemma redis_write_fields [simp]:
  "broker (snd (redis_write f w)) = broker w" "kfates (snd (redis_write f w)) = kfates w"
  "clock (snd (redis_write f w)) = clock w" "fates (snd (redis_write f w)) = tl (fates w)"
  by (simp_all add: redis_write_def)

lemma redis_pipe_fields [simp]:
  "broker (snd (redis_pipe cs w)) = broker w" "kfates (snd (redis_pipe cs w)) = kfates w"
  "clock (snd (redis_pipe cs w)) = clock w" "fates (snd (redis_pipe cs w)) = tl (fates w)"
  by (simp_all add: redis_pipe_def Let_def split: fate.splits)

lemma redis_reads_fields [simp]:
  "broker (snd (redis_reads fs w)) = broker w" "kfates (snd (redis_reads fs w)) = kfates w"
  "clock (snd (redis_reads fs w)) = clock w" "fates (snd (redis_reads fs w)) = tl (fates w)"
  by (simp_all add: redis_reads_snd)

lemma now_ms_fields [simp]:
  "rdb (snd (now_ms w)) = rdb w" "broker (snd (now_ms w)) = broker w"
  "fates (snd (now_ms w)) = fates w" "kfates (snd (now_ms w)) = kfates w"
  "fst (now_ms w) = clock w" "clock w \<le> clock (snd (now_ms w))"
  by (simp_all add: now_ms_def split: list.splits)

subsection \<open>A call with nothing in its way\<close>

lemma calm_call:
  assumes "fates w = []"
  shows "redis_call cmd w = (Inr (fst (cmd (rdb w))), w\<lparr>rdb := snd (cmd (rdb w))\<rparr>)"
  using assms by (cases w) (simp add: redis_call_def next_fate_def gap_def)

lemma calm_read: "fates w = [] \<Longrightarrow> redis_read f w = (Inr (f (rdb w)), w)"
  by (simp add: redis_read_def calm_call)

lemma calm_write: "fates w = [] \<Longrightarrow> redis_write f w = (Inr (), w\<lparr>rdb := f (rdb w)\<rparr>)"
  by (simp add: redis_write_def calm_call)

lemma calm_reads:
  assumes "fates w = []"
  shows "redis_reads fs w = (Inr (map (\<lambda>f. f (rdb w)) fs), w)"
proof -
  have "pipe_db [] (map (\<lambda>_. pure_cmd id) fs) db = db" "pipe_err [] (map (\<lambda>_. pure_cmd id) fs) db = None"
    "pipe_reads [] fs db = map (\<lambda>f. f db) fs" for db :: 'a
    by (induction fs) (simp_all add: pure_cmd_def gap_def)
  then show ?thesis
    using assms by (cases w) (simp add: redis_reads_def redis_pipe_def next_fate_def)
qed

end
