(* ===== verification/Journal.thy ===== *)
theory Journal
  imports World
begin

section \<open>The journal of events to publish (redis/pending.go)\<close>

text \<open>
  The member vocabulary of \<open>pending_events:{movie}\<close> with its printer and parser, the reading
  and clearing of the journal, and the flag that pauses promotion on every pod. A member is
  \<open>kind|reason|requestId\<close>; its score is the time of the state change in milliseconds.
\<close>

definition KindAdmit :: string where "KindAdmit = ''A''"
definition KindRevoke :: string where "KindRevoke = ''R''"

definition ReasonEnter :: string where "ReasonEnter = ''ENTER''"
definition ReasonPromote :: string where "ReasonPromote = ''PROMOTE''"
definition ReasonSessionTimeout :: string where "ReasonSessionTimeout = ''SESSION_TIMEOUT''"
definition ReasonLeave :: string where "ReasonLeave = ''LEAVE''"
definition ReasonComplete :: string where "ReasonComplete = ''COMPLETE''"

lemmas vocabulary = KindAdmit_def KindRevoke_def ReasonEnter_def ReasonPromote_def
  ReasonSessionTimeout_def ReasonLeave_def ReasonComplete_def

record PendingEvent =
  pKind :: string
  pReason :: string
  pRequestID :: string
  pMember :: string

definition PendingMember :: "string \<Rightarrow> string \<Rightarrow> string \<Rightarrow> string" where
  "PendingMember kind reason requestID = kind @ ''|'' @ reason @ ''|'' @ requestID"

definition ParsePendingMember :: "string \<Rightarrow> PendingEvent option" where
  "ParsePendingMember m =
     (case SplitN 3 (CHR ''|'') m of
        [kind, reason, requestID] \<Rightarrow>
          if requestID = [] then None
          else Some \<lparr>pKind = kind, pReason = reason, pRequestID = requestID, pMember = m\<rparr>
      | _ \<Rightarrow> None)"

subsection \<open>Reading and clearing\<close>

text \<open>Members that do not parse can never be published; they are removed while reading, the
  result of that removal being ignored.\<close>

fun pending_collect ::
  "'db redis \<Rightarrow> string \<Rightarrow> string list \<Rightarrow> 'db world \<Rightarrow> PendingEvent list \<times> 'db world" where
  "pending_collect R movieID [] w = ([], w)"
| "pending_collect R movieID (m # ms) w =
     (case ParsePendingMember m of
        Some e \<Rightarrow> (case pending_collect R movieID ms w of (es, w) \<Rightarrow> (e # es, w))
      | None \<Rightarrow>
          (case redis_call (ZREM R (PendingKey movieID) [m]) w of (_, w) \<Rightarrow>
             pending_collect R movieID ms w))"

definition PendingBefore ::
  "'db redis \<Rightarrow> string \<Rightarrow> int \<Rightarrow> int \<Rightarrow> 'db world \<Rightarrow> (go_error + PendingEvent list) \<times> 'db world"
where
  "PendingBefore R movieID cutoff limit w =
     (case redis_read (\<lambda>db. ZRANGEBYSCORE R db (PendingKey movieID) NegInf (Incl cutoff)
                              (if limit = 0 then None else Some (0, limit))) w of
        (Inl err, w) \<Rightarrow> (Inl err, w)
      | (Inr raw, w) \<Rightarrow>
          (case pending_collect R movieID raw w of (es, w) \<Rightarrow> (Inr es, w)))"

definition ClearPending ::
  "'db redis \<Rightarrow> string \<Rightarrow> string list \<Rightarrow> 'db world \<Rightarrow> (go_error + unit) \<times> 'db world" where
  "ClearPending R movieID ms w =
     (if ms = [] then (Inr (), w)
      else redis_write (\<lambda>db. snd (ZREM R (PendingKey movieID) ms db)) w)"

definition PendingCount :: "'db redis \<Rightarrow> string \<Rightarrow> 'db world \<Rightarrow> (go_error + int) \<times> 'db world" where
  "PendingCount R movieID w = redis_read (\<lambda>db. ZCARD R db (PendingKey movieID)) w"

text \<open>The pause flag: \<open>SET queue:promote_pause 1\<close> with a time to live in milliseconds.\<close>

definition SetPromotePause :: "'db redis \<Rightarrow> int \<Rightarrow> 'db world \<Rightarrow> (go_error + unit) \<times> 'db world" where
  "SetPromotePause R d w = redis_write (SETPX R PromotePauseKey ''1'' d) w"

definition PromotePaused :: "'db redis \<Rightarrow> 'db world \<Rightarrow> (go_error + bool) \<times> 'db world" where
  "PromotePaused R w = redis_read (\<lambda>db. EXISTS R db PromotePauseKey) w"

subsection \<open>Printing and parsing members\<close>

lemma SplitN_member:
  assumes "CHR ''|'' \<notin> set kind" and "CHR ''|'' \<notin> set reason"
  shows "SplitN 3 (CHR ''|'') (PendingMember kind reason q) = [kind, reason, q]"
  using assms by (simp add: PendingMember_def numeral_3_eq_3 takeWhile_sep dropWhile_sep)

lemma parse_print:
  assumes "CHR ''|'' \<notin> set kind" and "CHR ''|'' \<notin> set reason" and "q \<noteq> []"
  shows "ParsePendingMember (PendingMember kind reason q) =
    Some \<lparr>pKind = kind, pReason = reason, pRequestID = q, pMember = PendingMember kind reason q\<rparr>"
  using assms by (simp add: ParsePendingMember_def SplitN_member)

lemma print_parse:
  assumes "ParsePendingMember m = Some e"
  shows "m = PendingMember (pKind e) (pReason e) (pRequestID e) \<and> pMember e = m \<and> pRequestID e \<noteq> []"
proof -
  from assms obtain k r q where s: "SplitN 3 (CHR ''|'') m = [k, r, q]" and q: "q \<noteq> []"
    and e: "e = \<lparr>pKind = k, pReason = r, pRequestID = q, pMember = m\<rparr>"
    unfolding ParsePendingMember_def by (simp split: list.splits if_splits)
  have "concat (map (\<lambda>p. CHR ''|'' # p) (SplitN 3 (CHR ''|'') m)) = CHR ''|'' # m"
    by (rule SplitN_join) simp
  then have "m = k @ CHR ''|'' # r @ CHR ''|'' # q" by (simp add: s)
  with q e show ?thesis by (simp add: PendingMember_def)
qed

lemma PendingMember_inj:
  assumes "CHR ''|'' \<notin> set k" "CHR ''|'' \<notin> set r" "CHR ''|'' \<notin> set k'" "CHR ''|'' \<notin> set r'"
  shows "PendingMember k r q = PendingMember k' r' q' \<longleftrightarrow> k = k' \<and> r = r' \<and> q = q'"
proof
  assume "PendingMember k r q = PendingMember k' r' q'"
  then have "[k, r, q] = [k', r', q']"
    by (simp only: SplitN_member [OF assms(1,2), symmetric] SplitN_member [OF assms(3,4), symmetric])
  then show "k = k' \<and> r = r' \<and> q = q'" by simp
qed simp

text \<open>The three shapes of member the scripts write.\<close>

definition admit_enter :: "string \<Rightarrow> string" where "admit_enter q = ''A|ENTER|'' @ q"
definition admit_promote :: "string \<Rightarrow> string" where "admit_promote q = ''A|PROMOTE|'' @ q"
definition revoke :: "string \<Rightarrow> string \<Rightarrow> string" where "revoke reason q = ''R|'' @ reason @ ''|'' @ q"

text \<open>Rewriting the string literals of the scripts to these names.\<close>

lemma session_timeout_member: "''R|SESSION_TIMEOUT|'' @ q = revoke ReasonSessionTimeout q"
  by (simp add: revoke_def ReasonSessionTimeout_def)

lemma member_appends:
  "admit_enter [] @ q = admit_enter q" "admit_promote [] @ q = admit_promote q"
  "revoke ReasonSessionTimeout [] @ q = revoke ReasonSessionTimeout q"
  by (simp_all add: admit_enter_def admit_promote_def revoke_def)

lemmas member_folds [key_simps] = member_appends
  admit_enter_def [symmetric, simplified] admit_promote_def [symmetric, simplified]
  revoke_def [symmetric, simplified] session_timeout_member [simplified]

lemma members_printed:
  "PendingMember KindAdmit ReasonEnter q = admit_enter q"
  "PendingMember KindAdmit ReasonPromote q = admit_promote q"
  "PendingMember KindRevoke reason q = revoke reason q"
  by (simp_all add: PendingMember_def vocabulary admit_enter_def admit_promote_def revoke_def)

lemma member_eqs [simp]:
  "admit_enter q = admit_enter q' \<longleftrightarrow> q = q'"
  "admit_promote q = admit_promote q' \<longleftrightarrow> q = q'"
  "admit_enter q \<noteq> admit_promote q'" "admit_promote q \<noteq> admit_enter q'"
  "admit_enter q \<noteq> revoke r q'" "revoke r q' \<noteq> admit_enter q"
  "admit_promote q \<noteq> revoke r q'" "revoke r q' \<noteq> admit_promote q"
  "revoke r q = revoke r q' \<longleftrightarrow> q = q'"
  by (simp_all add: admit_enter_def admit_promote_def revoke_def)

lemma parse_members [simp]:
  assumes "q \<noteq> []"
  shows "ParsePendingMember (admit_enter q) = Some \<lparr>pKind = KindAdmit, pReason = ReasonEnter,
           pRequestID = q, pMember = admit_enter q\<rparr>"
    and "ParsePendingMember (admit_promote q) = Some \<lparr>pKind = KindAdmit, pReason = ReasonPromote,
           pRequestID = q, pMember = admit_promote q\<rparr>"
    and "CHR ''|'' \<notin> set r \<Longrightarrow> ParsePendingMember (revoke r q) = Some \<lparr>pKind = KindRevoke,
           pReason = r, pRequestID = q, pMember = revoke r q\<rparr>"
  using assms parse_print [of KindAdmit ReasonEnter q] parse_print [of KindAdmit ReasonPromote q]
    parse_print [of KindRevoke r q]
  by (simp_all add: members_printed) (simp_all add: vocabulary)

text \<open>Printing a journal member and parsing it gives the pieces back, whenever the request
  identifier is not empty and kind and reason hold no separator; the request identifier itself
  may hold any character.\<close>

lemma journal_member_roundtrip:
  assumes "CHR ''|'' \<notin> set kind" and "CHR ''|'' \<notin> set reason" and "requestID \<noteq> []"
  shows "\<exists>e. ParsePendingMember (PendingMember kind reason requestID) = Some e \<and>
    pKind e = kind \<and> pReason e = reason \<and> pRequestID e = requestID \<and>
    PendingMember (pKind e) (pReason e) (pRequestID e) = pMember e"
  using parse_print [OF assms] by simp

lemma journal_member_roundtrip_witness:
  "\<exists>e. ParsePendingMember (PendingMember KindRevoke ReasonLeave ''a|b'') = Some e \<and>
    pKind e = ''R'' \<and> pReason e = ''LEAVE'' \<and> pRequestID e = ''a|b''"
  using journal_member_roundtrip [of KindRevoke ReasonLeave "''a|b''"] by (auto simp: vocabulary)

end
