(* ===== verification/Admission.thy ===== *)
theory Admission
  imports Journal
begin

section \<open>Entering, promotion and position (redis/enter.go, promote.go, position.go)\<close>

text \<open>
  The three Lua scripts that seat visitors and tell them where they stand, each as one function
  from a database to a reply and a database, since Redis runs a script atomically; and the Go
  wrappers that name the keys, send the script and read its reply. The keys are the script's
  KEYS, the other arguments its ARGV, in their order. A nil reply, which Lua sees as false, is
  None; arithmetic on it is an error reply.
\<close>

definition as_int :: "reply \<Rightarrow> int" where
  "as_int r = (case r of RInt n \<Rightarrow> n | _ \<Rightarrow> 0)"

definition as_str :: "reply \<Rightarrow> string" where
  "as_str r = (case r of RBulk s \<Rightarrow> s | _ \<Rightarrow> [])"

text \<open>The strings of an array reply; anything else is dropped.\<close>

definition toStrings :: "reply \<Rightarrow> string list" where
  "toStrings raw =
     (case raw of
        RArray arr \<Rightarrow> concat (map (\<lambda>v. case v of RBulk s \<Rightarrow> [s] | _ \<Rightarrow> []) arr)
      | _ \<Rightarrow> [])"

lemma toStrings_bulk [simp]: "toStrings (RArray (map RBulk us)) = us"
  by (induction us) (auto simp: toStrings_def)

subsection \<open>enter.go\<close>

definition enterScript ::
  "'db redis \<Rightarrow> string \<Rightarrow> string \<Rightarrow> string \<Rightarrow> string \<Rightarrow> string \<Rightarrow> string \<Rightarrow>
   int \<Rightarrow> string \<Rightarrow> int \<Rightarrow> string \<Rightarrow> 'db \<Rightarrow> reply \<times> 'db"
where
  "enterScript R active waiting lastseen pending activeMovies waitingMovies
     maxSessions member now movie db =
     (let db = SADD R activeMovies movie db in
      if ZSCORE R db active member \<noteq> None then
        (RArray [RInt 1, RBulk ''ALREADY_ACTIVE'', RInt (ZCARD R db active)], db)
      else if ZSCORE R db waiting member \<noteq> None then
        (let db = SADD R waitingMovies movie db;
             db = snd (ZREM R waiting [member] db);
             db = ZADD R waiting now member db;
             db = ZADD R lastseen now member db
         in case ZRANK R db waiting member of
              None \<Rightarrow> (RErr ''attempt to perform arithmetic on a boolean value'', db)
            | Some rank \<Rightarrow>
                (RArray [RInt 2, RBulk ''WAITING'', RInt (rank + 1), RInt (ZCARD R db waiting)], db))
      else
        (let activeCount = ZCARD R db active in
         if activeCount < maxSessions then
           (let db = ZADD R active now member db;
                db = ZADD R pending now (''A|ENTER|'' @ member) db
            in (RArray [RInt 1, RBulk ''ADMITTED'', RInt (activeCount + 1)], db))
         else
           (let db = SADD R waitingMovies movie db;
                db = ZADD R waiting now member db;
                db = ZADD R lastseen now member db
            in case ZRANK R db waiting member of
                 None \<Rightarrow> (RErr ''attempt to perform arithmetic on a boolean value'', db)
               | Some rank \<Rightarrow>
                   (RArray [RInt 2, RBulk ''WAITING'', RInt (rank + 1), RInt (ZCARD R db waiting)],
                    db))))"

record EnterResult =
  resStatus :: int
  resCode :: string
  resRank :: int
  resCount :: int

text \<open>The part of \<open>Enter\<close> that reads the reply, with its type assertions.\<close>

definition parse_enter :: "reply \<Rightarrow> go_error + EnterResult" where
  "parse_enter raw =
     (case raw of
        RArray arr \<Rightarrow>
          if length arr < 3 then Inl (BadReply raw)
          else
            (let status = as_int (arr ! 0);
                 res = \<lparr>resStatus = status, resCode = as_str (arr ! 1), resRank = 0, resCount = 0\<rparr>
             in if status = 2
                then (let res = res\<lparr>resRank := as_int (arr ! 2)\<rparr> in
                      Inr (if length arr \<ge> 4 then res\<lparr>resCount := as_int (arr ! 3)\<rparr> else res))
                else Inr (res\<lparr>resCount := as_int (arr ! 2)\<rparr>))
      | _ \<Rightarrow> Inl (BadReply raw))"

definition enter_cmd :: "'db redis \<Rightarrow> string \<Rightarrow> string \<Rightarrow> int \<Rightarrow> int \<Rightarrow> 'db \<Rightarrow> reply \<times> 'db" where
  "enter_cmd R movieID requestID maxSessions now =
     enterScript R (ActiveKey movieID) (WaitingKey movieID) (WaitingLastseenKey movieID)
       (PendingKey movieID) ActiveMoviesKey WaitingMoviesKey maxSessions requestID now movieID"

definition Enter ::
  "'db redis \<Rightarrow> string \<Rightarrow> string \<Rightarrow> int \<Rightarrow> int \<Rightarrow> 'db world \<Rightarrow> (go_error + EnterResult) \<times> 'db world"
where
  "Enter R movieID requestID maxSessions now w =
     (case redis_script (enter_cmd R movieID requestID maxSessions now) w of
        (Inl err, w) \<Rightarrow> (Inl err, w)
      | (Inr raw, w) \<Rightarrow> (parse_enter raw, w))"

subsection \<open>promote.go\<close>

fun promote_loop ::
  "'db redis \<Rightarrow> string \<Rightarrow> string \<Rightarrow> string \<Rightarrow> string \<Rightarrow> int \<Rightarrow> string list \<Rightarrow> 'db \<Rightarrow> 'db" where
  "promote_loop R waiting active lastseen pending now [] db = db"
| "promote_loop R waiting active lastseen pending now (u # users) db =
     (let db = snd (ZREM R waiting [u] db);
          db = snd (ZREM R lastseen [u] db);
          db = ZADD R active now u db;
          db = ZADD R pending now (''A|PROMOTE|'' @ u) db
      in promote_loop R waiting active lastseen pending now users db)"

definition promoteScript ::
  "'db redis \<Rightarrow> string \<Rightarrow> string \<Rightarrow> string \<Rightarrow> string \<Rightarrow> string \<Rightarrow>
   int \<Rightarrow> int \<Rightarrow> int \<Rightarrow> 'db \<Rightarrow> reply \<times> 'db"
where
  "promoteScript R waiting active promotedCount lastseen pending maxSessions batch now db =
     (let activeCount = ZCARD R db active;
          vacant = maxSessions - activeCount
      in if vacant \<le> 0 then (RArray [], db)
         else
           (let n = (if batch < vacant then batch else vacant) in
            if n \<le> 0 then (RArray [], db)
            else
              (let users = ZRANGE R db waiting 0 (n - 1);
                   db = promote_loop R waiting active lastseen pending now users db
               in if length users > 0
                  then (case INCRBY R promotedCount (int (length users)) db of
                          (None, db) \<Rightarrow> (RErr ''increment or decrement would overflow'', db)
                        | (Some _, db) \<Rightarrow> (RArray (map RBulk users), db))
                  else (RArray (map RBulk users), db))))"

definition promote_cmd :: "'db redis \<Rightarrow> string \<Rightarrow> int \<Rightarrow> int \<Rightarrow> int \<Rightarrow> 'db \<Rightarrow> reply \<times> 'db" where
  "promote_cmd R movieID maxSessions batch now =
     promoteScript R (WaitingKey movieID) (ActiveKey movieID) (PromotedCountKey movieID)
       (WaitingLastseenKey movieID) (PendingKey movieID) maxSessions batch now"

definition Promote ::
  "'db redis \<Rightarrow> string \<Rightarrow> int \<Rightarrow> int \<Rightarrow> int \<Rightarrow> 'db world \<Rightarrow> (go_error + string list) \<times> 'db world"
where
  "Promote R movieID maxSessions batch now w =
     (case redis_script (promote_cmd R movieID maxSessions batch now) w of
        (Inl err, w) \<Rightarrow> (Inl err, w)
      | (Inr raw, w) \<Rightarrow> (Inr (toStrings raw), w))"

subsection \<open>position.go\<close>

record PositionResult =
  posStatus :: string
  posPosition :: int
  posBehind :: int

definition positionScript ::
  "'db redis \<Rightarrow> string \<Rightarrow> string \<Rightarrow> string \<Rightarrow> string \<Rightarrow> int \<Rightarrow> 'db \<Rightarrow> reply \<times> 'db"
where
  "positionScript R active waiting lastseen m now db =
     (if ZSCORE R db active m \<noteq> None then (RArray [RBulk ''ADMITTED'', RInt 0, RInt 0], db)
      else
        (case ZRANK R db waiting m of
           None \<Rightarrow> (RArray [RBulk ''EXPIRED'', RInt 0, RInt 0], db)
         | Some rank \<Rightarrow>
             (let total = ZCARD R db waiting;
                  position = rank + 1;
                  behind = total - position;
                  behind = (if behind < 0 then 0 else behind);
                  db = ZADD R lastseen now m db
              in (RArray [RBulk ''WAITING'', RInt position, RInt behind], db))))"

definition position_cmd :: "'db redis \<Rightarrow> string \<Rightarrow> string \<Rightarrow> int \<Rightarrow> 'db \<Rightarrow> reply \<times> 'db" where
  "position_cmd R movieID requestID now =
     positionScript R (ActiveKey movieID) (WaitingKey movieID) (WaitingLastseenKey movieID)
       requestID now"

definition parse_position :: "reply \<Rightarrow> go_error + PositionResult" where
  "parse_position raw =
     (case raw of
        RArray arr \<Rightarrow>
          if length arr < 3 then Inl (BadReply raw)
          else Inr \<lparr>posStatus = as_str (arr ! 0), posPosition = as_int (arr ! 1),
                    posBehind = as_int (arr ! 2)\<rparr>
      | _ \<Rightarrow> Inl (BadReply raw))"

definition Position ::
  "'db redis \<Rightarrow> string \<Rightarrow> string \<Rightarrow> int \<Rightarrow> 'db world \<Rightarrow> (go_error + PositionResult) \<times> 'db world"
where
  "Position R movieID requestID now w =
     (case redis_script (position_cmd R movieID requestID now) w of
        (Inl err, w) \<Rightarrow> (Inl err, w)
      | (Inr raw, w) \<Rightarrow> (parse_position raw, w))"

end
