(* ===== verification/Release.thy ===== *)
theory Release
  imports Admission
begin

section \<open>Leaving, returning a seat, expiring (redis/leave.go, timeout.go)\<close>

text \<open>
  The scripts that take visitors out. Whoever leaves the active set by one of them is entered
  in the journal as revoked, and an admission of theirs that is still waiting to be published
  is dropped in the same execution. \<open>CompleteActive\<close>, which answers a finished booking, drops
  without revoking.
\<close>

subsection \<open>leave.go\<close>

definition leaveScript ::
  "'db redis \<Rightarrow> string \<Rightarrow> string \<Rightarrow> string \<Rightarrow> string \<Rightarrow> string \<Rightarrow> int \<Rightarrow> string \<Rightarrow> 'db \<Rightarrow> reply \<times> 'db"
where
  "leaveScript R active waiting lastseen pending m now reason db =
     (case ZREM R active [m] db of (wasActive, db) \<Rightarrow>
      case ZREM R waiting [m] db of (wasWaiting, db) \<Rightarrow>
        let db = snd (ZREM R lastseen [m] db);
            db = snd (ZREM R pending [''A|ENTER|'' @ m, ''A|PROMOTE|'' @ m] db);
            db = (if wasActive = 1 then ZADD R pending now (''R|'' @ reason @ ''|'' @ m) db else db)
        in (RInt (wasActive + wasWaiting * 2), db))"

definition releaseScript ::
  "'db redis \<Rightarrow> string \<Rightarrow> string \<Rightarrow> string \<Rightarrow> int \<Rightarrow> string \<Rightarrow> 'db \<Rightarrow> reply \<times> 'db"
where
  "releaseScript R active pending m now reason db =
     (case ZREM R active [m] db of (wasActive, db) \<Rightarrow>
        let db = snd (ZREM R pending [''A|ENTER|'' @ m, ''A|PROMOTE|'' @ m] db);
            db = (if wasActive = 1 then ZADD R pending now (''R|'' @ reason @ ''|'' @ m) db else db)
        in (RInt wasActive, db))"

definition leave_cmd :: "'db redis \<Rightarrow> string \<Rightarrow> string \<Rightarrow> int \<Rightarrow> 'db \<Rightarrow> reply \<times> 'db" where
  "leave_cmd R movieID requestID now =
     leaveScript R (ActiveKey movieID) (WaitingKey movieID) (WaitingLastseenKey movieID)
       (PendingKey movieID) requestID now ReasonLeave"

definition release_cmd :: "'db redis \<Rightarrow> string \<Rightarrow> string \<Rightarrow> string \<Rightarrow> int \<Rightarrow> 'db \<Rightarrow> reply \<times> 'db" where
  "release_cmd R movieID requestID reason now =
     releaseScript R (ActiveKey movieID) (PendingKey movieID) requestID now reason"

text \<open>\<open>Int64\<close> of a reply.\<close>

definition reply_int64 :: "(go_error + reply) \<Rightarrow> go_error + int" where
  "reply_int64 r = (case r of Inl e \<Rightarrow> Inl e | Inr (RInt n) \<Rightarrow> Inr n | Inr raw \<Rightarrow> Inl (BadReply raw))"

definition Leave ::
  "'db redis \<Rightarrow> string \<Rightarrow> string \<Rightarrow> int \<Rightarrow> 'db world \<Rightarrow> (go_error + bool) \<times> 'db world" where
  "Leave R movieID requestID now w =
     (case redis_script (leave_cmd R movieID requestID now) w of (r, w) \<Rightarrow>
        (case reply_int64 r of Inl err \<Rightarrow> (Inl err, w) | Inr n \<Rightarrow> (Inr (n > 0), w)))"

definition ReleaseActive ::
  "'db redis \<Rightarrow> string \<Rightarrow> string \<Rightarrow> string \<Rightarrow> int \<Rightarrow> 'db world \<Rightarrow> (go_error + bool) \<times> 'db world" where
  "ReleaseActive R movieID requestID reason now w =
     (case redis_script (release_cmd R movieID requestID reason now) w of (r, w) \<Rightarrow>
        (case reply_int64 r of Inl err \<Rightarrow> (Inl err, w) | Inr n \<Rightarrow> (Inr (n > 0), w)))"

text \<open>A \<open>TxPipeline\<close> is MULTI/EXEC: its commands run as one.\<close>

definition complete_cmd :: "'db redis \<Rightarrow> string \<Rightarrow> string \<Rightarrow> 'db \<Rightarrow> int \<times> 'db" where
  "complete_cmd R movieID requestID db =
     (case ZREM R (ActiveKey movieID) [requestID] db of (rem, db) \<Rightarrow>
        (rem, snd (ZREM R (PendingKey movieID)
                     [PendingMember KindAdmit ReasonEnter requestID,
                      PendingMember KindAdmit ReasonPromote requestID] db)))"

definition CompleteActive ::
  "'db redis \<Rightarrow> string \<Rightarrow> string \<Rightarrow> 'db world \<Rightarrow> (go_error + bool) \<times> 'db world" where
  "CompleteActive R movieID requestID w =
     (case redis_call (complete_cmd R movieID requestID) w of
        (Inl err, w) \<Rightarrow> (Inl err, w)
      | (Inr rem, w) \<Rightarrow> (Inr (rem > 0), w))"

subsection \<open>timeout.go\<close>

fun expire_loop :: "'db redis \<Rightarrow> string \<Rightarrow> int \<Rightarrow> string list \<Rightarrow> 'db \<Rightarrow> 'db" where
  "expire_loop R pending now [] db = db"
| "expire_loop R pending now (u # expired) db =
     (let db = snd (ZREM R pending [''A|ENTER|'' @ u, ''A|PROMOTE|'' @ u] db);
          db = ZADD R pending now (''R|SESSION_TIMEOUT|'' @ u) db
      in expire_loop R pending now expired db)"

definition expireScript ::
  "'db redis \<Rightarrow> string \<Rightarrow> string \<Rightarrow> int \<Rightarrow> int \<Rightarrow> 'db \<Rightarrow> reply \<times> 'db" where
  "expireScript R active pending cutoff now db =
     (let expired = ZRANGEBYSCORE R db active (Incl 0) (Incl cutoff) (Some (0, 1000));
          db = (if length expired > 0
                then expire_loop R pending now expired (snd (ZREM R active expired db))
                else db)
      in (RArray (map RBulk expired), db))"

definition expire_cmd :: "'db redis \<Rightarrow> string \<Rightarrow> int \<Rightarrow> int \<Rightarrow> 'db \<Rightarrow> reply \<times> 'db" where
  "expire_cmd R movieID cutoff now =
     expireScript R (ActiveKey movieID) (PendingKey movieID) cutoff now"

definition ExpireActive ::
  "'db redis \<Rightarrow> string \<Rightarrow> int \<Rightarrow> int \<Rightarrow> 'db world \<Rightarrow> (go_error + string list) \<times> 'db world" where
  "ExpireActive R movieID cutoff now w =
     (case redis_script (expire_cmd R movieID cutoff now) w of
        (Inl err, w) \<Rightarrow> (Inl err, w)
      | (Inr raw, w) \<Rightarrow> (Inr (toStrings raw), w))"

definition waitingExpireScript ::
  "'db redis \<Rightarrow> string \<Rightarrow> string \<Rightarrow> int \<Rightarrow> 'db \<Rightarrow> reply \<times> 'db" where
  "waitingExpireScript R waiting lastseen cutoff db =
     (let stale = ZRANGEBYSCORE R db lastseen (Incl 0) (Incl cutoff) (Some (0, 1000));
          db = (if length stale > 0
                then snd (ZREM R waiting stale (snd (ZREM R lastseen stale db)))
                else db)
      in (RArray (map RBulk stale), db))"

definition waiting_expire_cmd :: "'db redis \<Rightarrow> string \<Rightarrow> int \<Rightarrow> 'db \<Rightarrow> reply \<times> 'db" where
  "waiting_expire_cmd R movieID cutoff =
     waitingExpireScript R (WaitingKey movieID) (WaitingLastseenKey movieID) cutoff"

definition runExpire ::
  "('db \<Rightarrow> reply \<times> 'db) \<Rightarrow> 'db world \<Rightarrow> (go_error + string list) \<times> 'db world" where
  "runExpire script w =
     (case redis_script script w of
        (Inl err, w) \<Rightarrow> (Inl err, w)
      | (Inr raw, w) \<Rightarrow> (Inr (toStrings raw), w))"

definition ExpireWaiting ::
  "'db redis \<Rightarrow> string \<Rightarrow> int \<Rightarrow> 'db world \<Rightarrow> (go_error + string list) \<times> 'db world" where
  "ExpireWaiting R movieID cutoff w = runExpire (waiting_expire_cmd R movieID cutoff) w"

end
