(* ===== verification/Tracking.thy ===== *)
theory Tracking
  imports Release
begin

section \<open>Which movies the loops visit (redis/untrack.go, query.go, stats.go, reset.go)\<close>

text \<open>
  The two tracking sets, the scripts that take an idle movie off them and the reset of one
  movie. The rate buckets that \<open>Reset\<close> also deletes are those of \<open>rate.go\<close>, whose constants
  are here.
\<close>

definition rateWindowSec :: int where "rateWindowSec = 90"
definition rateBucketTTL :: int where "rateBucketTTL = rateWindowSec + 30"

subsection \<open>untrack.go\<close>

definition untrackScript ::
  "'db redis \<Rightarrow> string \<Rightarrow> string \<Rightarrow> string \<Rightarrow> string \<Rightarrow> string \<Rightarrow> string \<Rightarrow> 'db \<Rightarrow> reply \<times> 'db"
where
  "untrackScript R active waiting pending activeMovies waitingMovies movie db =
     (if ZCARD R db active = 0 \<and> ZCARD R db waiting = 0 \<and> ZCARD R db pending = 0 then
        (let db = SREM R activeMovies movie db;
             db = SREM R waitingMovies movie db
         in (RInt 1, db))
      else (RInt 0, db))"

definition untrack_cmd :: "'db redis \<Rightarrow> string \<Rightarrow> 'db \<Rightarrow> reply \<times> 'db" where
  "untrack_cmd R movieID =
     untrackScript R (ActiveKey movieID) (WaitingKey movieID) (PendingKey movieID)
       ActiveMoviesKey WaitingMoviesKey movieID"

definition UntrackIfIdle ::
  "'db redis \<Rightarrow> string \<Rightarrow> 'db world \<Rightarrow> (go_error + bool) \<times> 'db world" where
  "UntrackIfIdle R movieID w =
     (case redis_script (untrack_cmd R movieID) w of (r, w) \<Rightarrow>
        (case reply_int64 r of Inl err \<Rightarrow> (Inl err, w) | Inr n \<Rightarrow> (Inr (n > 0), w)))"

subsection \<open>query.go\<close>

definition WaitingCount :: "'db redis \<Rightarrow> string \<Rightarrow> 'db world \<Rightarrow> (go_error + int) \<times> 'db world" where
  "WaitingCount R movieID w = redis_read (\<lambda>db. ZCARD R db (WaitingKey movieID)) w"

definition ActiveCount :: "'db redis \<Rightarrow> string \<Rightarrow> 'db world \<Rightarrow> (go_error + int) \<times> 'db world" where
  "ActiveCount R movieID w = redis_read (\<lambda>db. ZCARD R db (ActiveKey movieID)) w"

text \<open>The union of the two sets, each movie once. Go ranges over a map, so the order of the
  result is unspecified there; the model takes the order of first appearance.\<close>

definition ActiveQueueMovies :: "'db redis \<Rightarrow> 'db world \<Rightarrow> (go_error + string list) \<times> 'db world" where
  "ActiveQueueMovies R w =
     (case redis_read (\<lambda>db. SMEMBERS R db ActiveMoviesKey) w of
        (Inl err, w) \<Rightarrow> (Inl err, w)
      | (Inr a, w) \<Rightarrow>
          (case redis_read (\<lambda>db. SMEMBERS R db WaitingMoviesKey) w of
             (Inl err, w) \<Rightarrow> (Inl err, w)
           | (Inr ws, w) \<Rightarrow> (Inr (remdups (a @ ws)), w)))"

subsection \<open>stats.go\<close>

record StatsResult =
  stActive :: int
  stWaiting :: int
  stPromoted :: int

text \<open>Three reads in one pipeline. A missing counter is 0; so is one that does not parse.\<close>

definition promoted_of :: "'db redis \<Rightarrow> string \<Rightarrow> 'db \<Rightarrow> int" where
  "promoted_of R movieID db =
     (case GET R db (PromotedCountKey movieID) of
        None \<Rightarrow> 0
      | Some s \<Rightarrow> (case ParseInt s of None \<Rightarrow> 0 | Some n \<Rightarrow> n))"

definition Stats :: "'db redis \<Rightarrow> string \<Rightarrow> 'db world \<Rightarrow> (go_error + StatsResult) \<times> 'db world" where
  "Stats R movieID w =
     (case redis_reads [\<lambda>db. ZCARD R db (ActiveKey movieID), \<lambda>db. ZCARD R db (WaitingKey movieID),
             promoted_of R movieID] w of
        (Inl err, w) \<Rightarrow> (Inl err, w)
      | (Inr vals, w) \<Rightarrow>
          (Inr \<lparr>stActive = vals ! 0, stWaiting = vals ! 1, stPromoted = vals ! 2\<rparr>, w))"

subsection \<open>reset.go\<close>

definition reset_keys :: "string \<Rightarrow> int \<Rightarrow> string list" where
  "reset_keys movieID nowSec =
     [ActiveKey movieID, WaitingKey movieID, WaitingLastseenKey movieID, PromotedCountKey movieID,
      PendingKey movieID, EventsKey movieID, EventsIDKey movieID]
     @ map (\<lambda>i. RateBucketKey movieID (nowSec - i)) [0..rateBucketTTL - 1]"

definition reset_pipe :: "'db redis \<Rightarrow> string \<Rightarrow> int \<Rightarrow> 'db pcmd list" where
  "reset_pipe R movieID nowSec =
     [pure_cmd (DEL R (reset_keys movieID nowSec)),
      pure_cmd (SREM R ActiveMoviesKey movieID),
      pure_cmd (SREM R WaitingMoviesKey movieID)]"

text \<open>A plain pipeline, not a transaction: another client's command may run in between.\<close>

definition Reset ::
  "'db redis \<Rightarrow> string \<Rightarrow> int \<Rightarrow> 'db world \<Rightarrow> (go_error + unit) \<times> 'db world" where
  "Reset R movieID nowSec w = redis_pipe (reset_pipe R movieID nowSec) w"

end
