(* ===== verification/QueueState.thy ===== *)
theory QueueState
  imports Tracking
begin

section \<open>What each script does to one movie's queue\<close>

text \<open>
  The state of one movie as sets of members, and for each script its effect on those sets and
  the keys it leaves alone. These lemmas are the only ones that unfold the scripts; the
  invariants and the system proofs rest on them.
\<close>

abbreviation acts :: "'db redis \<Rightarrow> 'db \<Rightarrow> string \<Rightarrow> string set" where
  "acts R db m \<equiv> members (ZITEMS R db (ActiveKey m))"

abbreviation waits :: "'db redis \<Rightarrow> 'db \<Rightarrow> string \<Rightarrow> string set" where
  "waits R db m \<equiv> members (ZITEMS R db (WaitingKey m))"

abbreviation lasts :: "'db redis \<Rightarrow> 'db \<Rightarrow> string \<Rightarrow> string set" where
  "lasts R db m \<equiv> members (ZITEMS R db (WaitingLastseenKey m))"

abbreviation pends :: "'db redis \<Rightarrow> 'db \<Rightarrow> string \<Rightarrow> string set" where
  "pends R db m \<equiv> members (ZITEMS R db (PendingKey m))"

abbreviation tracked :: "'db redis \<Rightarrow> 'db \<Rightarrow> string set" where
  "tracked R db \<equiv> set (SMEMBERS R db ActiveMoviesKey)"

text \<open>The keys a script on movie \<open>m\<close> may write.\<close>

definition queue_keys :: "string \<Rightarrow> string set" where
  "queue_keys m = {ActiveKey m, WaitingKey m, WaitingLastseenKey m, PendingKey m,
     PromotedCountKey m, ActiveMoviesKey, WaitingMoviesKey}"

lemma queue_keys_str: "queue_keys m = key_str ` {KActive m, KWaiting m, KLastseen m, KPending m,
     KPromoted m, KActiveMovies, KWaitingMovies}"
  by (simp add: queue_keys_def key_simps)

text \<open>Whether a visitor \<open>q\<close> who enters finds a seat, or joins the queue.\<close>

definition seats :: "'db redis \<Rightarrow> 'db \<Rightarrow> string \<Rightarrow> int \<Rightarrow> string \<Rightarrow> bool" where
  "seats R db m cap q \<longleftrightarrow>
     q \<notin> acts R db m \<and> q \<notin> waits R db m \<and> ZCARD R db (ActiveKey m) < cap"

definition queues :: "'db redis \<Rightarrow> 'db \<Rightarrow> string \<Rightarrow> int \<Rightarrow> string \<Rightarrow> bool" where
  "queues R db m cap q \<longleftrightarrow>
     q \<notin> acts R db m \<and> (q \<in> waits R db m \<or> cap \<le> ZCARD R db (ActiveKey m))"

text \<open>The visitors a promotion seats, and the loop of \<open>promoteScript\<close> on the keys of \<open>m\<close>.\<close>

definition promote_users :: "'db redis \<Rightarrow> 'db \<Rightarrow> string \<Rightarrow> int \<Rightarrow> int \<Rightarrow> string list" where
  "promote_users R db m cap batch =
     (let vacant = cap - ZCARD R db (ActiveKey m); n = (if batch < vacant then batch else vacant)
      in if n \<le> 0 then [] else ZRANGE R db (WaitingKey m) 0 (n - 1))"

definition seat_users :: "'db redis \<Rightarrow> string \<Rightarrow> int \<Rightarrow> string list \<Rightarrow> 'db \<Rightarrow> 'db" where
  "seat_users R m now us db = promote_loop R (WaitingKey m) (ActiveKey m) (WaitingLastseenKey m)
     (PendingKey m) now us db"

text \<open>The sessions and the waiting visitors a timeout takes out, at most 1000 at a time.\<close>

definition expired_users :: "'db redis \<Rightarrow> 'db \<Rightarrow> string \<Rightarrow> int \<Rightarrow> string list" where
  "expired_users R db m cutoff =
     ZRANGEBYSCORE R db (ActiveKey m) (Incl 0) (Incl cutoff) (Some (0, 1000))"

definition stale_users :: "'db redis \<Rightarrow> 'db \<Rightarrow> string \<Rightarrow> int \<Rightarrow> string list" where
  "stale_users R db m cutoff =
     ZRANGEBYSCORE R db (WaitingLastseenKey m) (Incl 0) (Incl cutoff) (Some (0, 1000))"

text \<open>A movie with nobody seated, nobody waiting and nothing to publish.\<close>

definition idle :: "'db redis \<Rightarrow> 'db \<Rightarrow> string \<Rightarrow> bool" where
  "idle R db m \<longleftrightarrow> acts R db m = {} \<and> waits R db m = {} \<and> pends R db m = {}"

definition admits :: "string set \<Rightarrow> string set" where
  "admits E = admit_enter ` E \<union> admit_promote ` E"

lemma admits_simps [simp]:
  "admits {} = {}" "admits (insert q E) = {admit_enter q, admit_promote q} \<union> admits E"
  "admit_enter q \<in> admits E \<longleftrightarrow> q \<in> E" "admit_promote q \<in> admits E \<longleftrightarrow> q \<in> E"
  "revoke r q \<notin> admits E"
  by (auto simp: admits_def)

context redis_service
begin

subsection \<open>enter\<close>

lemma enter_active:
  "q \<in> acts R db m \<Longrightarrow> enter_cmd R m q cap now db =
     (RArray [RInt 1, RBulk ''ALREADY_ACTIVE'', RInt (ZCARD R db (ActiveKey m))],
      SADD R ActiveMoviesKey m db)"
  by (simp add: enter_cmd_def enterScript_def key_simps zcard_items)

lemma enter_waits:
  assumes "q \<notin> acts R db m" and "q \<in> waits R db m \<or> cap \<le> ZCARD R db (ActiveKey m)"
  shows "fst (enter_cmd R m q cap now db) =
      RArray [RInt 2, RBulk ''WAITING'',
        RInt (int (zpos (zput (q, now) (ZITEMS R db (WaitingKey m))) q) + 1),
        RInt (int (card (insert q (waits R db m))))]"
  using assms
  by (auto simp: enter_cmd_def enterScript_def Let_def key_simps zcard_card zrank_items)

lemma enter_admits:
  "seats R db m cap q \<Longrightarrow> fst (enter_cmd R m q cap now db) =
     RArray [RInt 1, RBulk ''ADMITTED'', RInt (ZCARD R db (ActiveKey m) + 1)]"
  by (simp add: seats_def enter_cmd_def enterScript_def Let_def key_simps zcard_card)

lemma enter_items:
  "ZITEMS R (snd (enter_cmd R m q cap now db)) (ActiveKey m) =
     (if seats R db m cap q then zput (q, now) (ZITEMS R db (ActiveKey m))
      else ZITEMS R db (ActiveKey m))"
  "ZITEMS R (snd (enter_cmd R m q cap now db)) (WaitingKey m) =
     (if queues R db m cap q then zput (q, now) (ZITEMS R db (WaitingKey m))
      else ZITEMS R db (WaitingKey m))"
  "ZITEMS R (snd (enter_cmd R m q cap now db)) (WaitingLastseenKey m) =
     (if queues R db m cap q then zput (q, now) (ZITEMS R db (WaitingLastseenKey m))
      else ZITEMS R db (WaitingLastseenKey m))"
  "ZITEMS R (snd (enter_cmd R m q cap now db)) (PendingKey m) =
     (if seats R db m cap q then zput (admit_enter q, now) (ZITEMS R db (PendingKey m))
      else ZITEMS R db (PendingKey m))"
  "tracked R (snd (enter_cmd R m q cap now db)) = insert m (tracked R db)"
  by (auto simp: seats_def queues_def enter_cmd_def enterScript_def Let_def key_simps zcard_card
      zrank_items sadd_members)

lemma enter_frame: "k \<notin> queue_keys m \<Longrightarrow> same_at R (snd (enter_cmd R m q cap now db)) db k"
  by (simp add: queue_keys_def same_at_def enter_cmd_def enterScript_def Let_def
      split: option.splits)

subsection \<open>promote\<close>

lemma promote_loop_items:
  "waits R (seat_users R m now us db) m = waits R db m - set us"
  "acts R (seat_users R m now us db) m = acts R db m \<union> set us"
  "lasts R (seat_users R m now us db) m = lasts R db m - set us"
  "pends R (seat_users R m now us db) m = pends R db m \<union> admit_promote ` set us"
  by (induction us arbitrary: db)
    (auto simp: seat_users_def Let_def key_simps)

lemma promote_loop_line:
  "ZITEMS R (seat_users R m now us db) (WaitingKey m) =
     zdel us (ZITEMS R db (WaitingKey m))"
  by (induction us arbitrary: db) (simp_all add: seat_users_def Let_def key_simps)

lemma promote_loop_frame:
  "k \<notin> {WaitingKey m, ActiveKey m, WaitingLastseenKey m, PendingKey m} \<Longrightarrow>
     same_at R (seat_users R m now us db) db k"
  by (induction us arbitrary: db) (simp_all add: seat_users_def Let_def same_at_def)

lemma promote_users_head:
  "promote_users R db m cap batch =
     map fst (take (nat (min batch (cap - ZCARD R db (ActiveKey m)))) (ZITEMS R db (WaitingKey m)))"
  by (auto simp: promote_users_def Let_def zrange_head min_def)

lemma promote_db:
  "snd (promote_cmd R m cap batch now db) =
     (let us = promote_users R db m cap batch in
      if us = [] then db
      else snd (INCRBY R (PromotedCountKey m) (int (length us)) (seat_users R m now us db)))"
  by (auto simp: promote_cmd_def promoteScript_def promote_users_def seat_users_def Let_def
      split: prod.splits option.splits)

lemma promote_reply:
  "fst (promote_cmd R m cap batch now db) = RArray (map RBulk (promote_users R db m cap batch)) \<or>
   (\<exists>e. fst (promote_cmd R m cap batch now db) = RErr e)"
  by (auto simp: promote_cmd_def promoteScript_def promote_users_def Let_def
      split: prod.splits option.splits)

lemma promote_members:
  "acts R (snd (promote_cmd R m cap batch now db)) m =
     acts R db m \<union> set (promote_users R db m cap batch)"
  "waits R (snd (promote_cmd R m cap batch now db)) m =
     waits R db m - set (promote_users R db m cap batch)"
  "lasts R (snd (promote_cmd R m cap batch now db)) m =
     lasts R db m - set (promote_users R db m cap batch)"
  "pends R (snd (promote_cmd R m cap batch now db)) m =
     pends R db m \<union> admit_promote ` set (promote_users R db m cap batch)"
  "tracked R (snd (promote_cmd R m cap batch now db)) = tracked R db"
  using promote_loop_items [of m now "promote_users R db m cap batch" db]
    promote_loop_frame [of ActiveMoviesKey m now "promote_users R db m cap batch" db]
  by (auto simp: promote_db Let_def key_simps same_at_def)

lemma promote_line:
  "ZITEMS R (snd (promote_cmd R m cap batch now db)) (WaitingKey m) =
     drop (length (promote_users R db m cap batch)) (ZITEMS R db (WaitingKey m))"
proof -
  let ?us = "promote_users R db m cap batch" and ?xs = "ZITEMS R db (WaitingKey m)"
  have "zdel ?us ?xs = drop (length ?us) ?xs"
    by (simp add: promote_users_head zdel_take min_def)
  then show ?thesis
    using promote_loop_line [of m now ?us db] by (auto simp: promote_db Let_def key_simps)
qed

lemma promote_frame:
  "k \<notin> queue_keys m \<Longrightarrow> same_at R (snd (promote_cmd R m cap batch now db)) db k"
  using promote_loop_frame [of k m now "promote_users R db m cap batch" db]
    incrby_frame [of k "PromotedCountKey m" "int (length (promote_users R db m cap batch))"
      "seat_users R m now (promote_users R db m cap batch) db"]
  by (auto simp: promote_db Let_def queue_keys_def intro: same_at_trans)

lemma promote_users_card:
  assumes "ZCARD R db (ActiveKey m) \<le> cap"
  shows "int (length (promote_users R db m cap batch)) \<le> cap - ZCARD R db (ActiveKey m)"
  using assms by (simp add: promote_users_head)

lemma promote_users_waiting: "set (promote_users R db m cap batch) \<subseteq> waits R db m"
  by (auto simp: promote_users_head members_def dest: in_set_takeD)

subsection \<open>position\<close>

lemma position_db:
  "snd (position_cmd R m q now db) =
     (if q \<notin> acts R db m \<and> q \<in> waits R db m then ZADD R (WaitingLastseenKey m) now q db else db)"
  by (auto simp: position_cmd_def positionScript_def Let_def zrank_items)

lemma position_members:
  "acts R (snd (position_cmd R m q now db)) m = acts R db m"
  "ZITEMS R (snd (position_cmd R m q now db)) (WaitingKey m) = ZITEMS R db (WaitingKey m)"
  "lasts R (snd (position_cmd R m q now db)) m =
     lasts R db m \<union> (if q \<notin> acts R db m \<and> q \<in> waits R db m then {q} else {})"
  "pends R (snd (position_cmd R m q now db)) m = pends R db m"
  "tracked R (snd (position_cmd R m q now db)) = tracked R db"
  by (simp_all add: position_db key_simps)

lemma position_reply:
  "fst (position_cmd R m q now db) =
     (if q \<in> acts R db m then RArray [RBulk ''ADMITTED'', RInt 0, RInt 0]
      else if q \<in> waits R db m
      then (let p = int (zpos (ZITEMS R db (WaitingKey m)) q) + 1
            in RArray [RBulk ''WAITING'', RInt p, RInt (int (card (waits R db m)) - p)])
      else RArray [RBulk ''EXPIRED'', RInt 0, RInt 0])"
  using zpos_card [OF zitems_wf, of q db "WaitingKey m"]
  by (auto simp: position_cmd_def positionScript_def Let_def zrank_items zcard_card)

subsection \<open>leave, release, complete\<close>

lemma leave_members:
  "acts R (snd (leave_cmd R m q now db)) m = acts R db m - {q}"
  "waits R (snd (leave_cmd R m q now db)) m = waits R db m - {q}"
  "lasts R (snd (leave_cmd R m q now db)) m = lasts R db m - {q}"
  "pends R (snd (leave_cmd R m q now db)) m =
     pends R db m - admits {q} \<union> (if q \<in> acts R db m then {revoke ReasonLeave q} else {})"
  "tracked R (snd (leave_cmd R m q now db)) = tracked R db"
  by (auto simp: leave_cmd_def leaveScript_def Let_def split_beta key_simps admits_def)

lemma leave_reply:
  "fst (leave_cmd R m q now db) =
     RInt ((if q \<in> acts R db m then 1 else 0) + (if q \<in> waits R db m then 2 else 0))"
  by (auto simp: leave_cmd_def leaveScript_def Let_def split_beta key_simps)

lemma leave_frame: "k \<notin> queue_keys m \<Longrightarrow> same_at R (snd (leave_cmd R m q now db)) db k"
  by (simp add: queue_keys_def same_at_def leave_cmd_def leaveScript_def Let_def split_beta)

lemma release_members:
  "acts R (snd (release_cmd R m q reason now db)) m = acts R db m - {q}"
  "waits R (snd (release_cmd R m q reason now db)) m = waits R db m"
  "lasts R (snd (release_cmd R m q reason now db)) m = lasts R db m"
  "pends R (snd (release_cmd R m q reason now db)) m =
     pends R db m - admits {q} \<union> (if q \<in> acts R db m then {revoke reason q} else {})"
  "tracked R (snd (release_cmd R m q reason now db)) = tracked R db"
  by (auto simp: release_cmd_def releaseScript_def Let_def split_beta key_simps admits_def)

lemma release_reply:
  "fst (release_cmd R m q reason now db) = RInt (if q \<in> acts R db m then 1 else 0)"
  by (auto simp: release_cmd_def releaseScript_def Let_def split_beta key_simps)

lemma release_frame:
  "k \<notin> queue_keys m \<Longrightarrow> same_at R (snd (release_cmd R m q reason now db)) db k"
  by (simp add: queue_keys_def same_at_def release_cmd_def releaseScript_def Let_def split_beta)

lemma complete_members:
  "acts R (snd (complete_cmd R m q db)) m = acts R db m - {q}"
  "waits R (snd (complete_cmd R m q db)) m = waits R db m"
  "lasts R (snd (complete_cmd R m q db)) m = lasts R db m"
  "pends R (snd (complete_cmd R m q db)) m = pends R db m - admits {q}"
  "tracked R (snd (complete_cmd R m q db)) = tracked R db"
  "fst (complete_cmd R m q db) = (if q \<in> acts R db m then 1 else 0)"
  by (auto simp: complete_cmd_def split_beta key_simps members_printed admits_def)

lemma complete_frame: "k \<notin> queue_keys m \<Longrightarrow> same_at R (snd (complete_cmd R m q db)) db k"
  by (simp add: queue_keys_def same_at_def complete_cmd_def split_beta)

subsection \<open>timeouts\<close>

lemma expire_loop_pends:
  "pends R (expire_loop R (PendingKey m) now us db) m =
     pends R db m - admits (set us) \<union> revoke ReasonSessionTimeout ` set us"
  by (induction us arbitrary: db) (auto simp: Let_def key_simps admits_def)

lemma expire_loop_frame:
  "k \<noteq> PendingKey m \<Longrightarrow> same_at R (expire_loop R (PendingKey m) now us db) db k"
  by (induction us arbitrary: db) (simp_all add: Let_def same_at_def)

lemma expire_db:
  "snd (expire_cmd R m cutoff now db) =
     (let us = expired_users R db m cutoff in
      if us = [] then db
      else expire_loop R (PendingKey m) now us (snd (ZREM R (ActiveKey m) us db)))"
  by (simp add: expire_cmd_def expireScript_def expired_users_def Let_def)

lemma expire_reply:
  "fst (expire_cmd R m cutoff now db) = RArray (map RBulk (expired_users R db m cutoff))"
  by (simp add: expire_cmd_def expireScript_def expired_users_def Let_def)

lemma expired_users_active: "set (expired_users R db m cutoff) \<subseteq> acts R db m"
  by (simp add: expired_users_def zrangebyscore_members)

lemma expire_members:
  "acts R (snd (expire_cmd R m cutoff now db)) m =
     acts R db m - set (expired_users R db m cutoff)"
  "waits R (snd (expire_cmd R m cutoff now db)) m = waits R db m"
  "lasts R (snd (expire_cmd R m cutoff now db)) m = lasts R db m"
  "pends R (snd (expire_cmd R m cutoff now db)) m =
     pends R db m - admits (set (expired_users R db m cutoff))
       \<union> revoke ReasonSessionTimeout ` set (expired_users R db m cutoff)"
  "tracked R (snd (expire_cmd R m cutoff now db)) = tracked R db"
  using expire_loop_frame [of _ m now "expired_users R db m cutoff"
      "snd (ZREM R (ActiveKey m) (expired_users R db m cutoff) db)"]
  by (auto simp: expire_db Let_def key_simps expire_loop_pends [unfolded key_simps] same_at_def)

lemma timeout_frame: "k \<notin> queue_keys m \<Longrightarrow> same_at R (snd (expire_cmd R m cutoff now db)) db k"
  using expire_loop_frame [of k m now "expired_users R db m cutoff"
      "snd (ZREM R (ActiveKey m) (expired_users R db m cutoff) db)"]
    zrem_frame [of k "ActiveKey m" "expired_users R db m cutoff" db]
  by (auto simp: expire_db Let_def queue_keys_def intro: same_at_trans)

lemma stale_users_lasts: "set (stale_users R db m cutoff) \<subseteq> lasts R db m"
  by (simp add: stale_users_def zrangebyscore_members)

lemma waiting_expire_members:
  "acts R (snd (waiting_expire_cmd R m cutoff db)) m = acts R db m"
  "waits R (snd (waiting_expire_cmd R m cutoff db)) m =
     waits R db m - set (stale_users R db m cutoff)"
  "lasts R (snd (waiting_expire_cmd R m cutoff db)) m =
     lasts R db m - set (stale_users R db m cutoff)"
  "pends R (snd (waiting_expire_cmd R m cutoff db)) m = pends R db m"
  "tracked R (snd (waiting_expire_cmd R m cutoff db)) = tracked R db"
  "fst (waiting_expire_cmd R m cutoff db) = RArray (map RBulk (stale_users R db m cutoff))"
  by (auto simp: waiting_expire_cmd_def waitingExpireScript_def stale_users_def Let_def key_simps)

lemma waiting_expire_frame:
  "k \<notin> queue_keys m \<Longrightarrow> same_at R (snd (waiting_expire_cmd R m cutoff db)) db k"
  by (simp add: queue_keys_def same_at_def waiting_expire_cmd_def waitingExpireScript_def Let_def)

subsection \<open>tracking\<close>

lemma untrack_db:
  "snd (untrack_cmd R m db) =
     (if idle R db m then SREM R WaitingMoviesKey m (SREM R ActiveMoviesKey m db) else db)"
  by (simp add: untrack_cmd_def untrackScript_def idle_def Let_def zcard_0_iff)

lemma untrack_members:
  "acts R (snd (untrack_cmd R m db)) m' = acts R db m'"
  "waits R (snd (untrack_cmd R m db)) m' = waits R db m'"
  "lasts R (snd (untrack_cmd R m db)) m' = lasts R db m'"
  "pends R (snd (untrack_cmd R m db)) m' = pends R db m'"
  "tracked R (snd (untrack_cmd R m db)) = tracked R db - (if idle R db m then {m} else {})"
  by (simp_all add: untrack_db key_simps srem_members)

lemma untrack_frame: "k \<notin> queue_keys m \<Longrightarrow> same_at R (snd (untrack_cmd R m db)) db k"
  by (simp add: queue_keys_def same_at_def untrack_db)
end

end
