(* ===== verification/Invariant.thy ===== *)
theory Invariant
  imports QueueState
begin

section \<open>The invariant of a queue\<close>

text \<open>
  What the scripts keep true of every movie, whichever pods run them and in whatever order:
  never more seats than the capacity; nobody both seated and waiting; the waiting list and the
  list of last polls hold the same visitors; an admission waits to be published only for a
  visitor who is seated; a movie with anything in it is visited by the loops. The keys of the
  queues carry no time to live, so the passing of time takes nothing away from them.
\<close>

definition queue_ok :: "'db redis \<Rightarrow> int \<Rightarrow> 'db \<Rightarrow> string \<Rightarrow> bool" where
  "queue_ok R cap db m \<longleftrightarrow>
     int (card (acts R db m)) \<le> cap \<and>
     acts R db m \<inter> waits R db m = {} \<and>
     lasts R db m = waits R db m \<and>
     (\<forall>q. admit_enter q \<in> pends R db m \<or> admit_promote q \<in> pends R db m \<longrightarrow> q \<in> acts R db m)"

text \<open>A movie with anything in it is in the set the loops read.\<close>

definition visited :: "'db redis \<Rightarrow> 'db \<Rightarrow> string \<Rightarrow> bool" where
  "visited R db m \<longleftrightarrow> idle R db m \<or> m \<in> tracked R db"

definition no_ttl :: "'db redis \<Rightarrow> 'db \<Rightarrow> bool" where
  "no_ttl R db \<longleftrightarrow> (\<forall>m. \<forall>k\<in>queue_keys m. PTTL R db k = None)"

definition safe :: "'db redis \<Rightarrow> int \<Rightarrow> 'db \<Rightarrow> bool" where
  "safe R cap db \<longleftrightarrow> (\<forall>m. queue_ok R cap db m) \<and> no_ttl R db"

definition all_visited :: "'db redis \<Rightarrow> 'db \<Rightarrow> bool" where
  "all_visited R db \<longleftrightarrow> (\<forall>m. visited R db m)"

definition fresh :: "'db redis \<Rightarrow> 'db \<Rightarrow> bool" where
  "fresh R db \<longleftrightarrow> (\<forall>k. gone_at R db k)"

lemma queue_okD:
  assumes "queue_ok R cap db m"
  shows "int (card (acts R db m)) \<le> cap" and "acts R db m \<inter> waits R db m = {}"
    and "lasts R db m = waits R db m"
    and "admit_enter q \<in> pends R db m \<Longrightarrow> q \<in> acts R db m"
    and "admit_promote q \<in> pends R db m \<Longrightarrow> q \<in> acts R db m"
  using assms by (auto simp: queue_ok_def)

lemma fresh_inv: "fresh R db \<Longrightarrow> 0 \<le> cap \<Longrightarrow> safe R cap db \<and> all_visited R db"
  by (simp add: fresh_def gone_at_def safe_def queue_ok_def idle_def no_ttl_def all_visited_def
      visited_def)

context redis_service
begin

subsection \<open>Time to live\<close>

lemma no_ttl_writes [simp]:
  assumes "PTTL R db k' = None"
  shows "PTTL R (ZADD R k s m db) k' = None" and "PTTL R (snd (ZREM R k ms db)) k' = None"
    and "PTTL R (SADD R k v db) k' = None" and "PTTL R (SREM R k v db) k' = None"
    and "PTTL R (snd (INCRBY R k d db)) k' = None" and "PTTL R (DEL R ks db) k' = None"
  using no_ttl_kept [OF assms] pttl_frame [of k' k] del_frame [of k' ks db] assms
  by (cases "k' = k"; auto simp: same_at_def)+

lemma loops_no_ttl:
  "PTTL R db k = None \<Longrightarrow> PTTL R (promote_loop R wk ak lk pk now us db) k = None"
  "PTTL R db k = None \<Longrightarrow> PTTL R (expire_loop R pk now us db) k = None"
  by (induction us arbitrary: db) (simp_all add: Let_def)

lemma scripts_no_ttl:
  assumes "PTTL R db k = None"
  shows "PTTL R (snd (enter_cmd R m q cap now db)) k = None"
    and "PTTL R (snd (promote_cmd R m cap batch now db)) k = None"
    and "PTTL R (snd (position_cmd R m q now db)) k = None"
    and "PTTL R (snd (leave_cmd R m q now db)) k = None"
    and "PTTL R (snd (release_cmd R m q reason now db)) k = None"
    and "PTTL R (snd (complete_cmd R m q db)) k = None"
    and "PTTL R (snd (expire_cmd R m cutoff now db)) k = None"
    and "PTTL R (snd (waiting_expire_cmd R m cutoff db)) k = None"
    and "PTTL R (snd (untrack_cmd R m db)) k = None"
  using assms
  by (auto simp: enter_cmd_def enterScript_def promote_db seat_users_def loops_no_ttl position_db
      leave_cmd_def leaveScript_def release_cmd_def releaseScript_def complete_cmd_def expire_db
      waiting_expire_cmd_def waitingExpireScript_def untrack_db Let_def split_beta
      split: option.splits)

subsection \<open>One movie\<close>

lemma card_union_le: "card (A \<union> set us) \<le> card A + length us"
  by (meson add_left_mono card_Un_le card_length le_trans)

lemma enter_ok: "queue_ok R cap db m \<Longrightarrow> queue_ok R cap (snd (enter_cmd R m q cap now db)) m"
  by (auto simp: queue_ok_def enter_items seats_def queues_def zcard_card card_insert_if)

lemma promote_ok:
  assumes "queue_ok R cap db m"
  shows "queue_ok R cap (snd (promote_cmd R m cap batch now db)) m"
proof -
  let ?us = "promote_users R db m cap batch"
  have c: "int (length ?us) \<le> cap - int (card (acts R db m))"
    using promote_users_card [of db m cap batch] queue_okD(1) [OF assms] by (simp add: zcard_card)
  then have "int (card (acts R db m \<union> set ?us)) \<le> cap"
    using card_union_le [of "acts R db m" ?us] by linarith
  with assms promote_users_waiting [of db m cap batch] show ?thesis
    by (auto simp: queue_ok_def promote_members)
qed

lemma position_ok: "queue_ok R cap db m \<Longrightarrow> queue_ok R cap (snd (position_cmd R m q now db)) m"
  by (auto simp: queue_ok_def position_db key_simps)

lemma card_minus_le:
  assumes "int (card A) \<le> cap" and "finite A"
  shows "int (card (A - B)) \<le> cap"
proof -
  have "card (A - B) \<le> card A" by (rule card_mono) (use assms in auto)
  with assms show ?thesis by linarith
qed

lemma leave_ok: "queue_ok R cap db m \<Longrightarrow> queue_ok R cap (snd (leave_cmd R m q now db)) m"
  by (auto simp: queue_ok_def leave_members card_minus_le)

lemma release_ok:
  "queue_ok R cap db m \<Longrightarrow> queue_ok R cap (snd (release_cmd R m q reason now db)) m"
  by (auto simp: queue_ok_def release_members card_minus_le)

lemma complete_ok: "queue_ok R cap db m \<Longrightarrow> queue_ok R cap (snd (complete_cmd R m q db)) m"
  by (auto simp: queue_ok_def complete_members card_minus_le)

lemma expire_ok: "queue_ok R cap db m \<Longrightarrow> queue_ok R cap (snd (expire_cmd R m cutoff now db)) m"
  using expired_users_active [of db m cutoff]
  by (auto simp: queue_ok_def expire_members card_minus_le)

lemma waiting_expire_ok:
  "queue_ok R cap db m \<Longrightarrow> queue_ok R cap (snd (waiting_expire_cmd R m cutoff db)) m"
  by (auto simp: queue_ok_def waiting_expire_members)

lemma clear_ok: "queue_ok R cap db m \<Longrightarrow> queue_ok R cap (snd (ZREM R (PendingKey m) ms db)) m"
  by (auto simp: queue_ok_def key_simps)

lemma untrack_ok: "queue_ok R cap db m \<Longrightarrow> queue_ok R cap (snd (untrack_cmd R m db)) m"
  by (auto simp: queue_ok_def untrack_members)


subsection \<open>The other movies\<close>

definition others_same :: "string \<Rightarrow> 'db \<Rightarrow> 'db \<Rightarrow> bool" where
  "others_same m db' db \<longleftrightarrow> (\<forall>m'. m' \<noteq> m \<longrightarrow>
     ZITEMS R db' (ActiveKey m') = ZITEMS R db (ActiveKey m') \<and>
     ZITEMS R db' (WaitingKey m') = ZITEMS R db (WaitingKey m') \<and>
     ZITEMS R db' (WaitingLastseenKey m') = ZITEMS R db (WaitingLastseenKey m') \<and>
     ZITEMS R db' (PendingKey m') = ZITEMS R db (PendingKey m'))"

lemma inv_step:
  assumes "safe R cap db" and "queue_ok R cap db' m" and same: "others_same m db' db"
    and ttl: "\<And>k. PTTL R db k = None \<Longrightarrow> PTTL R db' k = None"
  shows "safe R cap db'"
proof -
  have "queue_ok R cap db' m'" for m'
  proof (cases "m' = m")
    case False
    with assms(1) same show ?thesis by (auto simp: safe_def queue_ok_def others_same_def)
  qed (use assms(2) in simp)
  then show ?thesis using assms(1) ttl by (auto simp: safe_def no_ttl_def)
qed

text \<open>Commands that touch none of the queues' keys, among them the passing of time.\<close>

definition queues_same :: "'db \<Rightarrow> 'db \<Rightarrow> bool" where
  "queues_same db' db \<longleftrightarrow> (\<forall>m. \<forall>k\<in>queue_keys m. same_at R db' db k)"

lemma queues_sameD:
  assumes "queues_same db' db"
  shows "ZITEMS R db' (ActiveKey m) = ZITEMS R db (ActiveKey m)"
    and "ZITEMS R db' (WaitingKey m) = ZITEMS R db (WaitingKey m)"
    and "ZITEMS R db' (WaitingLastseenKey m) = ZITEMS R db (WaitingLastseenKey m)"
    and "ZITEMS R db' (PendingKey m) = ZITEMS R db (PendingKey m)"
    and "tracked R db' = tracked R db"
  using assms by (auto simp: queues_same_def queue_keys_def same_at_def)

lemma queues_same_inv: "queues_same db' db \<Longrightarrow> safe R cap db \<Longrightarrow> safe R cap db'"
proof -
  assume same: "queues_same db' db" and safe: "safe R cap db"
  from safe have "queue_ok R cap db' m" for m
    by (simp add: safe_def queue_ok_def queues_sameD [OF same])
  moreover have "no_ttl R db'"
    using safe same by (auto simp: safe_def no_ttl_def queues_same_def same_at_def)
  ultimately show ?thesis by (simp add: safe_def)
qed

lemma queues_same_visited: "queues_same db' db \<Longrightarrow> all_visited R db' \<longleftrightarrow> all_visited R db"
  by (simp add: all_visited_def visited_def idle_def queues_sameD)

lemma elapse_queues_same: "no_ttl R db \<Longrightarrow> queues_same (ELAPSE R d db) db"
  by (simp add: queues_same_def no_ttl_def elapse_live)

subsection \<open>Movies with anything in them are visited\<close>

lemma visited_step:
  assumes "all_visited R db" and "visited R db' m"
    and same: "others_same m db' db" and "tracked R db - {m} \<subseteq> tracked R db'"
  shows "all_visited R db'"
proof -
  have "visited R db' m'" for m'
  proof (cases "m' = m")
    case False
    with assms(1,4) same show ?thesis
      by (auto simp: all_visited_def visited_def idle_def others_same_def)
  qed (use assms(2) in simp)
  then show ?thesis by (simp add: all_visited_def)
qed

lemma enter_visited: "visited R (snd (enter_cmd R m q cap now db)) m"
  by (simp add: visited_def enter_items)

lemma promote_visited: "visited R db m \<Longrightarrow> visited R (snd (promote_cmd R m cap batch now db)) m"
  using promote_users_waiting [of db m cap batch]
  by (auto simp: visited_def idle_def promote_members)

lemma position_visited: "visited R db m \<Longrightarrow> visited R (snd (position_cmd R m q now db)) m"
  by (auto simp: visited_def idle_def position_db key_simps)

lemma leave_visited: "visited R db m \<Longrightarrow> visited R (snd (leave_cmd R m q now db)) m"
  by (auto simp: visited_def idle_def leave_members simp del: members_empty_iff)

lemma release_visited: "visited R db m \<Longrightarrow> visited R (snd (release_cmd R m q reason now db)) m"
  by (auto simp: visited_def idle_def release_members simp del: members_empty_iff)

lemma complete_visited: "visited R db m \<Longrightarrow> visited R (snd (complete_cmd R m q db)) m"
  by (auto simp: visited_def idle_def complete_members simp del: members_empty_iff)

lemma expire_visited: "visited R db m \<Longrightarrow> visited R (snd (expire_cmd R m cutoff now db)) m"
  using expired_users_active [of db m cutoff]
  by (auto simp: visited_def idle_def expire_members simp del: members_empty_iff)

lemma waiting_expire_visited:
  "visited R db m \<Longrightarrow> visited R (snd (waiting_expire_cmd R m cutoff db)) m"
  by (auto simp: visited_def idle_def waiting_expire_members simp del: members_empty_iff)

lemma untrack_visited: "visited R (snd (untrack_cmd R m db)) m \<longleftrightarrow> visited R db m"
  by (auto simp: visited_def untrack_members idle_def)

end

end
