(* ===== verification/Json.thy ===== *)
theory Json
  imports GoStd
begin

section \<open>encoding/json on strings\<close>

text \<open>
  What \<open>json.Marshal\<close> writes for a Go string and what \<open>json.Unmarshal\<close> reads for it. A Go string is
  a sequence of bytes, read as UTF-8: \<open>runes\<close> cuts it where \<open>utf8.DecodeRune\<close> does, a byte that
  starts no valid encoding being a piece of its own. Such a byte becomes U+FFFD, so what comes
  back is \<open>to_valid\<close> of what went in (\<open>json_read_string\<close>), which is the string itself if it is valid
  UTF-8.
\<close>

definition quote :: char where "quote = char_of (34::nat)"
definition backslash :: char where "backslash = char_of (92::nat)"

lemma quote_not_backslash [simp]: "quote \<noteq> backslash" "backslash \<noteq> quote"
  by (simp_all add: quote_def backslash_def)

abbreviation byte :: "char \<Rightarrow> nat" where
  "byte c \<equiv> of_char c"

subsection \<open>UTF-8\<close>

definition continues :: "char \<Rightarrow> bool" where
  "continues c \<longleftrightarrow> 128 \<le> byte c \<and> byte c \<le> 191"

text \<open>The number of bytes of the encoding at the front of a string, 0 if there is none: the table of
  \<open>utf8.DecodeRune\<close>, without overlong forms, surrogates and numbers above U+10FFFF.\<close>

definition second_ok :: "nat \<Rightarrow> char \<Rightarrow> bool" where
  "second_ok n c \<longleftrightarrow> continues c \<and> (n = 224 \<longrightarrow> 160 \<le> byte c) \<and> (n = 237 \<longrightarrow> byte c \<le> 159) \<and>
     (n = 240 \<longrightarrow> 144 \<le> byte c) \<and> (n = 244 \<longrightarrow> byte c \<le> 143)"

fun utf8_len :: "string \<Rightarrow> nat" where
  "utf8_len [] = 0"
| "utf8_len (a # r) =
     (let n = byte a in
      if n < 128 then 1
      else if n < 194 then 0
      else if n < 224 then (case r of b # _ \<Rightarrow> if continues b then 2 else 0 | _ \<Rightarrow> 0)
      else if n < 240 then
        (case r of b # c # _ \<Rightarrow> if second_ok n b \<and> continues c then 3 else 0 | _ \<Rightarrow> 0)
      else if n < 245 then
        (case r of
           b # c # d # _ \<Rightarrow> if second_ok n b \<and> continues c \<and> continues d then 4 else 0 | _ \<Rightarrow> 0)
      else 0)"

definition rune_len :: "string \<Rightarrow> nat" where
  "rune_len s = max 1 (utf8_len s)"

function runes :: "string \<Rightarrow> string list" where
  "runes [] = []"
| "runes (a # r) = take (rune_len (a # r)) (a # r) # runes (drop (rune_len (a # r)) (a # r))"
  by pat_completeness auto
termination
  by (relation "measure length") (auto simp: rune_len_def max_def)

definition rune_error :: string where
  "rune_error = [CHR 0xEF, CHR 0xBF, CHR 0xBD]"

definition utf8_of :: "nat \<Rightarrow> string" where
  "utf8_of n =
     (if n < 128 then [char_of n]
      else if n < 2048 then [char_of (192 + n div 64), char_of (128 + n mod 64)]
      else if 55296 \<le> n \<and> n < 57344 \<or> 1114112 \<le> n
      then rune_error
      else if n < 65536
      then [char_of (224 + n div 4096), char_of (128 + n div 64 mod 64), char_of (128 + n mod 64)]
      else [char_of (240 + n div 262144), char_of (128 + n div 4096 mod 64), char_of (128 + n div 64 mod 64),
            char_of (128 + n mod 64)])"

definition valid_rune :: "string \<Rightarrow> string" where
  "valid_rune x = (if utf8_len x = 0 then rune_error else x)"

definition to_valid :: "string \<Rightarrow> string" where
  "to_valid s = concat (map valid_rune (runes s))"

definition valid_utf8 :: "string \<Rightarrow> bool" where
  "valid_utf8 s \<longleftrightarrow> list_all (\<lambda>x. utf8_len x \<noteq> 0) (runes s)"

lemma utf8_len_le: "utf8_len s \<le> length s"
  by (cases s) (auto simp: Let_def split: list.splits)

lemma utf8_len_append: "utf8_len x \<noteq> 0 \<Longrightarrow> utf8_len (x @ t) = utf8_len x"
  by (cases x) (auto simp: Let_def split: list.splits if_splits)

lemma utf8_len_take: "utf8_len (take (utf8_len s) s) = utf8_len s"
  by (cases s) (auto simp: Let_def split: list.splits)

lemma utf8_len_one: "128 \<le> byte a \<Longrightarrow> utf8_len [a] = 0"
  by (simp add: Let_def)

text \<open>A piece is a whole encoding or a single byte that starts none.\<close>

definition piece :: "string \<Rightarrow> bool" where
  "piece x \<longleftrightarrow> x \<noteq> [] \<and> (utf8_len x = length x \<or> (\<exists>a. x = [a] \<and> 128 \<le> byte a))"

lemma runes_pieces: "x \<in> set (runes s) \<Longrightarrow> piece x"
proof (induction s rule: runes.induct)
  case (2 a r)
  have "piece (take (rune_len (a # r)) (a # r))"
  proof (cases "utf8_len (a # r) = 0")
    case True
    then have "128 \<le> byte a" by (simp add: Let_def split: if_splits)
    with True show ?thesis by (simp add: piece_def rune_len_def)
  next
    case False
    then have "rune_len (a # r) = utf8_len (a # r)" by (simp add: rune_len_def max_def)
    with False utf8_len_take [of "a # r"] utf8_len_le [of "a # r"] show ?thesis
      by (simp add: piece_def)
  qed
  with 2 show ?case by auto
qed simp

lemma concat_runes: "concat (runes s) = s"
  by (induction s rule: runes.induct) simp_all

lemma to_valid_id: "valid_utf8 s \<Longrightarrow> to_valid s = s"
proof -
  assume "valid_utf8 s"
  then have "map valid_rune (runes s) = runes s"
    by (intro map_idI) (auto simp: valid_utf8_def list_all_iff valid_rune_def)
  then show ?thesis by (simp add: to_valid_def concat_runes)
qed

lemma ascii_runes: "list_all (\<lambda>a. byte a < 128) s \<Longrightarrow> runes s = map (\<lambda>a. [a]) s"
  by (induction s) (simp_all add: rune_len_def Let_def)

lemma ascii_valid: "list_all (\<lambda>a. byte a < 128) s \<Longrightarrow> valid_utf8 s"
  by (simp add: valid_utf8_def ascii_runes list_all_iff Let_def)

subsection \<open>Marshal\<close>

definition hex_digit :: "nat \<Rightarrow> char" where
  "hex_digit d = char_of (if d < 10 then 48 + d else 87 + d)"

text \<open>The escapes of bytes below 128: quotes, backslash, control characters, and the three characters
  \<open>json.Marshal\<close> hides from HTML.\<close>

definition json_esc :: "char \<Rightarrow> string" where
  "json_esc c =
     (let n = byte c in
      if n = 34 \<or> n = 92 then [backslash, c]
      else if n = 8 then [backslash, CHR ''b'']
      else if n = 12 then [backslash, CHR ''f'']
      else if n = 10 then [backslash, CHR ''n'']
      else if n = 13 then [backslash, CHR ''r'']
      else if n = 9 then [backslash, CHR ''t'']
      else if n < 32 \<or> n = 60 \<or> n = 62 \<or> n = 38
      then backslash # ''u00'' @ [hex_digit (n div 16), hex_digit (n mod 16)]
      else [c])"

text \<open>A piece: U+2028 and U+2029 are escaped for JavaScript.\<close>

definition line_separator :: string where
  "line_separator = [CHR 0xE2, CHR 0x80, CHR 0xA8]"

definition paragraph_separator :: string where
  "paragraph_separator = [CHR 0xE2, CHR 0x80, CHR 0xA9]"

definition json_rune :: "string \<Rightarrow> string" where
  "json_rune x =
     (if utf8_len x = 0 then backslash # ''ufffd''
      else if x = line_separator then backslash # ''u2028''
      else if x = paragraph_separator then backslash # ''u2029''
      else if length x = 1 then json_esc (hd x)
      else x)"

definition json_string :: "string \<Rightarrow> string" where
  "json_string s = quote # concat (map json_rune (runes s)) @ [quote]"

definition json_key :: "string \<Rightarrow> string" where
  "json_key k = quote # k @ [quote, CHR '':'']"

subsection \<open>Unmarshal\<close>

definition hex_val :: "char \<Rightarrow> nat option" where
  "hex_val c =
     (let n = byte c in
      if 48 \<le> n \<and> n \<le> 57 then Some (n - 48)
      else if 97 \<le> n \<and> n \<le> 102 then Some (n - 87)
      else if 65 \<le> n \<and> n \<le> 70 then Some (n - 55) else None)"

fun hex4 :: "string \<Rightarrow> (nat \<times> string) option" where
  "hex4 (a # b # c # d # r) =
     (case (hex_val a, hex_val b, hex_val c, hex_val d) of
        (Some i, Some j, Some k, Some l) \<Rightarrow> Some (((i * 16 + j) * 16 + k) * 16 + l, r)
      | _ \<Rightarrow> None)"
| "hex4 _ = None"

text \<open>After the number of a \<open>u\<close> escape: a surrogate counts only together with the other half, in a
  second escape.\<close>

definition unicode_escape :: "nat \<Rightarrow> string \<Rightarrow> string \<times> string" where
  "unicode_escape n r =
     (if 55296 \<le> n \<and> n < 57344 then
        (case r of
           x # y # r1 \<Rightarrow>
             (if x = backslash \<and> y = CHR ''u'' then
                (case hex4 r1 of
                   Some (k, r2) \<Rightarrow>
                     if n < 56320 \<and> 56320 \<le> k \<and> k < 57344
                     then (utf8_of (65536 + (n - 55296) * 1024 + (k - 56320)), r2)
                     else (rune_error, r)
                 | None \<Rightarrow> (rune_error, r))
              else (rune_error, r))
         | _ \<Rightarrow> (rune_error, r))
      else (utf8_of n, r))"

definition unesc :: "char \<Rightarrow> char option" where
  "unesc c =
     (if c = quote \<or> c = backslash \<or> c = CHR ''/'' then Some c
      else if c = CHR ''b'' then Some (char_of (8::nat)) else if c = CHR ''f'' then Some (char_of (12::nat))
      else if c = CHR ''n'' then Some (char_of (10::nat)) else if c = CHR ''r'' then Some (char_of (13::nat))
      else if c = CHR ''t'' then Some (char_of (9::nat)) else None)"

text \<open>One step inside a string: the bytes it gives and what is left; None is a syntax error.\<close>

definition json_step :: "string \<Rightarrow> (string \<times> string) option" where
  "json_step s =
     (case s of
        [] \<Rightarrow> None
      | c # r \<Rightarrow>
          if c = backslash then
            (case r of
               [] \<Rightarrow> None
             | x # r1 \<Rightarrow>
                 if x = CHR ''u'' then map_option (\<lambda>(n, r2). unicode_escape n r2) (hex4 r1)
                 else map_option (\<lambda>y. ([y], r1)) (unesc x))
          else if byte c < 32 then None
          else Some (valid_rune (take (rune_len s) s), drop (rune_len s) s))"

lemma hex4_shorter: "hex4 s = Some (n, r) \<Longrightarrow> length r < length s"
  by (induction s rule: hex4.induct) (auto split: option.splits)

lemma unicode_escape_shorter: "length (snd (unicode_escape n r)) \<le> length r"
  by (auto simp: unicode_escape_def split: list.splits option.splits dest!: hex4_shorter)

lemma json_step_shorter:
  assumes "json_step s = Some (e, r)"
  shows "length r < length s"
proof (cases s)
  case (Cons c t)
  show ?thesis
  proof (cases "c = backslash")
    case True
    with assms Cons obtain x u where t: "t = x # u" by (cases t) (auto simp: json_step_def)
    show ?thesis
    proof (cases "x = CHR ''u''")
      case True
      with assms Cons t \<open>c = backslash\<close> obtain n v where "hex4 u = Some (n, v)" "unicode_escape n v = (e, r)"
        by (auto simp: json_step_def)
      with hex4_shorter [of u n v] unicode_escape_shorter [of n v] Cons t show ?thesis by simp
    qed (use assms Cons t \<open>c = backslash\<close> in \<open>auto simp: json_step_def\<close>)
  qed (use assms Cons in \<open>auto simp: json_step_def rune_len_def max_def split: if_splits\<close>)
qed (use assms in \<open>simp add: json_step_def\<close>)

function json_chars :: "string \<Rightarrow> (string \<times> string) option" where
  "json_chars s =
     (case s of
        [] \<Rightarrow> None
      | c # t \<Rightarrow>
          if c = quote then Some ([], t)
          else
            (case json_step s of
               None \<Rightarrow> None
             | Some (e, r) \<Rightarrow> map_option (\<lambda>(s, u). (e @ s, u)) (json_chars r)))"
  by pat_completeness auto
termination
  by (relation "measure length") (auto dest: json_step_shorter)

declare json_chars.simps [simp del]

subsection \<open>Reading what was written\<close>

lemma hex_digit_val: "d < 16 \<Longrightarrow> hex_val (hex_digit d) = Some d"
  by (auto simp: hex_val_def hex_digit_def Let_def of_char_of)

lemma hex_letters:
  "hex_val (CHR ''0'') = Some 0" "hex_val (CHR ''2'') = Some 2" "hex_val (CHR ''8'') = Some 8"
  "hex_val (CHR ''9'') = Some 9" "hex_val (CHR ''d'') = Some 13" "hex_val (CHR ''f'') = Some 15"
  by (simp_all add: hex_val_def)

lemma char_literals:
  "char_of (34::nat) = CHR 0x22" "char_of (92::nat) = CHR 0x5C" "char_of (10::nat) = CHR 0x0A"
  "char_of (13::nat) = CHR 0x0D" "char_of (9::nat) = CHR 0x09" "char_of (8::nat) = CHR 0x08"
  "char_of (12::nat) = CHR 0x0C"
  by code_simp+

lemma char_bytes:
  "char_of (226::nat) = CHR 0xE2" "char_of (128::nat) = CHR 0x80" "char_of (168::nat) = CHR 0xA8"
  "char_of (169::nat) = CHR 0xA9" "char_of (239::nat) = CHR 0xEF" "char_of (191::nat) = CHR 0xBF"
  "char_of (189::nat) = CHR 0xBD"
  by code_simp+

lemma utf8_separators:
  "utf8_of 8232 = line_separator" "utf8_of 8233 = paragraph_separator" "utf8_of 65533 = rune_error"
  by (simp_all add: utf8_of_def line_separator_def paragraph_separator_def rune_error_def char_bytes)

lemma json_step_esc:
  assumes "byte c < 128"
  shows "json_esc c \<noteq> [] \<and> hd (json_esc c) \<noteq> quote \<and> json_step (json_esc c @ r) = Some ([c], r)"
proof -
  define n where "n = byte c"
  have c: "c = char_of n" and n: "n < 128" using assms by (simp_all add: n_def)
  consider "n \<in> {34, 92, 10, 13, 9, 8, 12}"
    | "n \<notin> {34, 92, 10, 13, 9, 8, 12}" "n < 32 \<or> n = 60 \<or> n = 62 \<or> n = 38"
    | "n \<notin> {34, 92}" "\<not> n < 32" "n \<noteq> 60" "n \<noteq> 62" "n \<noteq> 38" by auto
  then show ?thesis
  proof cases
    case 1
    then show ?thesis
      by (elim insertE emptyE) (simp_all add: c json_esc_def json_step_def unesc_def Let_def quote_def backslash_def
          char_literals)
  next
    case 2
    then have "json_esc c = backslash # ''u00'' @ [hex_digit (n div 16), hex_digit (n mod 16)]"
      by (auto simp: json_esc_def Let_def n_def [symmetric])
    then show ?thesis
      using n by (simp add: json_step_def hex_letters hex_digit_val unicode_escape_def utf8_of_def c)
  next
    case 3
    then have "c \<noteq> quote" "c \<noteq> backslash"
      using n by (auto simp: c quote_def backslash_def)
    with 3 n show ?thesis
      by (simp add: json_esc_def Let_def n_def [symmetric] json_step_def rune_len_def valid_rune_def)
  qed
qed

text \<open>A piece that is copied is read back whole, as its first byte is neither a quote nor a backslash.\<close>

lemma json_step_copy:
  assumes "utf8_len x = length x" and "2 \<le> length x"
  shows "hd x \<noteq> quote \<and> json_step (x @ r) = Some (x, r)"
proof -
  obtain c t where x: "x = c # t" using assms(2) by (cases x) auto
  with assms have "128 \<le> byte c" by (auto simp: Let_def split: if_splits)
  then have "c \<noteq> quote" "c \<noteq> backslash" "\<not> byte c < 32" by (auto simp: quote_def backslash_def)
  moreover have l: "utf8_len x \<noteq> 0" using assms by linarith
  moreover have "rune_len (x @ r) = length x"
    using assms utf8_len_append [OF l, of r] by (simp add: rune_len_def del: utf8_len.simps)
  ultimately show ?thesis by (simp add: json_step_def x valid_rune_def)
qed

lemma json_step_rune:
  assumes "piece x"
  shows "json_rune x \<noteq> [] \<and> hd (json_rune x) \<noteq> quote \<and>
    json_step (json_rune x @ r) = Some (valid_rune x, r)"
proof -
  have u: "unicode_escape 65533 r = (rune_error, r)" "unicode_escape 8232 r = (line_separator, r)"
    "unicode_escape 8233 r = (paragraph_separator, r)"
    by (simp_all add: unicode_escape_def utf8_separators)
  have seps: "utf8_len (line_separator) = 3" "utf8_len (paragraph_separator) = 3"
    by (simp_all add: line_separator_def paragraph_separator_def continues_def second_ok_def)
  consider "utf8_len x = 0" | "x = line_separator \<or> x = paragraph_separator"
    | a where "x = [a]" "byte a < 128" "utf8_len x \<noteq> 0" "x \<noteq> line_separator" "x \<noteq> paragraph_separator"
    | "utf8_len x = length x" "2 \<le> length x" "x \<noteq> line_separator" "x \<noteq> paragraph_separator"
  proof -
    show thesis if h: "utf8_len x = 0 \<Longrightarrow> thesis" "x = line_separator \<or> x = paragraph_separator \<Longrightarrow> thesis"
      "\<And>a. x = [a] \<Longrightarrow> byte a < 128 \<Longrightarrow> utf8_len x \<noteq> 0 \<Longrightarrow> x \<noteq> line_separator \<Longrightarrow> x \<noteq> paragraph_separator \<Longrightarrow> thesis"
      "utf8_len x = length x \<Longrightarrow> 2 \<le> length x \<Longrightarrow> x \<noteq> line_separator \<Longrightarrow> x \<noteq> paragraph_separator \<Longrightarrow> thesis"
    proof (cases "utf8_len x = 0 \<or> x = line_separator \<or> x = paragraph_separator")
      case False
      then have l: "utf8_len x = length x" "x \<noteq> []"
        using assms utf8_len_one by (auto simp: piece_def)
      show thesis
      proof (cases x)
        case (Cons a t)
        show thesis
        proof (cases t)
          case Nil
          with Cons l have "byte a < 128" using utf8_len_one [of a] by fastforce
          with h(3) [of a] False Cons Nil show thesis by simp
        next
          case (Cons b u)
          with h(4) l False \<open>x = a # t\<close> show thesis by simp
        qed
      qed (use l in simp)
    qed (use h in blast)
  qed
  then show ?thesis
  proof cases
    case 1
    then show ?thesis by (simp add: json_rune_def json_step_def hex_letters u valid_rune_def)
  next
    case 2
    then show ?thesis
      by (elim disjE) (simp_all add: json_rune_def json_step_def hex_letters u valid_rune_def seps)
  next
    case 3
    then show ?thesis using json_step_esc [of a r] by (simp add: json_rune_def valid_rune_def)
  next
    case 4
    then have "json_rune x = x" "valid_rune x = x" by (auto simp: json_rune_def valid_rune_def)
    with 4 json_step_copy [of x r] show ?thesis by auto
  qed
qed

lemma json_chars_runes:
  "list_all piece xs \<Longrightarrow>
     json_chars (concat (map json_rune xs) @ quote # r) = Some (concat (map valid_rune xs), r)"
proof (induction xs)
  case Nil
  then show ?case by (simp add: json_chars.simps [of "quote # r"])
next
  case (Cons x xs)
  let ?t = "concat (map json_rune xs) @ quote # r"
  have step: "json_rune x \<noteq> []" "hd (json_rune x) \<noteq> quote" "json_step (json_rune x @ ?t) = Some (valid_rune x, ?t)"
    using json_step_rune [of x ?t] Cons.prems by simp_all
  then obtain c u where "json_rune x = c # u" "c \<noteq> quote" by (cases "json_rune x") auto
  with step(3) Cons show ?case by (simp add: json_chars.simps [of "c # u @ ?t"])
qed

lemma json_read_string: "json_chars (concat (map json_rune (runes s)) @ quote # r) = Some (to_valid s, r)"
  using json_chars_runes [of "runes s"] runes_pieces by (simp add: list_all_iff to_valid_def)

end
