(* ===== verification/Feed.thy ===== *)
theory Feed
  imports Tracking Json "HOL-Library.Monad_Syntax"
begin

section \<open>The event feed (redis/events.go)\<close>

text \<open>
  The feed of a movie is a sorted set whose members are JSON objects and whose scores are the
  event numbers, handed out by a counter. \<open>AppendEvents\<close> takes a block of numbers and stores
  the events, keeping the newest hundred; \<open>ReadEvents\<close> returns what came after a number.
  The JSON is that of \<open>encoding/json\<close> (theory \<open>Json\<close>) for a struct of two numbers and two strings.
\<close>

definition eventCap :: int where "eventCap = 100"
definition eventTTL :: int where "eventTTL = 24 * 60 * 60"

record FeedEvent =
  feID :: int
  feT :: int
  feType :: string
  feRid :: string

subsection \<open>encoding/json on this struct\<close>

definition marshalFeed :: "FeedEvent \<Rightarrow> string" where
  "marshalFeed e =
     ''{'' @ json_key ''id'' @ FormatInt (feID e) @ '','' @ json_key ''t'' @ FormatInt (feT e) @ '',''
     @ json_key ''type'' @ json_string (feType e) @ '','' @ json_key ''rid'' @ json_string (feRid e) @ ''}''"

text \<open>Reading an object of that shape back; None is an error of \<open>json.Unmarshal\<close>.\<close>

fun expect :: "string \<Rightarrow> string \<Rightarrow> string option" where
  "expect [] s = Some s"
| "expect (c # cs) [] = None"
| "expect (c # cs) (d # ds) = (if c = d then expect cs ds else None)"

definition parse_number :: "string \<Rightarrow> (int \<times> string) option" where
  "parse_number s =
     (let num = (\<lambda>c. is_digit c \<or> c = CHR ''-'') in
      case ParseInt (takeWhile num s) of None \<Rightarrow> None | Some n \<Rightarrow> Some (n, dropWhile num s))"

definition unmarshalFeed :: "string \<Rightarrow> FeedEvent option" where
  "unmarshalFeed s =
     do {
       s \<leftarrow> expect (''{'' @ json_key ''id'') s;
       (i, s) \<leftarrow> parse_number s;
       s \<leftarrow> expect ('','' @ json_key ''t'') s;
       (t, s) \<leftarrow> parse_number s;
       s \<leftarrow> expect ('','' @ json_key ''type'' @ [quote]) s;
       (ty, s) \<leftarrow> json_chars s;
       s \<leftarrow> expect ('','' @ json_key ''rid'' @ [quote]) s;
       (rid, s) \<leftarrow> json_chars s;
       s \<leftarrow> expect ''}'' s;
       if s = [] then Some \<lparr>feID = i, feT = t, feType = ty, feRid = rid\<rparr> else None
     }"

text \<open>An event as it comes back: bytes that are no UTF-8 are replaced in its strings.\<close>

definition clean :: "FeedEvent \<Rightarrow> FeedEvent" where
  "clean e = e\<lparr>feType := to_valid (feType e), feRid := to_valid (feRid e)\<rparr>"

lemma clean_fields [simp]: "feID (clean e) = feID e" "feT (clean e) = feT e"
  by (simp_all add: clean_def)

lemma clean_id: "valid_utf8 (feType e) \<Longrightarrow> valid_utf8 (feRid e) \<Longrightarrow> clean e = e"
  by (simp add: clean_def to_valid_id)

subsection \<open>Appending and reading\<close>

text \<open>The numbers of a block that ends at \<open>last_id\<close>, with their JSON.\<close>

definition feed_members :: "string \<Rightarrow> string list \<Rightarrow> int \<Rightarrow> int \<Rightarrow> item list" where
  "feed_members evType rids nowMs last_id =
     map (\<lambda>(i, rid).
            let id = last_id - (int (length rids) - 1 - int i)
            in (marshalFeed \<lparr>feID = id, feT = nowMs, feType = evType, feRid = rid\<rparr>, id))
         (enumerate 0 rids)"

definition append_pipe :: "'db redis \<Rightarrow> string \<Rightarrow> item list \<Rightarrow> 'db pcmd list" where
  "append_pipe R movieID ms =
     [pure_cmd (fold (\<lambda>(m, s). ZADD R (EventsKey movieID) s m) ms),
      pure_cmd (ZREMRANGEBYRANK R (EventsKey movieID) 0 (- eventCap - 1)),
      pure_cmd (EXPIRE R (EventsKey movieID) eventTTL),
      pure_cmd (EXPIRE R (EventsIDKey movieID) eventTTL)]"

definition AppendEvents ::
  "'db redis \<Rightarrow> string \<Rightarrow> string \<Rightarrow> string list \<Rightarrow> int \<Rightarrow> 'db world \<Rightarrow> (go_error + unit) \<times> 'db world"
where
  "AppendEvents R movieID evType rids nowMs w =
     (if rids = [] then (Inr (), w)
      else
        (case redis_call (INCRBY R (EventsIDKey movieID) (int (length rids))) w of
           (Inl err, w) \<Rightarrow> (Inl err, w)
         | (Inr None, w) \<Rightarrow> (Inl (RedisReply ''increment or decrement would overflow''), w)
         | (Inr (Some last_id), w) \<Rightarrow>
             redis_pipe (append_pipe R movieID (feed_members evType rids nowMs last_id)) w))"

definition parse_feed :: "string list \<Rightarrow> FeedEvent list" where
  "parse_feed raw = concat (map (\<lambda>s. case unmarshalFeed s of None \<Rightarrow> [] | Some e \<Rightarrow> [e]) raw)"

definition ReadEvents ::
  "'db redis \<Rightarrow> string \<Rightarrow> int \<Rightarrow> 'db world \<Rightarrow> (go_error + FeedEvent list \<times> int) \<times> 'db world"
where
  "ReadEvents R movieID after w =
     (case redis_read (\<lambda>db. ZREVRANGE R db (EventsKey movieID) 0 0) w of
        (Inl err, w) \<Rightarrow> (Inl err, w)
      | (Inr newest, w) \<Rightarrow>
          let last = (case newest of [] \<Rightarrow> 0 | x # _ \<Rightarrow> snd x) in
          (case redis_read (\<lambda>db.
                  if after = 0 then map fst (ZREVRANGE R db (EventsKey movieID) 0 29)
                  else ZRANGEBYSCORE R db (EventsKey movieID) (Excl after) PosInf None) w of
             (Inl err, w) \<Rightarrow> (Inl err, w)
           | (Inr raw, w) \<Rightarrow>
               let out = parse_feed raw;
                   out = (if after = 0 then rev out else out)
               in (Inr (out, last), w)))"

end
