(* ===== verification/Rate.thy ===== *)
theory Rate
  imports Tracking
begin

section \<open>The rate of promotion (redis/rate.go)\<close>

text \<open>
  Promotions are counted in buckets of one second that live for \<open>rateBucketTTL\<close> seconds; the
  rate is the sum over the last \<open>rateWindowSec\<close> seconds divided by the window. The division
  itself is left to \<open>metrics/rate.go\<close>: here the sum is what is computed.
\<close>

definition observe_pipe :: "'db redis \<Rightarrow> string \<Rightarrow> int \<Rightarrow> int \<Rightarrow> 'db pcmd list" where
  "observe_pipe R movieID promoted nowSec =
     (let key = RateBucketKey movieID nowSec in
      [(\<lambda>db. case INCRBY R key promoted db of
               (None, db) \<Rightarrow> (Some (RedisReply ''increment or decrement would overflow''), db)
             | (Some _, db) \<Rightarrow> (None, db)),
       pure_cmd (EXPIRE R key rateBucketTTL)])"

definition ObservePromotion ::
  "'db redis \<Rightarrow> string \<Rightarrow> int \<Rightarrow> int \<Rightarrow> 'db world \<Rightarrow> (go_error + unit) \<times> 'db world" where
  "ObservePromotion R movieID promoted nowSec w =
     (if promoted \<le> 0 then (Inr (), w)
      else redis_pipe (observe_pipe R movieID promoted nowSec) w)"

definition window_keys :: "string \<Rightarrow> int \<Rightarrow> string list" where
  "window_keys movieID nowSec = map (\<lambda>i. RateBucketKey movieID (nowSec - i)) [0..rateWindowSec - 1]"

text \<open>The loop over the replies: a missing bucket, or one that does not parse, counts nothing. The
  total is an \<open>int64\<close>.\<close>

fun sum_buckets :: "int \<Rightarrow> string option list \<Rightarrow> int" where
  "sum_buckets acc [] = acc"
| "sum_buckets acc (None # vs) = sum_buckets acc vs"
| "sum_buckets acc (Some s # vs) =
     (case ParseInt s of None \<Rightarrow> sum_buckets acc vs | Some n \<Rightarrow> sum_buckets (wrap64 (acc + n)) vs)"

definition PromotionTotal :: "'db redis \<Rightarrow> string \<Rightarrow> int \<Rightarrow> 'db world \<Rightarrow> (go_error + int) \<times> 'db world" where
  "PromotionTotal R movieID nowSec w =
     (case redis_read (\<lambda>db. MGET R db (window_keys movieID nowSec)) w of
        (Inl err, w) \<Rightarrow> (Inl err, w)
      | (Inr vals, w) \<Rightarrow> (Inr (sum_buckets 0 vals), w))"

end
