(* ===== verification/Commands.thy ===== *)
theory Commands
  imports Invariant Feed Rate
begin

section \<open>Every command the pods send, in any order\<close>

text \<open>
  The program runs as several pods that share nothing but the Redis database, and Redis runs
  one command or script at a time. So whatever the pods do together is a list of commands.
  \<open>cmd\<close> has one constructor for each command the code sends that writes (a plain pipeline is
  several of them, since others may run in between; \<open>System\<close> proves that every handler and
  loop is a list of these), and \<open>CElapse\<close> for the time between them.
\<close>

datatype cmd =
  CEnter string string int | CPromote string int int | CPosition string string int
  | CLeave string string int | CRelease string string string int | CComplete string string
  | CExpire string int int | CExpireWaiting string int | CUntrack string
  | CClear string "string list"
  | CResetDel string int | CResetActive string | CResetWaiting string
  | CFeedNumber string int | CFeedStore string "item list" | CFeedTrim string
  | CFeedTTL string | CFeedNumberTTL string
  | CCount string int int | CCountTTL string int | CPause int
  | CElapse int

fun exec :: "'db redis \<Rightarrow> int \<Rightarrow> cmd \<Rightarrow> 'db \<Rightarrow> 'db" where
  "exec R cap (CEnter m q now) db = snd (enter_cmd R m q cap now db)"
| "exec R cap (CPromote m batch now) db = snd (promote_cmd R m cap batch now db)"
| "exec R cap (CPosition m q now) db = snd (position_cmd R m q now db)"
| "exec R cap (CLeave m q now) db = snd (leave_cmd R m q now db)"
| "exec R cap (CRelease m q reason now) db = snd (release_cmd R m q reason now db)"
| "exec R cap (CComplete m q) db = snd (complete_cmd R m q db)"
| "exec R cap (CExpire m cutoff now) db = snd (expire_cmd R m cutoff now db)"
| "exec R cap (CExpireWaiting m cutoff) db = snd (waiting_expire_cmd R m cutoff db)"
| "exec R cap (CUntrack m) db = snd (untrack_cmd R m db)"
| "exec R cap (CClear m ms) db = snd (ZREM R (PendingKey m) ms db)"
| "exec R cap (CResetDel m sec) db = DEL R (reset_keys m sec) db"
| "exec R cap (CResetActive m) db = SREM R ActiveMoviesKey m db"
| "exec R cap (CResetWaiting m) db = SREM R WaitingMoviesKey m db"
| "exec R cap (CFeedNumber m n) db = snd (INCRBY R (EventsIDKey m) n db)"
| "exec R cap (CFeedStore m xs) db = fold (\<lambda>(v, s). ZADD R (EventsKey m) s v) xs db"
| "exec R cap (CFeedTrim m) db = ZREMRANGEBYRANK R (EventsKey m) 0 (- eventCap - 1) db"
| "exec R cap (CFeedTTL m) db = EXPIRE R (EventsKey m) eventTTL db"
| "exec R cap (CFeedNumberTTL m) db = EXPIRE R (EventsIDKey m) eventTTL db"
| "exec R cap (CCount m sec n) db = snd (INCRBY R (RateBucketKey m sec) n db)"
| "exec R cap (CCountTTL m sec) db = EXPIRE R (RateBucketKey m sec) rateBucketTTL db"
| "exec R cap (CPause d) db = SETPX R PromotePauseKey ''1'' d db"
| "exec R cap (CElapse d) db = ELAPSE R d db"

definition runs :: "'db redis \<Rightarrow> int \<Rightarrow> cmd list \<Rightarrow> 'db \<Rightarrow> 'db" where
  "runs R cap cs db = fold (exec R cap) cs db"

lemma runs_simps [simp]:
  "runs R cap [] db = db" "runs R cap (c # cs) db = runs R cap cs (exec R cap c db)"
  "runs R cap (cs @ ds) db = runs R cap ds (runs R cap cs db)"
  by (simp_all add: runs_def)

text \<open>The movie a command is about; none for those that leave the queues alone.\<close>

fun cmd_movie :: "cmd \<Rightarrow> string option" where
  "cmd_movie (CEnter m q now) = Some m" | "cmd_movie (CPromote m batch now) = Some m"
| "cmd_movie (CPosition m q now) = Some m" | "cmd_movie (CLeave m q now) = Some m"
| "cmd_movie (CRelease m q reason now) = Some m" | "cmd_movie (CComplete m q) = Some m"
| "cmd_movie (CExpire m cutoff now) = Some m" | "cmd_movie (CExpireWaiting m cutoff) = Some m"
| "cmd_movie (CUntrack m) = Some m" | "cmd_movie (CClear m ms) = Some m"
| "cmd_movie (CResetDel m sec) = Some m" | "cmd_movie (CResetActive m) = Some m"
| "cmd_movie (CResetWaiting m) = Some m" | "cmd_movie _ = None"

text \<open>The databases that can arise from an empty one.\<close>

inductive reachable :: "'db redis \<Rightarrow> int \<Rightarrow> 'db \<Rightarrow> bool" for R :: "'db redis" and cap :: int where
  init: "fresh R db \<Longrightarrow> reachable R cap db"
| step: "reachable R cap db \<Longrightarrow> reachable R cap (exec R cap c db)"

text \<open>The same with a reset that nobody cuts into: when it takes the movie off the loops' set,
  the movie is still the empty one its first command left.\<close>

fun undisturbed :: "'db redis \<Rightarrow> cmd \<Rightarrow> 'db \<Rightarrow> bool" where
  "undisturbed R (CResetActive m) db = idle R db m"
| "undisturbed R _ db = True"

inductive reachable_undisturbed :: "'db redis \<Rightarrow> int \<Rightarrow> 'db \<Rightarrow> bool"
  for R :: "'db redis" and cap :: int where
  init_undisturbed: "fresh R db \<Longrightarrow> reachable_undisturbed R cap db"
| step_undisturbed: "reachable_undisturbed R cap db \<Longrightarrow> undisturbed R c db \<Longrightarrow>
    reachable_undisturbed R cap (exec R cap c db)"

lemma reachable_runs: "reachable R cap db \<Longrightarrow> reachable R cap (runs R cap cs db)"
  by (induction cs arbitrary: db) (auto intro: step)

context redis_service
begin

subsection \<open>Commands that leave the queues alone\<close>

lemma no_movie_keys:
  assumes "k \<in> queue_keys m"
  shows "k \<noteq> EventsKey m'" "k \<noteq> EventsIDKey m'" "k \<noteq> RateBucketKey m' sec" "k \<noteq> PromotePauseKey"
  using assms by (auto simp: queue_keys_str key_simps)

lemma feed_store_frame:
  "k \<noteq> EventsKey m \<Longrightarrow> same_at R (fold (\<lambda>(v, s). ZADD R (EventsKey m) s v) xs db) db k"
proof (induction xs arbitrary: db)
  case (Cons x xs)
  then show ?case
    using same_at_trans [OF Cons.IH zadd_frame] by (cases x) simp
qed simp

lemma other_queues_same:
  assumes "cmd_movie c = None" and "no_ttl R db"
  shows "queues_same (exec R cap c db) db"
  using assms(1) elapse_queues_same [OF assms(2)]
  by (cases c) (auto simp: queues_same_def no_movie_keys feed_store_frame zremrangebyrank_frame
      expire_frame incrby_frame setpx_frame)

subsection \<open>Commands of a movie\<close>

lemma reset_keys_other: "k \<in> set (reset_keys m sec) \<Longrightarrow> k \<in> queue_keys m \<or>
    k = EventsKey m \<or> k = EventsIDKey m \<or> (\<exists>t. k = RateBucketKey m t)"
  by (auto simp: reset_keys_def queue_keys_def)

lemma in_reset_keys [simp]:
  "ActiveKey m \<in> set (reset_keys m sec)" "WaitingKey m \<in> set (reset_keys m sec)"
  "WaitingLastseenKey m \<in> set (reset_keys m sec)" "PendingKey m \<in> set (reset_keys m sec)"
  "PromotedCountKey m \<in> set (reset_keys m sec)" "EventsKey m \<in> set (reset_keys m sec)"
  "EventsIDKey m \<in> set (reset_keys m sec)"
  by (simp_all add: reset_keys_def)

lemma reset_del_movie:
  "ZITEMS R (DEL R (reset_keys m sec) db) (ActiveKey m) = []"
  "ZITEMS R (DEL R (reset_keys m sec) db) (WaitingKey m) = []"
  "ZITEMS R (DEL R (reset_keys m sec) db) (WaitingLastseenKey m) = []"
  "ZITEMS R (DEL R (reset_keys m sec) db) (PendingKey m) = []"
  by simp_all

text \<open>Every database of the queues but that of the movie in question is left as it was; the
  feed and the rate buckets, which a reset deletes as well, do not belong to the queues.\<close>

lemma movie_frame:
  assumes "cmd_movie c = Some m" and "m' \<noteq> m"
    and "k \<in> {ActiveKey m', WaitingKey m', WaitingLastseenKey m', PendingKey m', PromotedCountKey m'}"
  shows "same_at R (exec R cap c db) db k"
proof -
  have k: "k \<notin> queue_keys m"
    using assms(2,3) by (auto simp: queue_keys_str image_iff key_simps)
  have r: "k \<notin> set (reset_keys m sec)" for sec
    using assms(3) k by (auto dest!: reset_keys_other simp: key_simps)
  from k have "k \<noteq> PendingKey m" "k \<noteq> ActiveMoviesKey" "k \<noteq> WaitingMoviesKey"
    by (auto simp: queue_keys_def)
  with assms(1) k r show ?thesis
    by (cases c) (auto simp: enter_frame promote_frame position_db leave_frame release_frame
        complete_frame timeout_frame waiting_expire_frame untrack_frame zrem_frame del_frame
        srem_frame queue_keys_def zadd_frame)
qed

lemma single_commands:
  "acts R (SREM R ActiveMoviesKey x db) m = acts R db m"
  "waits R (SREM R ActiveMoviesKey x db) m = waits R db m"
  "lasts R (SREM R ActiveMoviesKey x db) m = lasts R db m"
  "pends R (SREM R ActiveMoviesKey x db) m = pends R db m"
  "acts R (SREM R WaitingMoviesKey x db) m = acts R db m"
  "waits R (SREM R WaitingMoviesKey x db) m = waits R db m"
  "lasts R (SREM R WaitingMoviesKey x db) m = lasts R db m"
  "pends R (SREM R WaitingMoviesKey x db) m = pends R db m"
  "tracked R (SREM R ActiveMoviesKey m db) = tracked R db - {m}"
  "tracked R (SREM R WaitingMoviesKey m db) = tracked R db"
  "tracked R (snd (ZREM R (PendingKey m) ms db)) = tracked R db"
  "acts R (snd (ZREM R (PendingKey m) ms db)) m = acts R db m"
  "waits R (snd (ZREM R (PendingKey m) ms db)) m = waits R db m"
  "pends R (snd (ZREM R (PendingKey m) ms db)) m = pends R db m - set ms"
  by (simp_all add: key_simps srem_members)

lemma single_visited:
  "visited R (DEL R (reset_keys m sec) db) m"
  "idle R db m \<Longrightarrow> visited R (SREM R ActiveMoviesKey m db) m"
  "visited R (SREM R WaitingMoviesKey m db) m \<longleftrightarrow> visited R db m"
  "visited R db m \<Longrightarrow> visited R (snd (ZREM R (PendingKey m) ms db)) m"
  by (auto simp: visited_def idle_def single_commands reset_del_movie simp del: members_empty_iff)

lemma single_ok:
  "0 \<le> cap \<Longrightarrow> queue_ok R cap (DEL R (reset_keys m sec) db) m"
  "queue_ok R cap (SREM R ActiveMoviesKey m db) m \<longleftrightarrow> queue_ok R cap db m"
  "queue_ok R cap (SREM R WaitingMoviesKey m db) m \<longleftrightarrow> queue_ok R cap db m"
  by (simp_all add: queue_ok_def single_commands reset_del_movie)

lemma movie_others_same: "cmd_movie c = Some m \<Longrightarrow> others_same m (exec R cap c db) db"
  using movie_frame [of c m] by (simp add: others_same_def same_at_def)

lemma movie_no_ttl:
  "cmd_movie c = Some m \<Longrightarrow> PTTL R db k = None \<Longrightarrow> PTTL R (exec R cap c db) k = None"
  by (cases c) (simp_all add: scripts_no_ttl)

lemma movie_ok:
  "cmd_movie c = Some m \<Longrightarrow> 0 \<le> cap \<Longrightarrow> queue_ok R cap db m \<Longrightarrow> queue_ok R cap (exec R cap c db) m"
  by (cases c) (auto simp: enter_ok promote_ok position_ok leave_ok release_ok complete_ok
      expire_ok waiting_expire_ok untrack_ok clear_ok single_ok)

lemma movie_visited:
  assumes "cmd_movie c = Some m" and "undisturbed R c db" and "visited R db m"
  shows "visited R (exec R cap c db) m"
  using assms
  by (cases c) (auto simp: enter_visited promote_visited position_visited leave_visited
      release_visited complete_visited expire_visited waiting_expire_visited untrack_visited
      single_visited)

lemma movie_tracked:
  assumes "cmd_movie c = Some m"
  shows "tracked R db - {m} \<subseteq> tracked R (exec R cap c db)"
proof -
  have "ActiveMoviesKey \<notin> set (reset_keys m sec)" for sec
    by (auto simp: reset_keys_def key_simps)
  with assms show ?thesis
    by (cases c) (auto simp: enter_items promote_members position_members leave_members release_members
        complete_members expire_members waiting_expire_members untrack_members single_commands)
qed

subsection \<open>Every command keeps the invariant\<close>

lemma exec_inv: "safe R cap db \<Longrightarrow> 0 \<le> cap \<Longrightarrow> safe R cap (exec R cap c db)"
proof (cases "cmd_movie c")
  case None
  assume "safe R cap db"
  with None show ?thesis
    by (intro queues_same_inv [OF other_queues_same]) (simp_all add: safe_def)
next
  case (Some m)
  assume safe: "safe R cap db" and "0 \<le> cap"
  then have "queue_ok R cap (exec R cap c db) m" using Some by (simp add: safe_def movie_ok)
  with safe show ?thesis
    by (rule inv_step) (simp_all add: movie_others_same [OF Some] movie_no_ttl [OF Some])
qed

lemma exec_visited:
  assumes "all_visited R db" and "undisturbed R c db" and "no_ttl R db"
  shows "all_visited R (exec R cap c db)"
proof (cases "cmd_movie c")
  case None
  with assms show ?thesis by (simp add: queues_same_visited [OF other_queues_same])
next
  case (Some m)
  have "visited R (exec R cap c db) m"
    using movie_visited [OF Some assms(2)] assms(1) by (simp add: all_visited_def)
  with assms(1) show ?thesis
    by (rule visited_step) (rule movie_others_same [OF Some], rule movie_tracked [OF Some])
qed

lemma runs_inv: "safe R cap db \<Longrightarrow> 0 \<le> cap \<Longrightarrow> safe R cap (runs R cap cs db)"
  by (induction cs arbitrary: db) (simp_all add: exec_inv)

lemma reachable_inv: "reachable R cap db \<Longrightarrow> 0 \<le> cap \<Longrightarrow> safe R cap db"
  by (induction rule: reachable.induct) (simp_all add: fresh_inv exec_inv)

lemma reachable_undisturbed_inv:
  "reachable_undisturbed R cap db \<Longrightarrow> 0 \<le> cap \<Longrightarrow> safe R cap db \<and> all_visited R db"
proof (induction rule: reachable_undisturbed.induct)
  case (init_undisturbed db)
  then show ?case by (simp add: fresh_inv)
next
  case (step_undisturbed db c)
  then show ?case using exec_inv [of cap db c] exec_visited [of db c cap] by (simp add: safe_def)
qed

end

end
