(* ===== verification/Line.thy ===== *)
theory Line
  imports Commands
begin

section \<open>The promise: a line of visitors and a number of seats\<close>

text \<open>
  What a movie's queue is meant to be, without Redis: a set of seated visitors and a line.
  \<open>enters\<close>, \<open>arrives\<close> and \<open>serves\<close> are the specification as step relations, \<open>abs_queue\<close> reads the
  abstract state off a database, and the refinement says that each command of the program is a
  step of them. The line is the waiting set in order of score: whoever enters gets a place
  somewhere in it (\<open>enters\<close>), and the place is the last one if the clock of the pod that serves the
  newcomer is past the scores of the others (\<open>timely\<close>, \<open>arrives\<close>).
\<close>

record aqueue =
  seated :: "string set"
  line :: "string list"

definition abs_queue :: "'db redis \<Rightarrow> 'db \<Rightarrow> string \<Rightarrow> aqueue" where
  "abs_queue R db m = \<lparr>seated = acts R db m, line = map fst (ZITEMS R db (WaitingKey m))\<rparr>"

inductive arrives :: "int \<Rightarrow> string \<Rightarrow> aqueue \<Rightarrow> aqueue \<Rightarrow> bool" for cap :: int and q :: string where
  seat: "q \<notin> seated a \<Longrightarrow> q \<notin> set (line a) \<Longrightarrow> int (card (seated a)) < cap \<Longrightarrow>
    arrives cap q a (a\<lparr>seated := insert q (seated a)\<rparr>)"
| join: "q \<notin> seated a \<Longrightarrow> q \<in> set (line a) \<or> cap \<le> int (card (seated a)) \<Longrightarrow>
    arrives cap q a (a\<lparr>line := removeAll q (line a) @ [q]\<rparr>)"
| stay: "q \<in> seated a \<Longrightarrow> arrives cap q a a"

inductive enters :: "int \<Rightarrow> string \<Rightarrow> aqueue \<Rightarrow> aqueue \<Rightarrow> bool" for cap :: int and q :: string where
  enters_seat: "q \<notin> seated a \<Longrightarrow> q \<notin> set (line a) \<Longrightarrow> int (card (seated a)) < cap \<Longrightarrow>
    enters cap q a (a\<lparr>seated := insert q (seated a)\<rparr>)"
| enters_line: "q \<notin> seated a \<Longrightarrow> q \<in> set (line a) \<or> cap \<le> int (card (seated a)) \<Longrightarrow>
    us @ vs = removeAll q (line a) \<Longrightarrow> enters cap q a (a\<lparr>line := us @ q # vs\<rparr>)"
| enters_stay: "q \<in> seated a \<Longrightarrow> enters cap q a a"

inductive serves :: "int \<Rightarrow> aqueue \<Rightarrow> aqueue \<Rightarrow> bool" for cap :: int where
  keep: "serves cap a a"
| advance: "int n \<le> cap - int (card (seated a)) \<or> n = 0 \<Longrightarrow>
    serves cap a \<lparr>seated = seated a \<union> set (take n (line a)), line = drop n (line a)\<rparr>"
| depart: "serves cap a \<lparr>seated = seated a - S, line = filter (\<lambda>q. q \<notin> T) (line a)\<rparr>"

inductive_cases arrivesE: "arrives cap q a b"
inductive_cases entersE: "enters cap q a b"
inductive_cases servesE: "serves cap a b"

text \<open>The visitor a command brings to the queue of movie \<open>m\<close>.\<close>

fun comes :: "string \<Rightarrow> cmd \<Rightarrow> string option" where
  "comes m (CEnter m' q now) = (if m' = m then Some q else None)"
| "comes m _ = None"

definition astep :: "int \<Rightarrow> string option \<Rightarrow> aqueue \<Rightarrow> aqueue \<Rightarrow> bool" where
  "astep cap who a b \<longleftrightarrow> (case who of Some q \<Rightarrow> enters cap q a b | None \<Rightarrow> serves cap a b)"

text \<open>The clock a newcomer is served by is past all the scores in the line.\<close>

fun timely :: "'db redis \<Rightarrow> cmd \<Rightarrow> 'db \<Rightarrow> bool" where
  "timely R (CEnter m q now) db = list_all (\<lambda>x. fst x = q \<or> snd x < now) (ZITEMS R db (WaitingKey m))"
| "timely R _ db = True"

text \<open>\<open>q\<close> is in the line, and whoever of the two comes first it is not \<open>r\<close>.\<close>

definition before_in :: "string list \<Rightarrow> string \<Rightarrow> string \<Rightarrow> bool" where
  "before_in xs q r \<longleftrightarrow> q \<in> set xs \<and> q \<in> set (takeWhile (\<lambda>x. x \<noteq> r) xs)"

lemma before_in_notin: "r \<notin> set xs \<Longrightarrow> before_in xs q r \<longleftrightarrow> q \<in> set xs"
proof -
  assume "r \<notin> set xs"
  then have "set (takeWhile (\<lambda>x. x \<noteq> r) xs) = set xs" by (induction xs) auto
  then show ?thesis by (simp add: before_in_def)
qed

lemma before_in_filter:
  "before_in xs q r \<Longrightarrow> q \<notin> T \<Longrightarrow> before_in (filter (\<lambda>x. x \<notin> T) xs) q r"
  by (induction xs) (auto simp: before_in_def)

lemma before_in_insert:
  "before_in (us @ vs) q r \<Longrightarrow> p \<noteq> r \<Longrightarrow> before_in (us @ p # vs) q r"
  by (induction us) (auto simp: before_in_def)

lemma before_in_drop:
  "before_in xs q r \<Longrightarrow> distinct xs \<Longrightarrow> before_in (drop n xs) q r \<or> q \<in> set (take n xs)"
proof (induction xs arbitrary: n)
  case (Cons x xs)
  then show ?case by (cases n) (auto simp: before_in_def split: if_splits)
qed (simp add: before_in_def)

lemma before_in_take: "before_in xs q r \<Longrightarrow> r \<in> set (take n xs) \<Longrightarrow> q \<in> set (take n xs)"
proof (induction xs arbitrary: n)
  case (Cons x xs)
  then show ?case by (cases n) (auto simp: before_in_def split: if_splits)
qed (simp add: before_in_def)

text \<open>As long as \<open>q\<close> waits, \<open>r\<close> has no seat and does not stand before \<open>q\<close>.\<close>

definition not_overtaken :: "aqueue \<Rightarrow> string \<Rightarrow> string \<Rightarrow> bool" where
  "not_overtaken a q r \<longleftrightarrow> (q \<in> set (line a) \<longrightarrow> r \<notin> seated a \<and> before_in (line a) q r)"

context redis_service
begin

lemma set_line: "set (line (abs_queue R db m)) = waits R db m"
  by (simp add: abs_queue_def members_def)

lemma distinct_line: "distinct (line (abs_queue R db m))"
  using zitems_wf [of db "WaitingKey m"] by (simp add: abs_queue_def zwf_def)

lemma card_seated: "int (card (seated (abs_queue R db m))) = ZCARD R db (ActiveKey m)"
  by (simp add: abs_queue_def zcard_card)

lemma map_fst_zdel: "map fst (zdel us xs) = filter (\<lambda>q. q \<notin> set us) (map fst xs)"
  by (induction xs) (auto simp: zdel_def)

lemma map_fst_zput_last:
  assumes "list_all (\<lambda>x. fst x = q \<or> snd x < now) xs" and "zwf xs"
  shows "map fst (zput (q, now) xs) = filter (\<lambda>p. p \<noteq> q) (map fst xs) @ [q]"
proof -
  have "zput (q, now) xs = zdel [q] xs @ [(q, now)]"
    using assms by (intro zput_last) (auto simp: list_all_iff item_less_def)
  then show ?thesis by (simp add: map_fst_zdel)
qed

subsection \<open>Each command is a step of the specification\<close>

lemma enter_abs:
  assumes "timely R (CEnter m q now) db"
  shows "abs_queue R (snd (enter_cmd R m q cap now db)) m =
    (let a = abs_queue R db m in
     if seats R db m cap q then a\<lparr>seated := insert q (seated a)\<rparr>
     else if queues R db m cap q then a\<lparr>line := removeAll q (line a) @ [q]\<rparr> else a)"
  using assms map_fst_zput_last [of q now "ZITEMS R db (WaitingKey m)"]
  by (simp add: abs_queue_def enter_items Let_def seats_def queues_def removeAll_filter_not_eq
      eq_commute)

lemma enter_cases:
  obtains "seats R db m cap q" | "queues R db m cap q" "\<not> seats R db m cap q" | "q \<in> acts R db m"
  unfolding seats_def queues_def by linarith

lemma enter_arrives:
  assumes "timely R (CEnter m q now) db"
  shows "arrives cap q (abs_queue R db m) (abs_queue R (snd (enter_cmd R m q cap now db)) m)"
proof -
  let ?a = "abs_queue R db m"
  have s: "q \<in> seated ?a \<longleftrightarrow> q \<in> acts R db m" by (simp add: abs_queue_def)
  show ?thesis
  proof (cases rule: enter_cases [of db m cap q])
    case 1
    then have "arrives cap q ?a (?a\<lparr>seated := insert q (seated ?a)\<rparr>)"
      by (intro seat) (simp_all add: s seats_def set_line card_seated)
    with 1 show ?thesis by (simp add: enter_abs [OF assms] Let_def)
  next
    case 2
    then have "arrives cap q ?a (?a\<lparr>line := removeAll q (line ?a) @ [q]\<rparr>)"
      by (intro join) (auto simp: s queues_def set_line card_seated)
    with 2 show ?thesis by (simp add: enter_abs [OF assms] Let_def)
  next
    case 3
    then have "arrives cap q ?a ?a" by (intro stay) (simp add: s)
    with 3 show ?thesis by (simp add: enter_abs [OF assms] Let_def seats_def queues_def)
  qed
qed

lemma map_fst_zput:
  assumes "zwf xs"
  obtains us vs where "us @ vs = removeAll q (map fst xs)"
    and "map fst (zput (q, now) xs) = us @ q # vs"
proof -
  let ?ys = "filter (\<lambda>y. fst y \<noteq> q) xs"
  let ?us = "takeWhile (\<lambda>y. item_less y (q, now)) ?ys"
  let ?vs = "dropWhile (\<lambda>y. item_less y (q, now)) ?ys"
  have "map fst ?us @ map fst ?vs = removeAll q (map fst xs)"
    unfolding map_append [symmetric] takeWhile_dropWhile_id removeAll_filter_not_eq filter_map
    by (simp add: comp_def eq_commute)
  moreover have "map fst (zput (q, now) xs) = map fst ?us @ q # map fst ?vs"
    by (simp add: zput_split [OF assms] zput_def Let_def dropWhile_eq_drop)
  ultimately show ?thesis by (rule that)
qed

lemma enter_enters:
  "enters cap q (abs_queue R db m) (abs_queue R (snd (enter_cmd R m q cap now db)) m)"
proof -
  let ?a = "abs_queue R db m" and ?b = "abs_queue R (snd (enter_cmd R m q cap now db)) m"
  have s: "q \<in> seated ?a \<longleftrightarrow> q \<in> acts R db m" by (simp add: abs_queue_def)
  show ?thesis
  proof (cases rule: enter_cases [of db m cap q])
    case 1
    then have "enters cap q ?a (?a\<lparr>seated := insert q (seated ?a)\<rparr>)"
      by (intro enters_seat) (simp_all add: s seats_def set_line card_seated)
    moreover from 1 have "?b = ?a\<lparr>seated := insert q (seated ?a)\<rparr>"
      by (simp add: abs_queue_def enter_items Let_def seats_def queues_def)
    ultimately show ?thesis by simp
  next
    case 2
    obtain us vs where uv: "us @ vs = removeAll q (map fst (ZITEMS R db (WaitingKey m)))"
      "map fst (zput (q, now) (ZITEMS R db (WaitingKey m))) = us @ q # vs"
      using map_fst_zput [OF zitems_wf] by blast
    have "us @ vs = removeAll q (line ?a)" by (simp add: uv(1) abs_queue_def)
    with 2 have "enters cap q ?a (?a\<lparr>line := us @ q # vs\<rparr>)"
      by (intro enters_line) (auto simp: s queues_def set_line card_seated)
    moreover from 2 have "?b = ?a\<lparr>line := us @ q # vs\<rparr>"
      by (simp add: abs_queue_def enter_items Let_def uv(2))
    ultimately show ?thesis by simp
  next
    case 3
    then have "?b = ?a" by (simp add: abs_queue_def enter_items Let_def seats_def queues_def)
    moreover from 3 have "enters cap q ?a ?a" by (intro enters_stay) (simp add: s)
    ultimately show ?thesis by simp
  qed
qed

lemma promote_abs:
  "abs_queue R (snd (promote_cmd R m cap batch now db)) m =
     (let a = abs_queue R db m; n = nat (min batch (cap - int (card (seated a))))
      in \<lparr>seated = seated a \<union> set (take n (line a)), line = drop n (line a)\<rparr>)"
proof -
  let ?xs = "ZITEMS R db (WaitingKey m)" and ?n = "nat (min batch (cap - ZCARD R db (ActiveKey m)))"
  have "drop (length (promote_users R db m cap batch)) ?xs = drop ?n ?xs"
    by (simp add: promote_users_head min_def)
  moreover have "set (promote_users R db m cap batch) = set (take ?n (map fst ?xs))"
    by (simp add: promote_users_head take_map)
  ultimately show ?thesis
    by (simp add: abs_queue_def promote_members(1) promote_line Let_def drop_map zcard_card)
qed

lemma promote_serves:
  "serves cap (abs_queue R db m) (abs_queue R (snd (promote_cmd R m cap batch now db)) m)"
  unfolding promote_abs Let_def by (rule advance) (auto simp: nat_le_iff)

lemma departs:
  assumes "acts R db' m = acts R db m - S"
    and "ZITEMS R db' (WaitingKey m) = zdel us (ZITEMS R db (WaitingKey m))"
  shows "serves cap (abs_queue R db m) (abs_queue R db' m)"
  using depart [of cap "abs_queue R db m" S "set us"]
  by (simp add: abs_queue_def assms map_fst_zdel)

lemma leave_serves:
  "serves cap (abs_queue R db m) (abs_queue R (snd (leave_cmd R m q now db)) m)"
  by (rule departs [where S = "{q}" and us = "[q]"])
    (simp_all add: leave_members, simp add: leave_cmd_def leaveScript_def Let_def split_beta key_simps)

lemma waiting_expire_line:
  "ZITEMS R (snd (waiting_expire_cmd R m cutoff db)) (WaitingKey m) =
     zdel (stale_users R db m cutoff) (ZITEMS R db (WaitingKey m))"
  by (simp add: waiting_expire_cmd_def waitingExpireScript_def stale_users_def Let_def key_simps)

lemma seat_only_lines:
  "ZITEMS R (snd (release_cmd R m q reason now db)) (WaitingKey m) = ZITEMS R db (WaitingKey m)"
  "ZITEMS R (snd (complete_cmd R m q db)) (WaitingKey m) = ZITEMS R db (WaitingKey m)"
  "ZITEMS R (snd (expire_cmd R m cutoff now db)) (WaitingKey m) = ZITEMS R db (WaitingKey m)"
  using expire_loop_frame [of _ m now "expired_users R db m cutoff"
      "snd (ZREM R (ActiveKey m) (expired_users R db m cutoff) db)"]
  by (simp_all add: release_cmd_def releaseScript_def complete_cmd_def expire_db
      Let_def split_beta key_simps same_at_def)

lemma same_serves:
  assumes "ZITEMS R db' (ActiveKey m) = ZITEMS R db (ActiveKey m)"
    and "ZITEMS R db' (WaitingKey m) = ZITEMS R db (WaitingKey m)"
  shows "serves cap (abs_queue R db m) (abs_queue R db' m)"
  using keep [of cap "abs_queue R db m"] by (simp add: abs_queue_def assms)

lemma movie_serves:
  assumes "cmd_movie c = Some m" and "comes m c = None"
  shows "serves cap (abs_queue R db m) (abs_queue R (exec R cap c db) m)"
proof (cases c)
  case (CRelease m' q reason now)
  with assms(1) show ?thesis
    by (auto intro!: departs [where us = "[]" and S = "{q}"] simp: release_members seat_only_lines)
next
  case (CComplete m' q)
  with assms(1) show ?thesis
    by (auto intro!: departs [where us = "[]" and S = "{q}"] simp: complete_members seat_only_lines)
next
  case (CExpire m' cutoff now)
  with assms(1) show ?thesis
    by (auto intro!: departs [where us = "[]" and S = "set (expired_users R db m cutoff)"]
        simp: expire_members seat_only_lines)
next
  case (CExpireWaiting m' cutoff)
  with assms(1) show ?thesis
    by (auto intro!: departs [where us = "stale_users R db m cutoff" and S = "{}"]
        simp: waiting_expire_members waiting_expire_line)
next
  case (CResetDel m' sec)
  with assms(1) show ?thesis
    by (auto intro!: departs [where us = "map fst (ZITEMS R db (WaitingKey m))" and S = "acts R db m"]
        simp: zdel_def)
qed (use assms in \<open>auto simp: promote_serves leave_serves same_serves position_db
        untrack_db key_simps\<close>)

lemma exec_astep:
  assumes "no_ttl R db"
  shows "astep cap (comes m c) (abs_queue R db m) (abs_queue R (exec R cap c db) m)"
proof (cases "comes m c")
  case (Some q)
  then obtain now where "c = CEnter m q now" by (cases c) (auto split: if_splits)
  with Some show ?thesis by (simp add: astep_def enter_enters)
next
  case none: None
  have "serves cap (abs_queue R db m) (abs_queue R (exec R cap c db) m)"
  proof (cases "cmd_movie c")
    case None
    then have same: "queues_same (exec R cap c db) db" by (rule other_queues_same [OF _ assms])
    show ?thesis by (simp add: same_serves queues_sameD [OF same])
  next
    case (Some m')
    show ?thesis
    proof (cases "m' = m")
      case False
      with movie_others_same [OF Some, of cap db] show ?thesis
        by (simp add: same_serves others_same_def)
    qed (use movie_serves Some none in simp)
  qed
  with none show ?thesis by (simp add: astep_def)
qed

lemma exec_arrives:
  assumes "timely R c db" and "comes m c = Some q"
  shows "arrives cap q (abs_queue R db m) (abs_queue R (exec R cap c db) m)"
proof -
  from assms(2) obtain now where "c = CEnter m q now" by (cases c) (auto split: if_splits)
  with assms(1) show ?thesis by (simp add: enter_arrives)
qed

subsection \<open>Nobody in the line is overtaken by somebody behind\<close>

lemma enters_not_overtaken:
  assumes "enters cap p a b" and "p \<noteq> q" and "p \<noteq> r" and "not_overtaken a q r"
  shows "not_overtaken b q r"
  using assms(1)
proof (cases rule: enters.cases)
  case (enters_line us vs)
  have "set us \<union> set vs = set (line a) - {p}" using arg_cong [OF enters_line(4), of set] by simp
  with assms(2) have m: "q \<in> set (us @ p # vs) \<longleftrightarrow> q \<in> set (line a)" by auto
  show ?thesis
    unfolding not_overtaken_def
  proof
    assume "q \<in> set (line b)"
    with m enters_line(1) have "q \<in> set (line a)" by simp
    with assms(4) have r: "r \<notin> seated a" "before_in (line a) q r" by (simp_all add: not_overtaken_def)
    have "before_in (removeAll p (line a)) q r"
      using before_in_filter [OF r(2), of "{p}"] assms(2)
      by (simp add: removeAll_filter_not_eq eq_commute)
    then have "before_in (us @ p # vs) q r"
      unfolding enters_line(4) [symmetric] by (rule before_in_insert) (rule assms(3))
    with r(1) enters_line(1) show "r \<notin> seated b \<and> before_in (line b) q r" by simp
  qed
qed (use assms in \<open>simp_all add: not_overtaken_def\<close>)

lemma serves_not_overtaken:
  assumes "serves cap a b" and "distinct (line a)" and "not_overtaken a q r"
  shows "not_overtaken b q r"
  using assms(1)
proof (cases rule: serves.cases)
  case (advance n)
  have apart: "set (take n (line a)) \<inter> set (drop n (line a)) = {}"
    using assms(2) by (rule set_take_disj_set_drop_if_distinct) simp
  with advance assms show ?thesis
    using before_in_drop [of "line a" q r n] before_in_take [of "line a" q r n]
    by (auto simp: not_overtaken_def dest: in_set_dropD)
next
  case (depart S T)
  with assms(3) show ?thesis by (auto simp: not_overtaken_def before_in_filter)
qed (use assms(3) in simp)

lemma exec_not_overtaken:
  assumes "safe R cap db" and "comes m c \<notin> {Some q, Some r}"
    and "not_overtaken (abs_queue R db m) q r"
  shows "not_overtaken (abs_queue R (exec R cap c db) m) q r"
  using exec_astep [of db cap m c] assms distinct_line [of db m]
  by (auto simp: safe_def astep_def enters_not_overtaken serves_not_overtaken split: option.splits)

lemma runs_not_overtaken:
  assumes "safe R cap db" and "0 \<le> cap"
    and "\<forall>c\<in>set cs. comes m c \<notin> {Some q, Some r}" and "not_overtaken (abs_queue R db m) q r"
  shows "not_overtaken (abs_queue R (runs R cap cs db) m) q r"
  using assms
  by (induction cs arbitrary: db) (simp_all add: exec_inv exec_not_overtaken)

end

end
