(* ===== verification/Lifecycle.thy ===== *)
theory Lifecycle
  imports Line
begin

section \<open>One visitor's way through the queue\<close>

text \<open>
  Where a visitor stands in a movie, and the state machine of the moves: which commands take
  the visitor from which place to which. A seat is got by entering or from the line, nobody
  goes back from a seat into the line, and only the visitor's own \<open>enter\<close> begins anything.
\<close>

datatype place = Outside | InLine | Seated

definition place_of :: "'db redis \<Rightarrow> 'db \<Rightarrow> string \<Rightarrow> string \<Rightarrow> place" where
  "place_of R db m q =
     (if q \<in> acts R db m then Seated else if q \<in> waits R db m then InLine else Outside)"

inductive moves :: "string \<Rightarrow> string \<Rightarrow> cmd \<Rightarrow> place \<Rightarrow> place \<Rightarrow> bool" for m q :: string where
  seated_at_once: "moves m q (CEnter m q now) Outside Seated"
| lined_up: "moves m q (CEnter m q now) Outside InLine"
| promoted: "moves m q (CPromote m batch now) InLine Seated"
| left: "p \<noteq> Outside \<Longrightarrow> moves m q (CLeave m q now) p Outside"
| released: "moves m q (CRelease m q reason now) Seated Outside"
| completed: "moves m q (CComplete m q) Seated Outside"
| session_over: "moves m q (CExpire m cutoff now) Seated Outside"
| gone_stale: "moves m q (CExpireWaiting m cutoff) InLine Outside"
| reset: "p \<noteq> Outside \<Longrightarrow> moves m q (CResetDel m sec) p Outside"

inductive_cases moves_to_seat: "moves m q c p Seated"
inductive_cases moves_from_seat: "moves m q c Seated p"

context redis_service
begin

lemma place_same:
  "acts R db' m = acts R db m \<Longrightarrow> waits R db' m = waits R db m \<Longrightarrow>
     place_of R db' m q = place_of R db m q"
  by (simp add: place_of_def)

lemma waits_of_line:
  "waits R (snd (position_cmd R m q now db)) m = waits R db m"
  by (simp add: position_members)

lemma movie_moves:
  assumes "cmd_movie c = Some m" and "queue_ok R cap db m"
  shows "place_of R (exec R cap c db) m q = place_of R db m q \<or>
    moves m q c (place_of R db m q) (place_of R (exec R cap c db) m q)"
proof (cases c)
  case (CEnter m' p now)
  with assms show ?thesis
    by (auto simp: place_of_def enter_items seats_def queues_def intro: moves.intros)
next
  case (CPromote m' batch now)
  with assms promote_users_waiting [of db m cap batch] show ?thesis
    by (auto simp: place_of_def promote_members intro: moves.intros)
next
  case (CExpire m' cutoff now)
  with assms queue_okD(2) [OF assms(2)] expired_users_active [of db m cutoff] show ?thesis
    by (auto simp: place_of_def expire_members intro: moves.intros)
next
  case (CExpireWaiting m' cutoff)
  with assms queue_okD(2) [OF assms(2)] show ?thesis
    by (auto simp: place_of_def waiting_expire_members intro: moves.intros)
next
  case (CResetDel m' sec)
  with assms show ?thesis
    by (auto simp: place_of_def reset_del_movie intro: moves.intros)
qed (use assms queue_okD(2) [OF assms(2)] in \<open>auto simp: place_of_def position_members
      leave_members release_members complete_members untrack_members single_commands
      intro: moves.intros\<close>)

lemma exec_moves:
  assumes "safe R cap db"
  shows "place_of R (exec R cap c db) m q = place_of R db m q \<or>
    moves m q c (place_of R db m q) (place_of R (exec R cap c db) m q)"
proof (cases "cmd_movie c")
  case None
  have same: "queues_same (exec R cap c db) db"
    using assms by (intro other_queues_same [OF None]) (simp add: safe_def)
  show ?thesis by (simp add: place_of_def queues_sameD [OF same])
next
  case (Some m')
  show ?thesis
  proof (cases "m' = m")
    case True
    with Some assms show ?thesis by (intro movie_moves) (simp_all add: safe_def)
  next
    case False
    with movie_others_same [OF Some, of cap db] show ?thesis
      by (simp add: place_of_def others_same_def)
  qed
qed

end

end
