(* ===== verification/RefRedis.thy ===== *)
theory RefRedis
  imports RedisService
begin

section \<open>An executable Redis server\<close>

text \<open>
  A complete server that satisfies \<open>redis_service\<close>: the hypotheses of the properties can hold
  together, and the witnesses run on it. A sorted set is kept as an association list whose
  first entry for a member counts; \<open>znorm\<close> lists it in the order of the documentation.
\<close>

record ref_db =
  rzsets :: "(string \<times> item list) list"
  rsets :: "(string \<times> string list) list"
  rstrs :: "(string \<times> string) list"
  rttls :: "(string \<times> int) list"

definition ref_empty :: ref_db where
  "ref_empty = \<lparr>rzsets = [], rsets = [], rstrs = [], rttls = []\<rparr>"

fun look :: "(string \<times> 'a list) list \<Rightarrow> string \<Rightarrow> 'a list" where
  "look [] k = []"
| "look ((k', v) # xs) k = (if k' = k then v else look xs k)"

definition only :: "(string \<Rightarrow> bool) \<Rightarrow> (string \<times> 'a) list \<Rightarrow> (string \<times> 'a) list" where
  "only P xs = filter (\<lambda>x. P (fst x)) xs"

text \<open>Storing under a key: the old entry goes.\<close>

definition put :: "string \<Rightarrow> 'a \<Rightarrow> (string \<times> 'a) list \<Rightarrow> (string \<times> 'a) list" where
  "put k v xs = (k, v) # only (\<lambda>k'. k' \<noteq> k) xs"

lemma look_only [simp]: "look (only P xs) k = (if P k then look xs k else [])"
  by (induction xs) (auto simp: only_def)

lemma map_of_filter_key:
  "map_of (filter (\<lambda>x. P (fst x)) xs) m = (if P m then map_of xs m else None)"
  by (induction xs) auto

lemma map_of_only [simp]: "map_of (only P xs) k = (if P k then map_of xs k else None)"
  by (simp add: only_def map_of_filter_key)

lemma map_of_put [simp]: "map_of (put k v xs) k' = (if k = k' then Some v else map_of xs k')"
  by (simp add: put_def)

lemma look_put [simp]: "look (put k v xs) k' = (if k = k' then v else look xs k')"
  by (simp add: put_def)

definition znorm :: "item list \<Rightarrow> item list" where
  "znorm xs = foldr zput xs []"

lemma znorm_Nil [simp]: "znorm [] = []"
  by (simp add: znorm_def)

lemma znorm_Cons [simp]: "znorm (x # xs) = zput x (znorm xs)"
  by (simp add: znorm_def)

lemma zwf_znorm [simp]: "zwf (znorm xs)"
  by (induction xs) (simp_all add: zwf_zput znorm_def)

lemma set_znorm: "(m, s) \<in> set (znorm xs) \<longleftrightarrow> map_of xs m = Some s"
  by (induction xs) (auto simp: set_zput znorm_def)

lemma znorm_filter_key: "znorm (filter (\<lambda>x. P (fst x)) xs) = filter (\<lambda>x. P (fst x)) (znorm xs)"
proof (rule zwf_eqI)
  show "set (znorm (filter (\<lambda>x. P (fst x)) xs)) = set (filter (\<lambda>x. P (fst x)) (znorm xs))"
  proof (rule set_eqI)
    fix y :: item
    obtain m s where "y = (m, s)" by (cases y)
    then show "y \<in> set (znorm (filter (\<lambda>x. P (fst x)) xs)) \<longleftrightarrow>
        y \<in> set (filter (\<lambda>x. P (fst x)) (znorm xs))"
      by (simp add: set_znorm map_of_filter_key)
  qed
qed (simp_all add: zwf_filter)

definition ref_items :: "ref_db \<Rightarrow> string \<Rightarrow> item list" where
  "ref_items db k = znorm (look (rzsets db) k)"

definition ref_zrem :: "string \<Rightarrow> string list \<Rightarrow> ref_db \<Rightarrow> int \<times> ref_db" where
  "ref_zrem k ms db =
     (int (length (filter (\<lambda>x. fst x \<in> set ms) (ref_items db k))),
      db\<lparr>rzsets := put k (filter (\<lambda>x. fst x \<notin> set ms) (look (rzsets db) k)) (rzsets db)\<rparr>)"

definition ref_exists :: "ref_db \<Rightarrow> string \<Rightarrow> bool" where
  "ref_exists db k \<longleftrightarrow>
     ref_items db k \<noteq> [] \<or> look (rsets db) k \<noteq> [] \<or> map_of (rstrs db) k \<noteq> None"

definition ref_incrby :: "string \<Rightarrow> int \<Rightarrow> ref_db \<Rightarrow> int option \<times> ref_db" where
  "ref_incrby k d db =
     (case (case map_of (rstrs db) k of None \<Rightarrow> Some 0 | Some s \<Rightarrow> ParseInt s) of
        None \<Rightarrow> (None, db)
      | Some n \<Rightarrow>
          if in64 (n + d)
          then (Some (n + d), db\<lparr>rstrs := put k (FormatInt (n + d)) (rstrs db)\<rparr>)
          else (None, db))"

definition ref_del :: "(string \<Rightarrow> bool) \<Rightarrow> ref_db \<Rightarrow> ref_db" where
  "ref_del P db =
     \<lparr>rzsets = only (\<lambda>k. \<not> P k) (rzsets db),
      rsets = only (\<lambda>k. \<not> P k) (rsets db),
      rstrs = only (\<lambda>k. \<not> P k) (rstrs db),
      rttls = only (\<lambda>k. \<not> P k) (rttls db)\<rparr>"

definition ref_elapse :: "int \<Rightarrow> ref_db \<Rightarrow> ref_db" where
  "ref_elapse d db =
     (let dead = (\<lambda>k. case map_of (rttls db) k of None \<Rightarrow> False | Some r \<Rightarrow> r \<le> d);
          db = ref_del dead db
      in db\<lparr>rttls := map (apsnd (\<lambda>r. r - d)) (rttls db)\<rparr>)"

definition ref_redis :: "ref_db redis" where
  "ref_redis =
     \<lparr>ZITEMS = ref_items,
      ZADD = (\<lambda>k s m db. db\<lparr>rzsets := put k ((m, s) # look (rzsets db) k) (rzsets db)\<rparr>),
      ZREM = ref_zrem,
      ZSCORE = (\<lambda>db k m. map_of (ref_items db k) m),
      ZCARD = (\<lambda>db k. int (length (ref_items db k))),
      ZRANK = (\<lambda>db k m. if m \<in> members (ref_items db k)
                        then Some (int (zpos (ref_items db k) m)) else None),
      ZRANGE = (\<lambda>db k a b. map fst (index_range a b (ref_items db k))),
      ZREVRANGE = (\<lambda>db k a b. index_range a b (rev (ref_items db k))),
      ZRANGEBYSCORE = (\<lambda>db k lo hi lim. map fst (limited lim
         (filter (\<lambda>x. min_ok lo (snd x) \<and> max_ok hi (snd x)) (ref_items db k)))),
      ZREMRANGEBYRANK = (\<lambda>k a b db.
         snd (ref_zrem k (map fst (index_range a b (ref_items db k))) db)),
      SADD = (\<lambda>k v db. db\<lparr>rsets := put k (List.insert v (look (rsets db) k)) (rsets db)\<rparr>),
      SREM = (\<lambda>k v db. db\<lparr>rsets := put k (removeAll v (look (rsets db) k)) (rsets db)\<rparr>),
      SMEMBERS = (\<lambda>db k. look (rsets db) k),
      GET = (\<lambda>db k. map_of (rstrs db) k),
      MGET = (\<lambda>db ks. map (map_of (rstrs db)) ks),
      INCRBY = ref_incrby,
      SETPX = (\<lambda>k v d db. db\<lparr>rstrs := put k v (rstrs db), rttls := put k d (rttls db)\<rparr>),
      EXISTS = ref_exists,
      EXPIRE = (\<lambda>k d db. if ref_exists db k
                         then db\<lparr>rttls := put k (d * 1000) (rttls db)\<rparr> else db),
      PTTL = (\<lambda>db k. map_of (rttls db) k),
      DEL = (\<lambda>ks db. ref_del (\<lambda>k. k \<in> set ks) db),
      ELAPSE = ref_elapse\<rparr>"

lemma map_of_shift: "map_of (map (apsnd f) xs) k = map_option f (map_of xs k)"
  by (induction xs) auto

lemma ref_sel:
  "ZITEMS ref_redis = ref_items" "ZREM ref_redis = ref_zrem" "INCRBY ref_redis = ref_incrby"
  "EXISTS ref_redis = ref_exists" "ELAPSE ref_redis = ref_elapse"
  "SMEMBERS ref_redis db k = look (rsets db) k" "GET ref_redis db k = map_of (rstrs db) k"
  "PTTL ref_redis db k = map_of (rttls db) k"
  by (simp_all add: ref_redis_def)

lemma set_index_range: "set (index_range a b xs) \<subseteq> set xs"
  by (auto simp: index_range_def Let_def dest: in_set_takeD in_set_dropD)

lemma ref_count: "int (length (filter (\<lambda>x. fst x \<in> set ms) (znorm xs))) =
    int (card (members (znorm xs) \<inter> set ms))"
proof -
  have "members (filter (\<lambda>x. fst x \<in> set ms) (znorm xs)) = members (znorm xs) \<inter> set ms"
    by (auto simp: members_def)
  then show ?thesis by (simp add: length_zwf zwf_filter)
qed

interpretation ref: redis_service ref_redis
proof (unfold_locales, goal_cases)
  case 1 show ?case by (simp add: ref_sel ref_items_def)
next
  case (2 k s m db) show ?case by (simp add: ref_sel ref_redis_def ref_items_def set_zput)
next
  case (4 k ms db)
  show ?case
    using znorm_filter_key [of "\<lambda>m. m \<notin> set ms" "look (rzsets db) k"]
    by (simp add: ref_sel ref_zrem_def ref_items_def)
next
  case (5 k ms db) show ?case by (simp add: ref_sel ref_zrem_def ref_items_def ref_count)
next
  case (13 k a b db)
  show ?case
    using znorm_filter_key [of "\<lambda>m. m \<notin> set (map fst (index_range a b (ref_items db k)))" "look (rzsets db) k"]
      zwf_minus [OF zwf_znorm set_index_range, of "look (rzsets db) k" a b]
    by (simp add: ref_sel ref_redis_def ref_zrem_def ref_items_def members_def)
next
  case (20 db k n d)
  then show ?case by (auto simp: ref_sel ref_incrby_def counter_is_def)
next
  case (21 db k n d)
  then show ?case by (auto simp: ref_sel ref_incrby_def counter_is_def)
qed (auto simp: ref_sel ref_redis_def same_at_def gone_at_def ref_items_def ref_zrem_def ref_exists_def
      ref_incrby_def ref_del_def ref_elapse_def Let_def members_def map_of_shift split: option.splits if_splits)

lemmas ref_laws = ref.redis_service_axioms

end
