(* ===== verification/QueueClaims.thy ===== *)
theory QueueClaims
  imports Lifecycle RefRedis
begin

section \<open>What each operation of the queue does\<close>

text \<open>
  The operations of the redis package as their callers see them: the result and the effect on
  the movie's sets, on every branch, for a call that nothing disturbs. The witnesses run the
  executable server.
\<close>

text \<open>Two visitors, one seat, as the server holds them after three commands.\<close>

definition demo_db :: ref_db where
  "demo_db = runs ref_redis 1
     [CEnter ''7'' ''ann'' 10, CEnter ''7'' ''bob'' 20, CEnter ''7'' ''cid'' 30] ref_empty"

lemma demo_sets:
  "acts ref_redis demo_db ''7'' = {''ann''}" "waits ref_redis demo_db ''7'' = {''bob'', ''cid''}"
  "ZCARD ref_redis demo_db (ActiveKey ''7'') = 1"
  "ZITEMS ref_redis demo_db (WaitingKey ''7'') = [(''bob'', 20), (''cid'', 30)]"
  "ZITEMS ref_redis demo_db (ActiveKey ''7'') = [(''ann'', 10)]"
  "ZITEMS ref_redis demo_db (WaitingLastseenKey ''7'') = [(''bob'', 20), (''cid'', 30)]"
  "ZITEMS ref_redis demo_db (PendingKey ''7'') = [(admit_enter ''ann'', 10)]"
proof -
  show w: "ZITEMS ref_redis demo_db (WaitingKey ''7'') = [(''bob'', 20), (''cid'', 30)]" by code_simp
  show a: "ZITEMS ref_redis demo_db (ActiveKey ''7'') = [(''ann'', 10)]" by code_simp
  show "acts ref_redis demo_db ''7'' = {''ann''}" "waits ref_redis demo_db ''7'' = {''bob'', ''cid''}"
    by (simp_all only: w a) (auto simp: members_def)
qed code_simp+

abbreviation calm :: "'db \<Rightarrow> 'db world" where
  "calm db \<equiv> ideal_world db 0"

lemma calm_fields [simp]: "fates (ideal_world db t) = []" "rdb (ideal_world db t) = db"
  "clock (ideal_world db t) = t" "broker (ideal_world db t) = []" "kfates (ideal_world db t) = []"
  by (simp_all add: ideal_world_def)

context redis_service
begin

lemma calm_script:
  assumes "fates w = []" and "\<And>e. fst (cmd (rdb w)) \<noteq> RErr e"
  shows "redis_script cmd w = (Inr (fst (cmd (rdb w))), w\<lparr>rdb := snd (cmd (rdb w))\<rparr>)"
  using assms by (auto simp: redis_script_def calm_call split: reply.splits)

lemma enter_reply:
  "fst (enter_cmd R m q cap now db) =
     (if q \<in> acts R db m then RArray [RInt 1, RBulk ''ALREADY_ACTIVE'', RInt (ZCARD R db (ActiveKey m))]
      else if seats R db m cap q then RArray [RInt 1, RBulk ''ADMITTED'', RInt (ZCARD R db (ActiveKey m) + 1)]
      else RArray [RInt 2, RBulk ''WAITING'',
        RInt (int (zpos (zput (q, now) (ZITEMS R db (WaitingKey m))) q) + 1),
        RInt (int (card (insert q (waits R db m))))])"
  using enter_waits [of q db m cap now] enter_admits [of db m cap q now]
  by (auto simp: enter_active seats_def)

lemma Enter_calm:
  assumes "fates w = []"
  shows "Enter R m q cap now w =
    (Inr (if q \<in> acts R (rdb w) m
          then \<lparr>resStatus = 1, resCode = ''ALREADY_ACTIVE'', resRank = 0,
                resCount = int (card (acts R (rdb w) m))\<rparr>
          else if seats R (rdb w) m cap q
          then \<lparr>resStatus = 1, resCode = ''ADMITTED'', resRank = 0,
                resCount = int (card (acts R (rdb w) m)) + 1\<rparr>
          else \<lparr>resStatus = 2, resCode = ''WAITING'',
                resRank = int (zpos (zput (q, now) (ZITEMS R (rdb w) (WaitingKey m))) q) + 1,
                resCount = int (card (insert q (waits R (rdb w) m)))\<rparr>),
     w\<lparr>rdb := snd (enter_cmd R m q cap now (rdb w))\<rparr>)"
  by (simp add: Enter_def calm_script [OF assms] enter_reply parse_enter_def as_int_def as_str_def
      zcard_card)

lemma map_of_zput: "zwf xs \<Longrightarrow> map_of (zput (q, s) xs) q = Some s"
  by (simp add: zwf_map_of set_zput)

lemma enter_spec:
  assumes "fates w = []" and "Enter R m q cap now w = (r, w')"
  shows "let A = acts R (rdb w) m; W = waits R (rdb w) m; P = pends R (rdb w) m;
             sits = q \<notin> A \<and> q \<notin> W \<and> int (card A) < cap; waiting = q \<notin> A \<and> \<not> sits
    in acts R (rdb w') m = (if sits then insert q A else A) \<and>
       pends R (rdb w') m = (if sits then insert (admit_enter q) P else P) \<and>
       waits R (rdb w') m = (if waiting then insert q W else W) \<and>
       (waiting \<longrightarrow> ZSCORE R (rdb w') (WaitingKey m) q = Some now \<and>
          ZSCORE R (rdb w') (WaitingLastseenKey m) q = Some now) \<and>
       m \<in> tracked R (rdb w') \<and>
       (\<exists>res. r = Inr res \<and> (resCode res = ''ALREADY_ACTIVE'' \<longleftrightarrow> q \<in> A) \<and>
          (resCode res = ''ADMITTED'' \<longleftrightarrow> sits) \<and> (resCode res = ''WAITING'' \<longleftrightarrow> waiting) \<and>
          (resStatus res = 2 \<longleftrightarrow> waiting))"
proof -
  let ?db = "rdb w"
  have r: "r = fst (Enter R m q cap now w)" and w': "rdb w' = snd (enter_cmd R m q cap now ?db)"
    using assms(2) Enter_calm [OF assms(1), of m q cap now] by auto
  consider "q \<in> acts R ?db m" | "seats R ?db m cap q" | "queues R ?db m cap q" "q \<notin> acts R ?db m"
    unfolding seats_def queues_def by linarith
  then show ?thesis
  proof cases
    case 1
    then show ?thesis
      by (simp add: r w' Enter_calm [OF assms(1)] enter_items seats_def queues_def Let_def)
  next
    case 2
    then show ?thesis
      by (simp add: r w' Enter_calm [OF assms(1)] enter_items seats_def queues_def Let_def zcard_card)
  next
    case 3
    then show ?thesis
      by (auto simp: r w' Enter_calm [OF assms(1)] enter_items seats_def queues_def Let_def zcard_card
          zscore_items map_of_zput)
  qed
qed

end

text \<open>C8. Entering: whoever is seated stays so and is told so; a newcomer is seated while a seat is
  free, with the admission journalled in the same step; otherwise the visitor stands in the
  line with the time of entering as score and as last sign of life, one visitor in one place.
  Either way the loops visit the movie from then on.\<close>

theorem enter_outcome:
  assumes "redis_service R" and "fates w = []" and "Enter R m q cap now w = (r, w')"
  shows "let A = acts R (rdb w) m; W = waits R (rdb w) m; P = pends R (rdb w) m;
             sits = q \<notin> A \<and> q \<notin> W \<and> int (card A) < cap; waiting = q \<notin> A \<and> \<not> sits
    in acts R (rdb w') m = (if sits then insert q A else A) \<and>
       pends R (rdb w') m = (if sits then insert (admit_enter q) P else P) \<and>
       waits R (rdb w') m = (if waiting then insert q W else W) \<and>
       (waiting \<longrightarrow> ZSCORE R (rdb w') (WaitingKey m) q = Some now \<and>
          ZSCORE R (rdb w') (WaitingLastseenKey m) q = Some now) \<and>
       m \<in> tracked R (rdb w') \<and>
       (\<exists>res. r = Inr res \<and> (resCode res = ''ALREADY_ACTIVE'' \<longleftrightarrow> q \<in> A) \<and>
          (resCode res = ''ADMITTED'' \<longleftrightarrow> sits) \<and> (resCode res = ''WAITING'' \<longleftrightarrow> waiting) \<and>
          (resStatus res = 2 \<longleftrightarrow> waiting))"
  using assms by (rule redis_service.enter_spec)

lemma enter_outcome_witness:
  "acts ref_redis (rdb (snd (Enter ref_redis ''7'' ''dan'' 2 40 (calm demo_db)))) ''7'' = {''ann'', ''dan''} \<and>
   waits ref_redis (rdb (snd (Enter ref_redis ''7'' ''bob'' 1 40 (calm demo_db)))) ''7'' = {''bob'', ''cid''}"
proof -
  obtain r w' where e: "Enter ref_redis ''7'' ''dan'' 2 40 (calm demo_db) = (r, w')" by fastforce
  obtain s v where f: "Enter ref_redis ''7'' ''bob'' 1 40 (calm demo_db) = (s, v)" by fastforce
  show ?thesis
    using enter_outcome [OF ref_laws _ e] enter_outcome [OF ref_laws _ f]
    by (simp add: e f demo_sets Let_def members_Cons insert_commute)
qed

context redis_service
begin

lemma promote_counter:
  assumes "counter_is R db (PromotedCountKey m) n"
    and "in64 (n + int (length (promote_users R db m cap batch)))"
  shows "fst (promote_cmd R m cap batch now db) = RArray (map RBulk (promote_users R db m cap batch))"
    and "counter_is R (snd (promote_cmd R m cap batch now db)) (PromotedCountKey m)
           (n + int (length (promote_users R db m cap batch)))"
proof -
  let ?us = "promote_users R db m cap batch"
  have "PromotedCountKey m \<notin> {WaitingKey m, ActiveKey m, WaitingLastseenKey m, PendingKey m}"
    by (simp add: key_simps)
  then have "same_at R (seat_users R m now ?us db) db (PromotedCountKey m)"
    by (rule promote_loop_frame)
  with assms(1) have c: "counter_is R (seat_users R m now ?us db) (PromotedCountKey m) n"
    by (simp add: counter_is_def same_at_def)
  note inc = incrby_value [OF c assms(2)]
  show "fst (promote_cmd R m cap batch now db) = RArray (map RBulk ?us)"
    using inc
    by (auto simp: promote_cmd_def promoteScript_def promote_users_def seat_users_def Let_def
        split: prod.splits option.splits if_splits)
  show "counter_is R (snd (promote_cmd R m cap batch now db)) (PromotedCountKey m) (n + int (length ?us))"
    using inc assms by (auto simp: promote_db Let_def counter_is_def)
qed

lemma promote_spec:
  assumes "fates w = []" and "counter_is R (rdb w) (PromotedCountKey m) n"
    and "Promote R m cap batch now w = (r, w')"
  shows "let A = acts R (rdb w) m; line = ZITEMS R (rdb w) (WaitingKey m);
             k = nat (min batch (cap - int (card A))); us = map fst (take k line)
    in acts R (rdb w') m = A \<union> set us \<and>
       ZITEMS R (rdb w') (WaitingKey m) = drop k line \<and>
       lasts R (rdb w') m = lasts R (rdb w) m - set us \<and>
       pends R (rdb w') m = pends R (rdb w) m \<union> admit_promote ` set us \<and>
       int (length us) = max 0 (min batch (min (cap - int (card A)) (int (length line)))) \<and>
       (in64 (n + int (length us)) \<longrightarrow>
          r = Inr us \<and> counter_is R (rdb w') (PromotedCountKey m) (n + int (length us)))"
proof -
  let ?us = "promote_users R (rdb w) m cap batch"
  have w': "rdb w' = snd (promote_cmd R m cap batch now (rdb w))"
  proof -
    have "snd (Promote R m cap batch now w) = snd (redis_call (promote_cmd R m cap batch now) w)"
      by (simp add: Promote_def split_beta split: sum.splits)
    with assms(1,3) show ?thesis by (simp add: calm_call)
  qed
  have us: "?us = map fst (take (nat (min batch (cap - int (card (acts R (rdb w) m)))))
      (ZITEMS R (rdb w) (WaitingKey m)))"
    by (simp add: promote_users_head zcard_card)
  have r: "r = Inr ?us \<and> counter_is R (rdb w') (PromotedCountKey m) (n + int (length ?us))"
    if "in64 (n + int (length ?us))"
    using promote_counter [OF assms(2) that] assms(3)
    by (simp add: w' Promote_def calm_script [OF assms(1)])
  let ?k = "nat (min batch (cap - int (card (acts R (rdb w) m))))"
    and ?line = "ZITEMS R (rdb w) (WaitingKey m)"
  have line: "ZITEMS R (rdb w') (WaitingKey m) = drop ?k ?line"
    using promote_line [of m cap batch now "rdb w"] by (simp add: w' us min_def)
  have "length ?us = min (length ?line) ?k" by (simp add: us)
  then have len: "int (length ?us) =
      max 0 (min batch (min (cap - int (card (acts R (rdb w) m))) (int (length ?line))))" by linarith
  show ?thesis
    unfolding Let_def us [symmetric]
    by (intro conjI impI) (use r line len in \<open>simp_all add: w' promote_members\<close>)
qed

end

text \<open>C10. Promotion seats the visitors at the head of the line, in order, as many as the batch,
  the free seats and the line allow; each gets an admission in the journal in the same step;
  the rest of the line keeps its order, and the counter of promotions grows by their number.\<close>

theorem promote_outcome:
  assumes "redis_service R" and "fates w = []" and "counter_is R (rdb w) (PromotedCountKey m) n"
    and "Promote R m cap batch now w = (r, w')"
  shows "let A = acts R (rdb w) m; line = ZITEMS R (rdb w) (WaitingKey m);
             k = nat (min batch (cap - int (card A))); us = map fst (take k line)
    in acts R (rdb w') m = A \<union> set us \<and>
       ZITEMS R (rdb w') (WaitingKey m) = drop k line \<and>
       lasts R (rdb w') m = lasts R (rdb w) m - set us \<and>
       pends R (rdb w') m = pends R (rdb w) m \<union> admit_promote ` set us \<and>
       int (length us) = max 0 (min batch (min (cap - int (card A)) (int (length line)))) \<and>
       (in64 (n + int (length us)) \<longrightarrow>
          r = Inr us \<and> counter_is R (rdb w') (PromotedCountKey m) (n + int (length us)))"
  using assms by (rule redis_service.promote_spec)

lemma promote_outcome_witness:
  "fst (Promote ref_redis ''7'' 3 1 50 (calm demo_db)) = Inr [''bob''] \<and>
   ZITEMS ref_redis (rdb (snd (Promote ref_redis ''7'' 3 1 50 (calm demo_db)))) (WaitingKey ''7'') =
     [(''cid'', 30)]"
proof -
  obtain r w' where e: "Promote ref_redis ''7'' 3 1 50 (calm demo_db) = (r, w')" by fastforce
  have "counter_is ref_redis (rdb (calm demo_db)) (PromotedCountKey ''7'') 0"
    by (simp add: counter_is_def in64_def) code_simp
  from promote_outcome [OF ref_laws _ this e] show ?thesis
    by (simp add: e demo_sets Let_def in64_def)
qed

context redis_service
begin

lemma position_spec:
  assumes "fates w = []" and "Position R m q now w = (r, w')"
  shows "let A = acts R (rdb w) m; line = ZITEMS R (rdb w) (WaitingKey m);
             ahead = (\<lambda>t. card {x \<in> set line. item_less x (q, t)}) in
    acts R (rdb w') m = A \<and> ZITEMS R (rdb w') (WaitingKey m) = line \<and>
    pends R (rdb w') m = pends R (rdb w) m \<and>
    (if q \<in> A then r = Inr \<lparr>posStatus = ''ADMITTED'', posPosition = 0, posBehind = 0\<rparr>
     else (case map_of line q of
       None \<Rightarrow> r = Inr \<lparr>posStatus = ''EXPIRED'', posPosition = 0, posBehind = 0\<rparr>
     | Some t \<Rightarrow> r = Inr \<lparr>posStatus = ''WAITING'', posPosition = int (ahead t) + 1,
                         posBehind = int (length line) - (int (ahead t) + 1)\<rparr> \<and>
                ahead t < length line \<and>
                ZSCORE R (rdb w') (WaitingLastseenKey m) q = Some now))"
proof -
  let ?db = "rdb w"
  have noerr: "fst (position_cmd R m q now ?db) \<noteq> RErr e" for e
    by (simp add: position_reply Let_def)
  have r: "r = parse_position (fst (position_cmd R m q now ?db))"
    and w': "rdb w' = snd (position_cmd R m q now ?db)"
    using assms(2) by (auto simp: Position_def calm_script assms(1) noerr)
  note same = position_members [of m q now ?db]
  consider "q \<in> acts R ?db m" | "q \<notin> acts R ?db m" "map_of (ZITEMS R ?db (WaitingKey m)) q = None"
    | t where "q \<notin> acts R ?db m" "map_of (ZITEMS R ?db (WaitingKey m)) q = Some t" by fastforce
  then show ?thesis
  proof cases
    case 1
    then show ?thesis
      by (simp add: Let_def w' same r position_reply parse_position_def as_int_def as_str_def)
  next
    case 2
    then have "q \<notin> waits R ?db m" by (simp add: map_of_None_members)
    with 2 show ?thesis
      by (simp add: Let_def w' same r position_reply parse_position_def as_int_def as_str_def)
  next
    case (3 t)
    then have t: "(q, t) \<in> set (ZITEMS R ?db (WaitingKey m))" by (rule_tac map_of_SomeD) simp
    then have q: "q \<in> waits R ?db m" by (auto simp: in_members_iff)
    have p: "zpos (ZITEMS R ?db (WaitingKey m)) q =
        card {x \<in> set (ZITEMS R ?db (WaitingKey m)). item_less x (q, t)}"
      by (rule zpos_eq_card [OF zitems_wf t])
    have seen: "ZSCORE R (snd (position_cmd R m q now ?db)) (WaitingLastseenKey m) q = Some now"
      using 3 q by (simp add: position_db zscore_items map_of_zput)
    have "zpos (ZITEMS R ?db (WaitingKey m)) q < length (ZITEMS R ?db (WaitingKey m))"
      using q by (rule zpos_less)
    with 3 q p seen show ?thesis
      by (simp add: Let_def w' same r position_reply parse_position_def as_int_def as_str_def
          length_zwf)
  qed
qed

end

text \<open>C19. The poll's three answers: seated, waiting with the number of those ahead plus one and
  the number of those behind, which add up to the length of the line, or gone. Asking changes
  nothing but the time of the last poll, and never the order of the line.\<close>

theorem position_outcome:
  assumes "redis_service R" and "fates w = []" and "Position R m q now w = (r, w')"
  shows "let A = acts R (rdb w) m; line = ZITEMS R (rdb w) (WaitingKey m);
             ahead = (\<lambda>t. card {x \<in> set line. item_less x (q, t)}) in
    acts R (rdb w') m = A \<and> ZITEMS R (rdb w') (WaitingKey m) = line \<and>
    pends R (rdb w') m = pends R (rdb w) m \<and>
    (if q \<in> A then r = Inr \<lparr>posStatus = ''ADMITTED'', posPosition = 0, posBehind = 0\<rparr>
     else (case map_of line q of
       None \<Rightarrow> r = Inr \<lparr>posStatus = ''EXPIRED'', posPosition = 0, posBehind = 0\<rparr>
     | Some t \<Rightarrow> r = Inr \<lparr>posStatus = ''WAITING'', posPosition = int (ahead t) + 1,
                         posBehind = int (length line) - (int (ahead t) + 1)\<rparr> \<and>
                ahead t < length line \<and>
                ZSCORE R (rdb w') (WaitingLastseenKey m) q = Some now))"
  using assms by (rule redis_service.position_spec)

lemma position_outcome_witness:
  "fst (Position ref_redis ''7'' ''bob'' 60 (calm demo_db)) =
     Inr \<lparr>posStatus = ''WAITING'', posPosition = 1, posBehind = 1\<rparr>"
proof -
  obtain r w' where e: "Position ref_redis ''7'' ''bob'' 60 (calm demo_db) = (r, w')" by fastforce
  have "{x \<in> set [(''bob'', 20), (''cid'', 30)]. item_less x (''bob'', 20)} = {}"
    by (auto simp: item_less_def)
  with position_outcome [OF ref_laws _ e] show ?thesis
    by (simp add: e demo_sets Let_def members_Cons)
qed

context redis_service
begin

lemma leave_spec:
  assumes "fates w = []" and "Leave R m q now w = (r, w')"
  shows "let A = acts R (rdb w) m; W = waits R (rdb w) m; P = pends R (rdb w) m in
    acts R (rdb w') m = A - {q} \<and> waits R (rdb w') m = W - {q} \<and>
    lasts R (rdb w') m = lasts R (rdb w) m - {q} \<and>
    pends R (rdb w') m = P - {admit_enter q, admit_promote q}
      \<union> (if q \<in> A then {revoke ReasonLeave q} else {}) \<and>
    r = Inr (q \<in> A \<or> q \<in> W)"
proof -
  have noerr: "fst (leave_cmd R m q now (rdb w)) \<noteq> RErr e" for e
    by (simp add: leave_reply)
  show ?thesis
    using assms(2)
    by (auto simp: Leave_def calm_script assms(1) noerr leave_reply reply_int64_def Let_def
        leave_members split: if_splits)
qed

end

text \<open>C20. Leaving takes the visitor out of the seats, the line and the polls, drops an admission
  that was not yet published, and journals a revocation exactly if a seat was given up; the
  result says whether the visitor was there at all.\<close>

theorem leave_outcome:
  assumes "redis_service R" and "fates w = []" and "Leave R m q now w = (r, w')"
  shows "let A = acts R (rdb w) m; W = waits R (rdb w) m; P = pends R (rdb w) m in
    acts R (rdb w') m = A - {q} \<and> waits R (rdb w') m = W - {q} \<and>
    lasts R (rdb w') m = lasts R (rdb w) m - {q} \<and>
    pends R (rdb w') m = P - {admit_enter q, admit_promote q}
      \<union> (if q \<in> A then {revoke ReasonLeave q} else {}) \<and>
    r = Inr (q \<in> A \<or> q \<in> W)"
  using assms by (rule redis_service.leave_spec)

lemma leave_outcome_witness:
  "pends ref_redis (rdb (snd (Leave ref_redis ''7'' ''ann'' 60 (calm demo_db)))) ''7'' =
     {revoke ReasonLeave ''ann''}"
proof -
  obtain r w' where e: "Leave ref_redis ''7'' ''ann'' 60 (calm demo_db) = (r, w')" by fastforce
  from leave_outcome [OF ref_laws _ e] show ?thesis
    by (simp add: e demo_sets Let_def members_Cons)
qed

context redis_service
begin

lemma give_back_spec:
  assumes "fates w = []"
    and "(r, w') = (if asked then ReleaseActive R m q ReasonComplete now w else CompleteActive R m q w)"
  shows "let A = acts R (rdb w) m; P = pends R (rdb w) m in
    acts R (rdb w') m = A - {q} \<and> waits R (rdb w') m = waits R (rdb w) m \<and>
    pends R (rdb w') m = P - {admit_enter q, admit_promote q}
      \<union> (if q \<in> A \<and> asked then {revoke ReasonComplete q} else {}) \<and>
    r = Inr (q \<in> A)"
proof (cases asked)
  case True
  have noerr: "fst (release_cmd R m q ReasonComplete now (rdb w)) \<noteq> RErr e" for e
    by (simp add: release_reply)
  show ?thesis
    using assms(2) True
    by (auto simp: ReleaseActive_def calm_script assms(1) noerr release_reply reply_int64_def
        Let_def release_members)
next
  case False
  then show ?thesis
    using assms(2)
    by (auto simp: CompleteActive_def calm_call [OF assms(1)] Let_def complete_members)
qed

end

text \<open>A seat given back: at the visitor's own request (\<open>asked\<close>) the booking service is owed a
  revocation, which the journal gets in the same step; after a finished booking it is not, and
  the journal gets none. Both drop an unpublished admission, leave the line alone, and do
  nothing for a visitor without a seat.\<close>

lemma give_back_outcome:
  assumes "redis_service R" and "fates w = []"
    and "(r, w') = (if asked then ReleaseActive R m q ReasonComplete now w else CompleteActive R m q w)"
  shows "let A = acts R (rdb w) m; P = pends R (rdb w) m in
    acts R (rdb w') m = A - {q} \<and> waits R (rdb w') m = waits R (rdb w) m \<and>
    pends R (rdb w') m = P - {admit_enter q, admit_promote q}
      \<union> (if q \<in> A \<and> asked then {revoke ReasonComplete q} else {}) \<and>
    r = Inr (q \<in> A)"
  using assms by (rule redis_service.give_back_spec)

lemma give_back_outcome_witness:
  "pends ref_redis (rdb (snd (CompleteActive ref_redis ''7'' ''ann'' (calm demo_db)))) ''7'' = {} \<and>
   pends ref_redis (rdb (snd (ReleaseActive ref_redis ''7'' ''ann'' ReasonComplete 60 (calm demo_db)))) ''7''
     = {revoke ReasonComplete ''ann''}"
proof -
  obtain r w' where e: "CompleteActive ref_redis ''7'' ''ann'' (calm demo_db) = (r, w')" by fastforce
  obtain s v where f: "ReleaseActive ref_redis ''7'' ''ann'' ReasonComplete 60 (calm demo_db) = (s, v)"
    by fastforce
  have "pends ref_redis (rdb w') ''7'' = {}"
    using give_back_outcome [OF ref_laws, of "calm demo_db" r w' False "''7''" "''ann''" 0] e
    by (simp add: demo_sets Let_def members_Cons)
  moreover have "pends ref_redis (rdb v) ''7'' = {revoke ReasonComplete ''ann''}"
    using give_back_outcome [OF ref_laws, of "calm demo_db" s v True "''7''" "''ann''" 60] f
    by (simp add: demo_sets Let_def members_Cons)
  ultimately show ?thesis by (simp add: e f)
qed

end
