(* ===== verification/CleanupClaims.thy ===== *)
theory CleanupClaims
  imports QueueClaims
begin

section \<open>What the clean-ups do\<close>

text \<open>
  The operations the background loops run to take visitors and movies out: the two timeouts,
  the untracking of an idle movie and the reset; and what may happen when a newcomer meets a
  free seat before the next promotion, or a reset is cut into.
\<close>

text \<open>Those whose score is in the range, the oldest thousand of them.\<close>

definition overdue :: "item list \<Rightarrow> int \<Rightarrow> string list" where
  "overdue xs cutoff = map fst (take 1000 (filter (\<lambda>x. 0 \<le> snd x \<and> snd x \<le> cutoff) xs))"

context redis_service
begin

lemma expired_overdue: "expired_users R db m cutoff = overdue (ZITEMS R db (ActiveKey m)) cutoff"
  by (simp add: expired_users_def zrangebyscore_items limited_def overdue_def)

lemma stale_overdue: "stale_users R db m cutoff = overdue (ZITEMS R db (WaitingLastseenKey m)) cutoff"
  by (simp add: stale_users_def zrangebyscore_items limited_def overdue_def)

lemma expire_spec:
  assumes "fates w = []" and "ExpireActive R m cutoff now w = (r, w')"
  shows "let us = overdue (ZITEMS R (rdb w) (ActiveKey m)) cutoff in
    r = Inr us \<and> acts R (rdb w') m = acts R (rdb w) m - set us \<and>
    ZITEMS R (rdb w') (WaitingKey m) = ZITEMS R (rdb w) (WaitingKey m) \<and>
    pends R (rdb w') m = pends R (rdb w) m - admits (set us) \<union> revoke ReasonSessionTimeout ` set us"
proof -
  have noerr: "fst (expire_cmd R m cutoff now (rdb w)) \<noteq> RErr e" for e
    by (simp add: expire_reply)
  show ?thesis
    using assms(2)
    by (auto simp: ExpireActive_def calm_script assms(1) noerr expire_reply Let_def expire_members
        seat_only_lines expired_overdue)
qed

lemma waiting_expire_spec:
  assumes "fates w = []" and "ExpireWaiting R m cutoff w = (r, w')"
  shows "let us = overdue (ZITEMS R (rdb w) (WaitingLastseenKey m)) cutoff in
    r = Inr us \<and> acts R (rdb w') m = acts R (rdb w) m \<and>
    ZITEMS R (rdb w') (WaitingKey m) = zdel us (ZITEMS R (rdb w) (WaitingKey m)) \<and>
    lasts R (rdb w') m = lasts R (rdb w) m - set us \<and> pends R (rdb w') m = pends R (rdb w) m"
proof -
  have noerr: "fst (waiting_expire_cmd R m cutoff (rdb w)) \<noteq> RErr e" for e
    by (simp add: waiting_expire_members)
  show ?thesis
    using assms(2)
    by (auto simp: ExpireWaiting_def runExpire_def calm_script assms(1) noerr Let_def
        waiting_expire_members waiting_expire_line stale_overdue)
qed

end

text \<open>C21. A session timeout ends exactly the sessions begun at or before the cutoff, at most a
  thousand at a time and then the oldest; each gets a revocation in the journal in the same
  step, and an unpublished admission of theirs is dropped. The line is not touched.\<close>

theorem session_timeout_outcome:
  assumes "redis_service R" and "fates w = []" and "ExpireActive R m cutoff now w = (r, w')"
  shows "let us = overdue (ZITEMS R (rdb w) (ActiveKey m)) cutoff in
    r = Inr us \<and> acts R (rdb w') m = acts R (rdb w) m - set us \<and>
    ZITEMS R (rdb w') (WaitingKey m) = ZITEMS R (rdb w) (WaitingKey m) \<and>
    pends R (rdb w') m = pends R (rdb w) m - admits (set us) \<union> revoke ReasonSessionTimeout ` set us"
  using assms by (rule redis_service.expire_spec)

lemma session_timeout_outcome_witness:
  "fst (ExpireActive ref_redis ''7'' 15 70 (calm demo_db)) = Inr [''ann''] \<and>
   pends ref_redis (rdb (snd (ExpireActive ref_redis ''7'' 15 70 (calm demo_db)))) ''7'' =
     {revoke ReasonSessionTimeout ''ann''}"
proof -
  obtain r w' where e: "ExpireActive ref_redis ''7'' 15 70 (calm demo_db) = (r, w')" by fastforce
  from session_timeout_outcome [OF ref_laws _ e] show ?thesis
    by (simp add: e demo_sets Let_def overdue_def members_Cons insert_Diff_if)
qed

text \<open>A waiting timeout takes out exactly the visitors whose last poll was at or before the
  cutoff, of the line and of the polls together; who is left keeps the order. Nothing is
  published for them and no seat is touched.\<close>

lemma waiting_timeout_outcome:
  assumes "redis_service R" and "fates w = []" and "ExpireWaiting R m cutoff w = (r, w')"
  shows "let us = overdue (ZITEMS R (rdb w) (WaitingLastseenKey m)) cutoff in
    r = Inr us \<and> acts R (rdb w') m = acts R (rdb w) m \<and>
    ZITEMS R (rdb w') (WaitingKey m) = zdel us (ZITEMS R (rdb w) (WaitingKey m)) \<and>
    lasts R (rdb w') m = lasts R (rdb w) m - set us \<and> pends R (rdb w') m = pends R (rdb w) m"
  using assms by (rule redis_service.waiting_expire_spec)

lemma waiting_timeout_outcome_witness:
  "fst (ExpireWaiting ref_redis ''7'' 25 (calm demo_db)) = Inr [''bob''] \<and>
   ZITEMS ref_redis (rdb (snd (ExpireWaiting ref_redis ''7'' 25 (calm demo_db)))) (WaitingKey ''7'') =
     [(''cid'', 30)]"
proof -
  obtain r w' where e: "ExpireWaiting ref_redis ''7'' 25 (calm demo_db) = (r, w')" by fastforce
  from waiting_timeout_outcome [OF ref_laws _ e] show ?thesis
    by (simp add: e demo_sets Let_def overdue_def zdel_def)
qed

subsection \<open>Who polls stays\<close>

context redis_service
begin

lemma poll_keeps:
  assumes "waits R db m = lasts R db m" and "q \<in> waits R db m" and "q \<notin> acts R db m" and "cutoff < now"
  shows "q \<in> waits R (exec R cap (CExpireWaiting m cutoff) (exec R cap (CPosition m q now) db)) m"
proof -
  let ?db = "exec R cap (CPosition m q now) db"
  have "ZSCORE R ?db (WaitingLastseenKey m) q = Some now"
    using assms by (simp add: position_db zscore_items map_of_zput)
  then have now: "(q, now) \<in> set (ZITEMS R ?db (WaitingLastseenKey m))"
    by (simp add: zscore_items map_of_SomeD)
  have "q \<notin> set (stale_users R ?db m cutoff)"
  proof
    assume "q \<in> set (stale_users R ?db m cutoff)"
    then obtain s where "(q, s) \<in> set (ZITEMS R ?db (WaitingLastseenKey m))" "s \<le> cutoff"
      by (auto simp: stale_users_def dest!: zrangebyscore_subset)
    with zwf_key_unique [OF zitems_wf _ now] assms(4) show False by fastforce
  qed
  then show ?thesis using assms(2) by (simp add: waiting_expire_members position_members)
qed

end

text \<open>A visitor who polled after the cutoff is not evicted from the line, however long ago the
  place was taken.\<close>

lemma polling_keeps_the_place:
  assumes "redis_service R" and "reachable R cap db" and "0 \<le> cap"
    and "place_of R db m q = InLine" and "cutoff < now"
  shows "place_of R (exec R cap (CExpireWaiting m cutoff) (exec R cap (CPosition m q now) db)) m q = InLine"
proof -
  have "safe R cap db" by (rule redis_service.reachable_inv [OF assms(1-3)])
  then have "lasts R db m = waits R db m" by (simp add: safe_def queue_ok_def)
  moreover have q: "q \<in> waits R db m" "q \<notin> acts R db m"
    using assms(4) by (auto simp: place_of_def split: if_splits)
  ultimately have "q \<in> waits R (exec R cap (CExpireWaiting m cutoff) (exec R cap (CPosition m q now) db)) m"
    by (intro redis_service.poll_keeps [OF assms(1)]) (simp_all add: assms(5))
  with q show ?thesis
    by (simp add: place_of_def redis_service.waiting_expire_members [OF assms(1)]
        redis_service.position_members [OF assms(1)])
qed

lemma fresh_ref_empty: "fresh ref_redis ref_empty"
  by (simp add: fresh_def gone_at_def ref_sel ref_items_def ref_empty_def)

lemma demo_reachable: "reachable ref_redis 1 demo_db"
  unfolding demo_db_def by (rule reachable_runs [OF reachable.init [OF fresh_ref_empty]])

lemma polling_keeps_the_place_witness:
  "place_of ref_redis (exec ref_redis 1 (CExpireWaiting ''7'' 99)
     (exec ref_redis 1 (CPosition ''7'' ''bob'' 100) demo_db)) ''7'' ''bob'' = InLine"
  by (rule polling_keeps_the_place [OF ref_laws demo_reachable])
    (simp_all add: place_of_def demo_sets members_Cons)

subsection \<open>Tracking and reset\<close>

context redis_service
begin

lemma untrack_spec:
  assumes "fates w = []" and "UntrackIfIdle R m w = (r, w')"
  shows "r = Inr (idle R (rdb w) m) \<and>
    tracked R (rdb w') = tracked R (rdb w) - (if idle R (rdb w) m then {m} else {}) \<and>
    (\<forall>m'. acts R (rdb w') m' = acts R (rdb w) m' \<and> waits R (rdb w') m' = waits R (rdb w) m' \<and>
       pends R (rdb w') m' = pends R (rdb w) m')"
proof -
  have f: "fst (untrack_cmd R m (rdb w)) = RInt (if idle R (rdb w) m then 1 else 0)"
    by (simp add: untrack_cmd_def untrackScript_def idle_def Let_def zcard_0_iff)
  then have noerr: "fst (untrack_cmd R m (rdb w)) \<noteq> RErr e" for e by simp
  show ?thesis
    using assms(2)
    by (auto simp: UntrackIfIdle_def calm_script assms(1) noerr f reply_int64_def untrack_members)
qed

lemma movies_spec:
  assumes "fates w = []" and "all_visited R (rdb w)"
  shows "\<exists>ms. ActiveQueueMovies R w = (Inr ms, w) \<and> distinct ms \<and>
    (\<forall>m. m \<notin> set ms \<longrightarrow> acts R (rdb w) m = {} \<and> waits R (rdb w) m = {} \<and> pends R (rdb w) m = {})"
  using assms
  by (auto simp: ActiveQueueMovies_def calm_read all_visited_def visited_def idle_def)

end

text \<open>C27. The loops miss nothing: in every database that arises with resets left whole, the list
  the loops work through names each movie once, and a movie it does not name has nobody seated,
  nobody waiting and nothing to publish.\<close>

theorem loops_visit_every_queue:
  assumes "redis_service R" and "reachable_undisturbed R cap (rdb w)" and "0 \<le> cap" and "fates w = []"
  shows "\<exists>ms. ActiveQueueMovies R w = (Inr ms, w) \<and> distinct ms \<and>
    (\<forall>m. m \<notin> set ms \<longrightarrow> acts R (rdb w) m = {} \<and> waits R (rdb w) m = {} \<and> pends R (rdb w) m = {})"
  using redis_service.movies_spec [OF assms(1,4)]
    redis_service.reachable_undisturbed_inv [OF assms(1,2,3)] by blast

lemma undisturbed_runs:
  "reachable_undisturbed R cap db \<Longrightarrow> (\<And>m. CResetActive m \<notin> set cs) \<Longrightarrow>
     reachable_undisturbed R cap (runs R cap cs db)"
proof (induction cs arbitrary: db)
  case (Cons c cs)
  have "undisturbed R c db" using Cons.prems(2) by (cases c) auto
  with Cons show ?case by (auto intro: step_undisturbed)
qed simp

lemma loops_visit_every_queue_witness:
  "\<exists>ms. ActiveQueueMovies ref_redis (calm demo_db) = (Inr ms, calm demo_db) \<and> ''7'' \<in> set ms"
proof -
  have "reachable_undisturbed ref_redis 1 demo_db"
    unfolding demo_db_def
    by (rule undisturbed_runs [OF reachable_undisturbed.init_undisturbed [OF fresh_ref_empty]]) auto
  then obtain ms where "ActiveQueueMovies ref_redis (calm demo_db) = (Inr ms, calm demo_db)"
    and "\<forall>m. m \<notin> set ms \<longrightarrow> acts ref_redis demo_db m = {}"
    using loops_visit_every_queue [OF ref_laws, of 1 "calm demo_db"] by auto
  then show ?thesis using demo_sets(1) by force
qed

text \<open>A movie is taken off the loops' list exactly if it is idle at that moment, the result says
  so, and no visitor or journal entry of any movie is touched by it.\<close>

lemma untrack_outcome:
  assumes "redis_service R" and "fates w = []" and "UntrackIfIdle R m w = (r, w')"
  shows "r = Inr (idle R (rdb w) m) \<and>
    tracked R (rdb w') = tracked R (rdb w) - (if idle R (rdb w) m then {m} else {}) \<and>
    (\<forall>m'. acts R (rdb w') m' = acts R (rdb w) m' \<and> waits R (rdb w') m' = waits R (rdb w) m' \<and>
       pends R (rdb w') m' = pends R (rdb w) m')"
  using assms by (rule redis_service.untrack_spec)

lemma untrack_outcome_witness:
  "fst (UntrackIfIdle ref_redis ''7'' (calm demo_db)) = Inr False \<and>
   fst (UntrackIfIdle ref_redis ''8'' (calm demo_db)) = Inr True"
proof -
  obtain r w' where e: "UntrackIfIdle ref_redis ''7'' (calm demo_db) = (r, w')" by fastforce
  obtain s v where f: "UntrackIfIdle ref_redis ''8'' (calm demo_db) = (s, v)" by fastforce
  have "ZITEMS ref_redis demo_db (ActiveKey ''8'') = []"
    "ZITEMS ref_redis demo_db (WaitingKey ''8'') = []"
    "ZITEMS ref_redis demo_db (PendingKey ''8'') = []"
    by code_simp+
  then show ?thesis
    using untrack_outcome [OF ref_laws _ e] untrack_outcome [OF ref_laws _ f]
    by (simp add: e f demo_sets idle_def)
qed

context redis_service
begin

lemma reset_pipe_calm:
  assumes "fates w = []"
  shows "Reset R m sec w =
    (Inr (), w\<lparr>rdb := SREM R WaitingMoviesKey m (SREM R ActiveMoviesKey m (DEL R (reset_keys m sec) (rdb w)))\<rparr>)"
  using assms by (cases w)
    (simp add: Reset_def redis_pipe_def next_fate_def reset_pipe_def pure_cmd_def gap_def)

lemma reset_spec:
  assumes "fates w = []" and "Reset R m sec w = (r, w')"
  shows "r = Inr () \<and> place_of R (rdb w') m q = Outside \<and> idle R (rdb w') m \<and>
    m \<notin> tracked R (rdb w') \<and> GET R (rdb w') (PromotedCountKey m) = None \<and>
    ZITEMS R (rdb w') (EventsKey m) = [] \<and> GET R (rdb w') (EventsIDKey m) = None \<and>
    (0 \<le> i \<and> i < rateBucketTTL \<longrightarrow> GET R (rdb w') (RateBucketKey m (sec - i)) = None)"
proof -
  have w': "rdb w' = SREM R WaitingMoviesKey m (SREM R ActiveMoviesKey m (DEL R (reset_keys m sec) (rdb w)))"
    and r: "r = Inr ()"
    using assms(2) by (auto simp: reset_pipe_calm [OF assms(1)])
  have k: "ActiveMoviesKey \<noteq> WaitingMoviesKey" "PromotedCountKey m \<noteq> ActiveMoviesKey"
    "PromotedCountKey m \<noteq> WaitingMoviesKey" "EventsKey m \<noteq> ActiveMoviesKey"
    "EventsKey m \<noteq> WaitingMoviesKey" "EventsIDKey m \<noteq> ActiveMoviesKey"
    "EventsIDKey m \<noteq> WaitingMoviesKey" "RateBucketKey m t \<noteq> ActiveMoviesKey"
    "RateBucketKey m t \<noteq> WaitingMoviesKey" for t
    by (simp_all add: key_simps)
  have b: "RateBucketKey m (sec - i) \<in> set (reset_keys m sec)" if "0 \<le> i \<and> i < rateBucketTTL"
    using that by (auto simp: reset_keys_def)
  show ?thesis
    using b by (auto simp: r w' place_of_def idle_def single_commands reset_del_movie srem_members k)
qed

lemma reset_cut_spec:
  assumes "1 \<le> cap" and "fates w = [Fate [] [id, exec R cap (CEnter m q t)] True]"
    and "Reset R m sec w = (r, w')"
  shows "r = Inr () \<and> place_of R (rdb w') m q = Seated \<and> admit_enter q \<in> pends R (rdb w') m \<and>
    (\<exists>ms. ActiveQueueMovies R w' = (Inr ms, w') \<and> m \<notin> set ms)"
proof -
  let ?db = "DEL R (reset_keys m sec) (rdb w)"
  have e: "seats R ?db m cap q"
    using assms(1) by (simp add: seats_def reset_del_movie zcard_items)
  have w': "rdb w' = SREM R WaitingMoviesKey m (SREM R ActiveMoviesKey m (snd (enter_cmd R m q cap t ?db)))"
    "r = Inr ()" "fates w' = []"
    using assms(2,3)
    by (auto simp: Reset_def redis_pipe_def next_fate_def reset_pipe_def pure_cmd_def gap_def Let_def)
  have k: "ActiveMoviesKey \<noteq> WaitingMoviesKey" by (simp add: key_simps)
  have "m \<notin> set (SMEMBERS R (rdb w') ActiveMoviesKey)" "m \<notin> set (SMEMBERS R (rdb w') WaitingMoviesKey)"
    using k by (simp_all add: w' srem_members)
  then show ?thesis
    using e by (simp add: w' place_of_def single_commands enter_items ActiveQueueMovies_def calm_read)
qed

end

text \<open>A reset that nothing cuts into leaves the movie as if it had never been used: nobody in
  it, no journal, no feed, no counters, none of the rate buckets that can still be read, and
  the loops no longer visit it.\<close>

lemma reset_outcome:
  assumes "redis_service R" and "fates w = []" and "Reset R m sec w = (r, w')"
  shows "r = Inr () \<and> place_of R (rdb w') m q = Outside \<and> idle R (rdb w') m \<and>
    m \<notin> tracked R (rdb w') \<and> GET R (rdb w') (PromotedCountKey m) = None \<and>
    ZITEMS R (rdb w') (EventsKey m) = [] \<and> GET R (rdb w') (EventsIDKey m) = None \<and>
    (0 \<le> i \<and> i < rateBucketTTL \<longrightarrow> GET R (rdb w') (RateBucketKey m (sec - i)) = None)"
  using assms by (rule redis_service.reset_spec)

lemma reset_outcome_witness:
  "place_of ref_redis (rdb (snd (Reset ref_redis ''7'' 5 (calm demo_db)))) ''7'' ''ann'' = Outside"
  using reset_outcome [OF ref_laws, of "calm demo_db" "''7''" 5 _ _ "''ann''" 0]
  by (cases "Reset ref_redis ''7'' 5 (calm demo_db)") simp

text \<open>C28. The reset is a plain pipeline, and a visitor who enters between its first command and its
  second keeps the seat, and the journal entry of the admission, in a movie that the list the
  loops work through does not name: none of them visits it until somebody enters again.\<close>

theorem reset_can_lose_a_movie:
  assumes "redis_service R" and "1 \<le> cap"
    and "fates w = [Fate [] [id, exec R cap (CEnter m q t)] True]" and "Reset R m sec w = (r, w')"
  shows "r = Inr () \<and> place_of R (rdb w') m q = Seated \<and> admit_enter q \<in> pends R (rdb w') m \<and>
    (\<exists>ms. ActiveQueueMovies R w' = (Inr ms, w') \<and> m \<notin> set ms)"
  using assms by (rule redis_service.reset_cut_spec)

lemma reset_can_lose_a_movie_witness:
  "\<exists>r w'. Reset ref_redis ''7'' 5
     ((calm demo_db)\<lparr>fates := [Fate [] [id, exec ref_redis 1 (CEnter ''7'' ''eve'' 80)] True]\<rparr>) = (r, w') \<and>
   place_of ref_redis (rdb w') ''7'' ''eve'' = Seated"
proof -
  let ?w = "(calm demo_db)\<lparr>fates := [Fate [] [id, exec ref_redis 1 (CEnter ''7'' ''eve'' 80)] True]\<rparr>"
  obtain r w' where e: "Reset ref_redis ''7'' 5 ?w = (r, w')" by fastforce
  show ?thesis
    using reset_can_lose_a_movie [OF ref_laws _ _ e, of 1 "''eve''" 80] by (simp add: e)
qed

end
