(* ===== verification/LineClaims.thy ===== *)
theory LineClaims
  imports CleanupClaims
begin

section \<open>The line, the visitors and the movies under any commands\<close>

text \<open>
  The properties of whole runs: each command against the specification of \<open>Line\<close>, fairness
  among those who wait and where it ends, the state machine of a visitor, and the independence
  of movies.
\<close>

text \<open>C6. Refinement: on the queue of any movie, every command of the program is a step of the
  specification: an \<open>enter\<close> into that movie seats the visitor, puts the visitor somewhere into the
  line or leaves a seated visitor alone, and every other command is a service step. If the clock of the
  pod is past the scores in the line, the place of the newcomer is the last one.\<close>

theorem commands_refine_the_line:
  assumes "redis_service R" and "reachable R cap db" and "0 \<le> cap"
  shows "case comes m c of
    Some q \<Rightarrow> enters cap q (abs_queue R db m) (abs_queue R (exec R cap c db) m) \<and>
      (timely R c db \<longrightarrow> arrives cap q (abs_queue R db m) (abs_queue R (exec R cap c db) m))
  | None \<Rightarrow> serves cap (abs_queue R db m) (abs_queue R (exec R cap c db) m)"
proof -
  have "astep cap (comes m c) (abs_queue R db m) (abs_queue R (exec R cap c db) m)"
    using redis_service.reachable_inv [OF assms]
    by (intro redis_service.exec_astep [OF assms(1)]) (simp add: safe_def)
  then show ?thesis
    using redis_service.exec_arrives [OF assms(1)] by (cases "comes m c") (simp_all add: astep_def)
qed

lemma commands_refine_the_line_witness:
  "arrives 1 ''dan'' (abs_queue ref_redis demo_db ''7'')
     (abs_queue ref_redis (exec ref_redis 1 (CEnter ''7'' ''dan'' 40) demo_db) ''7'')"
  using commands_refine_the_line [OF ref_laws demo_reachable, of "''7''" "CEnter ''7'' ''dan'' 40"]
  by (simp add: demo_sets del: exec.simps)

text \<open>C12. Fairness in the line: as long as neither of the two enters again, whoever stands behind
  another is not seated before the other has left the line, whatever commands run, for this
  movie and others, and whatever clocks the pods that run them have.\<close>

theorem nobody_behind_overtakes:
  assumes "redis_service R" and "reachable R cap db" and "0 \<le> cap"
    and "line (abs_queue R db m) = xs @ q # ys @ r # zs"
    and "\<forall>c\<in>set cs. comes m c \<noteq> Some q \<and> comes m c \<noteq> Some r"
    and "q \<in> waits R (runs R cap cs db) m"
  shows "r \<notin> acts R (runs R cap cs db) m"
proof -
  note inv = redis_service.reachable_inv [OF assms(1-3)]
  have d: "distinct (xs @ q # ys @ r # zs)"
    using redis_service.distinct_line [OF assms(1), of db m] by (simp add: assms(4))
  have "r \<in> waits R db m" using redis_service.set_line [OF assms(1), of db m] by (auto simp: assms(4))
  with inv have "r \<notin> acts R db m" by (auto simp: safe_def queue_ok_def)
  moreover have "before_in (xs @ q # ys @ r # zs) q r"
    using d by (auto simp: before_in_def takeWhile_append)
  ultimately have "not_overtaken (abs_queue R db m) q r"
    by (simp add: not_overtaken_def assms(4)) (simp add: abs_queue_def)
  then have "not_overtaken (abs_queue R (runs R cap cs db) m) q r"
    using redis_service.runs_not_overtaken [OF assms(1) inv assms(3)] assms(5) by simp
  with assms(6) show ?thesis
    using redis_service.set_line [OF assms(1), of "runs R cap cs db" m]
    by (simp add: not_overtaken_def) (simp add: abs_queue_def)
qed

text \<open>In the example \<open>dan\<close> comes by a pod that is behind and takes the first place in the line and
  with it the seat \<open>ann\<close> gives up; \<open>bob\<close> waits on, so \<open>cid\<close> has no seat either.\<close>

lemma nobody_behind_overtakes_witness:
  "''cid'' \<notin> acts ref_redis (runs ref_redis 1
     [CEnter ''7'' ''dan'' 15, CLeave ''7'' ''ann'' 40, CPromote ''7'' 1 50] demo_db) ''7''"
proof (rule nobody_behind_overtakes [OF ref_laws demo_reachable])
  let ?cs = "[CEnter ''7'' ''dan'' 15, CLeave ''7'' ''ann'' 40, CPromote ''7'' 1 50]"
  show "line (abs_queue ref_redis demo_db ''7'') = [] @ ''bob'' # [] @ ''cid'' # []"
    by (simp add: abs_queue_def demo_sets)
  have "ZITEMS ref_redis (runs ref_redis 1 ?cs demo_db) (WaitingKey ''7'') = [(''bob'', 20), (''cid'', 30)]"
    by code_simp
  then show "''bob'' \<in> waits ref_redis (runs ref_redis 1 ?cs demo_db) ''7''"
    by (simp add: members_Cons del: runs_simps)
qed simp_all

context redis_service
begin

lemma overtaking_run:
  assumes "fresh R db" and "distinct [a, b, c]"
  shows "let db' = runs R 1 [CEnter m a t1, CEnter m b t2, CLeave m a t3, CEnter m c t4] db
    in place_of R db' m b = InLine \<and> place_of R db' m c = Seated"
proof -
  define d1 where "d1 = snd (enter_cmd R m a 1 t1 db)"
  define d2 where "d2 = snd (enter_cmd R m b 1 t2 d1)"
  define d3 where "d3 = snd (leave_cmd R m a t3 d2)"
  have empty: "acts R db m = {}" "waits R db m = {}"
    using assms(1) by (simp_all add: fresh_def gone_at_def)
  have 1: "acts R d1 m = {a}" "waits R d1 m = {}"
    using empty by (simp_all add: d1_def enter_items seats_def queues_def zcard_card)
  have 2: "acts R d2 m = {a}" "waits R d2 m = {b}"
    using 1 assms(2) by (auto simp: d2_def enter_items seats_def queues_def zcard_card)
  have 3: "acts R d3 m = {}" "waits R d3 m = {b}"
    using 2 assms(2) by (auto simp: d3_def leave_members)
  have "acts R (snd (enter_cmd R m c 1 t4 d3)) m = {c}"
    "waits R (snd (enter_cmd R m c 1 t4 d3)) m = {b}"
    using 3 assms(2) by (auto simp: enter_items seats_def queues_def zcard_card)
  with assms(2) show ?thesis
    by (simp add: place_of_def Let_def d1_def d2_def d3_def)
qed

end

text \<open>Where fairness ends: between a seat becoming free and the next promotion, a newcomer is
  seated at once, past everybody in the line.\<close>

lemma newcomer_passes_the_line:
  assumes "redis_service R" and "fresh R db" and "distinct [a, b, c]"
  shows "let db' = runs R 1 [CEnter m a t1, CEnter m b t2, CLeave m a t3, CEnter m c t4] db
    in place_of R db' m b = InLine \<and> place_of R db' m c = Seated"
  using assms by (rule redis_service.overtaking_run)

lemma newcomer_passes_the_line_witness:
  "place_of ref_redis (runs ref_redis 1 [CEnter ''7'' ''a'' 1, CEnter ''7'' ''b'' 2,
     CLeave ''7'' ''a'' 3, CEnter ''7'' ''c'' 4] ref_empty) ''7'' ''c'' = Seated"
  using newcomer_passes_the_line [OF ref_laws fresh_ref_empty, of "''a''" "''b''" "''c''" "''7''" 1 2 3 4]
  by (simp add: Let_def del: runs_simps)

context redis_service
begin

lemma place_spec:
  assumes "fates w = []" and "q \<notin> acts R (rdb w) m"
    and "q \<in> waits R (rdb w) m \<or> cap \<le> int (card (acts R (rdb w) m))"
    and "Enter R m q cap now w = (r, w')"
  shows "let others = filter (\<lambda>x. fst x \<noteq> q) (ZITEMS R (rdb w) (WaitingKey m));
             ahead = filter (\<lambda>(p, s). s < now \<or> s = now \<and> p < q) others;
             behind = filter (\<lambda>(p, s). now < s \<or> s = now \<and> q < p) others
    in ZITEMS R (rdb w') (WaitingKey m) = ahead @ (q, now) # behind \<and>
       r = Inr \<lparr>resStatus = 2, resCode = ''WAITING'', resRank = int (length ahead) + 1,
                 resCount = int (length others) + 1\<rparr>"
proof -
  let ?W = "ZITEMS R (rdb w) (WaitingKey m)"
  let ?ys = "filter (\<lambda>x. fst x \<noteq> q) ?W"
  let ?a = "filter (\<lambda>(p, s). s < now \<or> s = now \<and> p < q) ?ys"
  let ?b = "filter (\<lambda>(p, s). now < s \<or> s = now \<and> q < p) ?ys"
  have queues: "queues R (rdb w) m cap q" "\<not> seats R (rdb w) m cap q"
    using assms(2,3) by (auto simp: queues_def seats_def zcard_card)
  have put: "zput (q, now) ?W = ?a @ (q, now) # ?b"
    by (simp add: zput_split Let_def item_less_def split_beta eq_commute [of now])
  have "zpos (zput (q, now) ?W) q = length ?a"
    unfolding put by (rule zpos_middle) (auto simp: members_def)
  moreover have "card (insert q (waits R (rdb w) m)) = length ?ys + 1"
  proof -
    have "members ?ys = waits R (rdb w) m - {q}" by (auto simp: members_def)
    then have "length ?ys = card (waits R (rdb w) m - {q})"
      using length_zwf [OF zwf_filter [OF zitems_wf]] by metis
    then show ?thesis by (simp add: card.insert_remove)
  qed
  ultimately show ?thesis
    using assms(4) queues assms(2)
    by (auto simp: Enter_calm [OF assms(1)] enter_items put Let_def)
qed

end

text \<open>C11. The clock decides the place: whoever enters and has to wait stands behind those whose score
  is smaller, or equal with a smaller identifier, and in front of all others, whenever these
  came, and is told so. A visitor served by a pod whose clock lags is put ahead of earlier ones,
  and two who come in the same millisecond stand in the order of their identifiers.\<close>

theorem the_clock_decides_the_place:
  assumes "redis_service R" and "fates w = []" and "q \<notin> acts R (rdb w) m"
    and "q \<in> waits R (rdb w) m \<or> cap \<le> int (card (acts R (rdb w) m))"
    and "Enter R m q cap now w = (r, w')"
  shows "let others = filter (\<lambda>x. fst x \<noteq> q) (ZITEMS R (rdb w) (WaitingKey m));
             ahead = filter (\<lambda>(p, s). s < now \<or> s = now \<and> p < q) others;
             behind = filter (\<lambda>(p, s). now < s \<or> s = now \<and> q < p) others
    in ZITEMS R (rdb w') (WaitingKey m) = ahead @ (q, now) # behind \<and>
       r = Inr \<lparr>resStatus = 2, resCode = ''WAITING'', resRank = int (length ahead) + 1,
                 resCount = int (length others) + 1\<rparr>"
  using assms by (rule redis_service.place_spec)

text \<open>The line of the example is \<open>bob\<close>, then \<open>cid\<close>; \<open>dan\<close> comes last, by a pod that is behind.\<close>

lemma the_clock_decides_the_place_witness:
  "\<exists>r w'. Enter ref_redis ''7'' ''dan'' 1 15 (calm demo_db) = (r, w') \<and>
     map fst (ZITEMS ref_redis (rdb w') (WaitingKey ''7'')) = [''dan'', ''bob'', ''cid'']"
proof -
  obtain r w' where e: "Enter ref_redis ''7'' ''dan'' 1 15 (calm demo_db) = (r, w')" by fastforce
  show ?thesis
    using the_clock_decides_the_place [OF ref_laws _ _ _ e]
    by (simp add: e demo_sets Let_def members_Cons)
qed

text \<open>C15. The state machine of a visitor: in any reachable database a command leaves a visitor where
  he is or makes one of the moves of \<open>moves\<close>; in particular nobody gets a seat but by entering
  or from the line, and nobody goes from a seat back into the line.\<close>

theorem visitors_follow_the_life_cycle:
  assumes "redis_service R" and "reachable R cap db" and "0 \<le> cap"
    and "place_of R (exec R cap c db) m q \<noteq> place_of R db m q"
  shows "moves m q c (place_of R db m q) (place_of R (exec R cap c db) m q) \<and>
    (place_of R db m q = Seated \<longrightarrow> place_of R (exec R cap c db) m q = Outside) \<and>
    (place_of R (exec R cap c db) m q = Seated \<longrightarrow>
       (\<exists>now. c = CEnter m q now) \<and> place_of R db m q = Outside \<or>
       (\<exists>b now. c = CPromote m b now) \<and> place_of R db m q = InLine)"
proof -
  have "moves m q c (place_of R db m q) (place_of R (exec R cap c db) m q)"
    using redis_service.exec_moves [OF assms(1) redis_service.reachable_inv [OF assms(1-3)]] assms(4)
    by blast
  then show ?thesis by (auto elim: moves.cases)
qed

lemma visitors_follow_the_life_cycle_witness:
  "moves ''7'' ''ann'' (CLeave ''7'' ''ann'' 50) Seated Outside"
proof -
  have "place_of ref_redis demo_db ''7'' ''ann'' = Seated"
    by (simp add: place_of_def demo_sets)
  moreover have "place_of ref_redis (exec ref_redis 1 (CLeave ''7'' ''ann'' 50) demo_db) ''7'' ''ann'' = Outside"
    by (simp add: place_of_def redis_service.leave_members [OF ref_laws] demo_sets members_Cons)
  ultimately show ?thesis
    using visitors_follow_the_life_cycle [OF ref_laws demo_reachable, of "CLeave ''7'' ''ann'' 50" "''7''" "''ann''"]
    by simp
qed

text \<open>Movies are independent: a command for one movie leaves the seats, the line, the polls, the
  journal and the counter of every other exactly as they were, whatever the two identifiers
  are.\<close>

lemma movies_are_independent:
  assumes "redis_service R" and "cmd_movie c = Some m" and "m' \<noteq> m"
    and "k \<in> {ActiveKey m', WaitingKey m', WaitingLastseenKey m', PendingKey m', PromotedCountKey m'}"
  shows "same_at R (exec R cap c db) db k"
  using assms by (rule redis_service.movie_frame)

lemma movies_are_independent_witness:
  "ZITEMS ref_redis (exec ref_redis 1 (CResetDel ''7}'' 5) demo_db) (ActiveKey ''7'') = [(''ann'', 10)]"
  using movies_are_independent [OF ref_laws, of "CResetDel ''7}'' 5" "''7}''" "''7''" "ActiveKey ''7''" 1 demo_db]
  by (simp add: same_at_def demo_sets)

end
