(* ===== verification/Waiting.thy ===== *)
theory Waiting
  imports LineClaims
begin

section \<open>How long a visitor waits\<close>

text \<open>
  A bound on the wait over whole runs. \<open>ahead\<close> counts the visitors before somebody in the line,
  \<open>offered\<close> the seats a promotion offers to the line. Only a newcomer served by a pod whose clock is
  not past the scores in the line can come before a visitor who waits (\<open>untimely\<close>), and every seat
  offered takes one away, so the visitor is out of the line once more seats have been offered
  than there were people ahead and such newcomers since.
\<close>

definition ahead :: "string list \<Rightarrow> string \<Rightarrow> nat" where
  "ahead xs q = length (takeWhile (\<lambda>x. x \<noteq> q) xs)"

fun offered :: "'db redis \<Rightarrow> int \<Rightarrow> string \<Rightarrow> cmd \<Rightarrow> 'db \<Rightarrow> nat" where
  "offered R cap m (CPromote m' batch now) db =
     (if m' = m then nat (min batch (cap - int (card (acts R db m)))) else 0)"
| "offered R cap m _ db = 0"

fun offered_in :: "'db redis \<Rightarrow> int \<Rightarrow> string \<Rightarrow> cmd list \<Rightarrow> 'db \<Rightarrow> nat" where
  "offered_in R cap m [] db = 0"
| "offered_in R cap m (c # cs) db = offered R cap m c db + offered_in R cap m cs (exec R cap c db)"

text \<open>The arrivals that a pod with a lagging clock serves.\<close>

definition untimely :: "'db redis \<Rightarrow> string \<Rightarrow> cmd \<Rightarrow> 'db \<Rightarrow> nat" where
  "untimely R m c db = (if comes m c \<noteq> None \<and> \<not> timely R c db then 1 else 0)"

fun untimely_in :: "'db redis \<Rightarrow> int \<Rightarrow> string \<Rightarrow> cmd list \<Rightarrow> 'db \<Rightarrow> nat" where
  "untimely_in R cap m [] db = 0"
| "untimely_in R cap m (c # cs) db = untimely R m c db + untimely_in R cap m cs (exec R cap c db)"

text \<open>The commands that take a visitor out of the line without a seat.\<close>

fun takes_out :: "string \<Rightarrow> string \<Rightarrow> cmd \<Rightarrow> bool" where
  "takes_out m q (CLeave m' p now) = (m' = m \<and> p = q)"
| "takes_out m q (CExpireWaiting m' cutoff) = (m' = m)"
| "takes_out m q (CResetDel m' sec) = (m' = m)"
| "takes_out m q _ = False"

lemma ahead_simps [simp]:
  "ahead [] q = 0" "ahead (x # xs) q = (if x = q then 0 else Suc (ahead xs q))"
  by (simp_all add: ahead_def)

lemma ahead_append: "q \<in> set xs \<Longrightarrow> ahead (xs @ ys) q = ahead xs q"
  by (induction xs) auto

lemma ahead_insert: "q \<in> set (us @ vs) \<Longrightarrow> p \<noteq> q \<Longrightarrow> ahead (us @ p # vs) q \<le> Suc (ahead (us @ vs) q)"
  by (induction us) auto

lemma ahead_filter: "P q \<Longrightarrow> ahead (filter P xs) q \<le> ahead xs q"
  by (induction xs) auto

lemma ahead_drop:
  "q \<in> set xs \<Longrightarrow> q \<notin> set (take n xs) \<Longrightarrow> ahead (drop n xs) q + n = ahead xs q"
proof (induction xs arbitrary: n)
  case (Cons x xs)
  then show ?case by (cases n) auto
qed simp

subsection \<open>One step of the specification\<close>

lemma arrives_ahead:
  assumes "arrives cap p a b" and "p \<noteq> q"
  shows "q \<in> set (line b) \<longleftrightarrow> q \<in> set (line a)"
    and "q \<in> set (line a) \<Longrightarrow> ahead (line b) q \<le> ahead (line a) q"
proof -
  have "ahead (removeAll p (line a) @ [p]) q \<le> ahead (line a) q" if "q \<in> set (line a)"
    using that assms(2) ahead_filter [of "\<lambda>x. p \<noteq> x" q "line a"]
    by (simp add: ahead_append removeAll_filter_not_eq)
  with assms show "q \<in> set (line b) \<longleftrightarrow> q \<in> set (line a)"
    and "q \<in> set (line a) \<Longrightarrow> ahead (line b) q \<le> ahead (line a) q"
    by (auto elim!: arrivesE)
qed

lemma enters_ahead:
  assumes "enters cap p a b" and "p \<noteq> q"
  shows "q \<in> set (line b) \<longleftrightarrow> q \<in> set (line a)"
    and "q \<in> set (line a) \<Longrightarrow> ahead (line b) q \<le> Suc (ahead (line a) q)"
proof -
  have "(q \<in> set (line b) \<longleftrightarrow> q \<in> set (line a)) \<and>
    (q \<in> set (line a) \<longrightarrow> ahead (line b) q \<le> Suc (ahead (line a) q))"
    using assms(1)
  proof (cases rule: enters.cases)
    case (enters_line us vs)
    have "set us \<union> set vs = set (line a) - {p}" using arg_cong [OF enters_line(4), of set] by simp
    with assms(2) have m: "q \<in> set (us @ vs) \<longleftrightarrow> q \<in> set (line a)" by auto
    moreover have "ahead (us @ p # vs) q \<le> Suc (ahead (line a) q)" if "q \<in> set (line a)"
      using ahead_insert [of q us vs p] ahead_filter [of "\<lambda>x. p \<noteq> x" q "line a"] that m assms(2)
      by (simp add: enters_line(4) removeAll_filter_not_eq)
    ultimately show ?thesis using enters_line(1) assms(2) by auto
  qed simp_all
  then show "q \<in> set (line b) \<longleftrightarrow> q \<in> set (line a)"
    and "q \<in> set (line a) \<Longrightarrow> ahead (line b) q \<le> Suc (ahead (line a) q)"
    by simp_all
qed

lemma serves_ahead:
  assumes "serves cap a b" and "distinct (line a)" and "q \<in> set (line b)"
  shows "q \<in> set (line a)" and "ahead (line b) q \<le> ahead (line a) q"
proof -
  have "q \<in> set (line a) \<and> ahead (line b) q \<le> ahead (line a) q"
    using assms(1)
  proof (cases rule: serves.cases)
    case (advance n)
    then have q: "q \<in> set (drop n (line a))" using assms(3) by simp
    have "set (take n (line a)) \<inter> set (drop n (line a)) = {}"
      using assms(2) by (rule set_take_disj_set_drop_if_distinct) simp
    with q have "q \<in> set (line a)" "q \<notin> set (take n (line a))" by (auto dest: in_set_dropD)
    with advance show ?thesis using ahead_drop [of q "line a" n] by simp
  next
    case (depart S T)
    with assms(3) show ?thesis by (auto intro: ahead_filter)
  qed (use assms(3) in simp)
  then show "q \<in> set (line a)" and "ahead (line b) q \<le> ahead (line a) q" by simp_all
qed

context redis_service
begin

subsection \<open>One command\<close>

lemma exec_ahead:
  assumes "safe R cap db" and "comes m c \<noteq> Some q"
    and "q \<in> waits R (exec R cap c db) m"
  shows "q \<in> waits R db m \<and>
    ahead (line (abs_queue R (exec R cap c db) m)) q + offered R cap m c db
      \<le> ahead (line (abs_queue R db m)) q + untimely R m c db"
proof -
  let ?a = "abs_queue R db m" and ?b = "abs_queue R (exec R cap c db) m"
  have step: "astep cap (comes m c) ?a ?b"
    using exec_astep [of db cap m c] assms(1) by (simp add: safe_def)
  have q: "q \<in> set (line ?b)" using assms(3) by (simp add: set_line)
  have both: "q \<in> set (line ?a) \<and> ahead (line ?b) q \<le> ahead (line ?a) q + untimely R m c db"
  proof (cases "comes m c")
    case None
    with step have "serves cap ?a ?b" by (simp add: astep_def)
    then show ?thesis using serves_ahead [OF _ distinct_line q] by (simp add: trans_le_add1)
  next
    case (Some p)
    with step assms(2) have p: "enters cap p ?a ?b" "p \<noteq> q" by (simp_all add: astep_def)
    show ?thesis
    proof (cases "timely R c db")
      case True
      then have "arrives cap p ?a ?b" using Some by (rule exec_arrives)
      with p(2) q show ?thesis using arrives_ahead by (simp add: trans_le_add1)
    next
      case False
      with Some p q show ?thesis using enters_ahead [OF p] by (simp add: untimely_def)
    qed
  qed
  show ?thesis
  proof (cases "\<exists>batch now. c = CPromote m batch now")
    case True
    then obtain batch now where c: "c = CPromote m batch now" by blast
    let ?n = "nat (min batch (cap - int (card (acts R db m))))"
    have "line ?b = drop ?n (line ?a)"
      by (simp add: c promote_abs Let_def) (simp add: abs_queue_def)
    moreover have "set (take ?n (line ?a)) \<inter> set (drop ?n (line ?a)) = {}"
      using distinct_line by (rule set_take_disj_set_drop_if_distinct) simp
    ultimately have "ahead (line ?b) q + ?n = ahead (line ?a) q"
      using q both ahead_drop [of q "line ?a" ?n] by auto
    moreover have "untimely R m c db = 0" by (simp add: c untimely_def)
    ultimately show ?thesis using both by (simp add: c set_line [symmetric])
  next
    case False
    then have "offered R cap m c db = 0" by (cases c) auto
    with both show ?thesis by (simp add: set_line)
  qed
qed

lemma exec_leaves_line:
  assumes "safe R cap db" and "q \<in> waits R db m" and "q \<notin> waits R (exec R cap c db) m"
    and "comes m c \<noteq> Some q"
  shows "q \<in> acts R (exec R cap c db) m \<and> (\<exists>batch now. c = CPromote m batch now) \<or> takes_out m q c"
proof -
  have "q \<notin> acts R db m" using assms(1,2) by (auto simp: safe_def dest: queue_okD(2))
  with assms(2,3) have "place_of R db m q = InLine" "place_of R (exec R cap c db) m q \<noteq> InLine"
    by (simp_all add: place_of_def)
  then have "moves m q c InLine (place_of R (exec R cap c db) m q)"
    using exec_moves [OF assms(1), of c m q] by auto
  then show ?thesis
    by (cases rule: moves.cases) (use assms(4) in \<open>auto simp: place_of_def split: if_splits\<close>)
qed

subsection \<open>Runs\<close>

lemma runs_ahead:
  assumes "safe R cap db" and "0 \<le> cap"
    and "\<forall>c\<in>set cs. comes m c \<noteq> Some q" and "q \<in> waits R (runs R cap cs db) m"
  shows "q \<in> waits R db m \<and>
    ahead (line (abs_queue R (runs R cap cs db) m)) q + offered_in R cap m cs db
      \<le> ahead (line (abs_queue R db m)) q + untimely_in R cap m cs db"
  using assms
proof (induction cs arbitrary: db)
  case (Cons c cs)
  let ?db = "exec R cap c db"
  have "q \<in> waits R ?db m \<and>
    ahead (line (abs_queue R (runs R cap cs ?db) m)) q + offered_in R cap m cs ?db
      \<le> ahead (line (abs_queue R ?db m)) q + untimely_in R cap m cs ?db"
    using Cons.prems by (intro Cons.IH) (simp_all add: exec_inv)
  with exec_ahead [of cap db m c q] Cons.prems show ?case by simp
qed simp

lemma runs_out:
  assumes "safe R cap db" and "0 \<le> cap" and "\<forall>c\<in>set cs. comes m c \<noteq> Some q"
    and "q \<in> waits R db m" and "q \<notin> waits R (runs R cap cs db) m"
  shows "\<exists>ds c es. cs = ds @ c # es \<and> q \<in> waits R (runs R cap ds db) m \<and>
    (q \<in> acts R (runs R cap (ds @ [c]) db) m \<and> (\<exists>batch now. c = CPromote m batch now) \<or>
     takes_out m q c)"
  using assms
proof (induction cs arbitrary: db)
  case (Cons c cs)
  show ?case
  proof (cases "q \<in> waits R (exec R cap c db) m")
    case True
    with Cons.prems have "\<exists>ds c' es. cs = ds @ c' # es \<and> q \<in> waits R (runs R cap ds (exec R cap c db)) m \<and>
      (q \<in> acts R (runs R cap (ds @ [c']) (exec R cap c db)) m \<and>
         (\<exists>batch now. c' = CPromote m batch now) \<or> takes_out m q c')"
      by (intro Cons.IH) (simp_all add: exec_inv)
    then obtain ds c' es where "cs = ds @ c' # es" "q \<in> waits R (runs R cap ds (exec R cap c db)) m"
      "q \<in> acts R (runs R cap (ds @ [c']) (exec R cap c db)) m \<and> (\<exists>batch now. c' = CPromote m batch now) \<or>
       takes_out m q c'"
      by blast
    then show ?thesis by (intro exI [of _ "c # ds"] exI [of _ c'] exI [of _ es]) simp
  next
    case False
    with Cons.prems have "q \<in> acts R (exec R cap c db) m \<and> (\<exists>batch now. c = CPromote m batch now) \<or>
        takes_out m q c"
      by (intro exec_leaves_line) simp_all
    with Cons.prems show ?thesis by (intro exI [of _ "[]"] exI [of _ c] exI [of _ cs]) simp
  qed
qed simp

end

text \<open>C13. Bounded waiting: let commands of any pods run, for this movie and others, in any order,
  none of them the visitor's entering again. Once the promotions among them have offered more
  seats than there were visitors ahead of somebody in the line, and newcomers since whom a pod with
  a lagging clock let in, that visitor is no longer in it, and what ended the wait was a
  promotion that seated the visitor, or the visitor's own leaving, a waiting timeout or a reset.\<close>

theorem waiting_is_bounded:
  assumes "redis_service R" and "reachable R cap db" and "0 \<le> cap" and "q \<in> waits R db m"
    and "\<forall>c\<in>set cs. comes m c \<noteq> Some q"
    and "ahead (line (abs_queue R db m)) q + untimely_in R cap m cs db < offered_in R cap m cs db"
  shows "q \<notin> waits R (runs R cap cs db) m \<and>
    (\<exists>ds c es. cs = ds @ c # es \<and> q \<in> waits R (runs R cap ds db) m \<and>
       (q \<in> acts R (runs R cap (ds @ [c]) db) m \<and> (\<exists>batch now. c = CPromote m batch now) \<or>
        takes_out m q c))"
proof -
  note inv = redis_service.reachable_inv [OF assms(1-3)]
  have "q \<notin> waits R (runs R cap cs db) m"
    using redis_service.runs_ahead [OF assms(1) inv assms(3,5)] assms(6) by auto
  with redis_service.runs_out [OF assms(1) inv assms(3,5,4)] show ?thesis by simp
qed

lemma waiting_is_bounded_witness:
  "''bob'' \<notin> waits ref_redis (runs ref_redis 1
     [CLeave ''7'' ''ann'' 50, CPromote ''7'' 100 60] demo_db) ''7''"
proof -
  let ?d = "exec ref_redis 1 (CLeave ''7'' ''ann'' 50) demo_db"
  have l: "line (abs_queue ref_redis demo_db ''7'') = [''bob'', ''cid'']"
    by (simp add: abs_queue_def demo_sets)
  have a: "acts ref_redis ?d ''7'' = {}"
    by (simp add: redis_service.leave_members [OF ref_laws] demo_sets members_Cons)
  show ?thesis
    using waiting_is_bounded [OF ref_laws demo_reachable, of "''bob''" "''7''"
        "[CLeave ''7'' ''ann'' 50, CPromote ''7'' 100 60]"] a
    by (simp add: l demo_sets members_Cons untimely_def del: exec.simps)
qed

end
