(* ===== verification/Batch.thy ===== *)
theory Batch
  imports LineClaims
begin

section \<open>A batch against one visitor at a time\<close>

text \<open>
  The promotion script works on a batch: it reads the head of the line once, moves all of it
  and counts once. \<open>seat_next\<close> is the plain rule it stands for, one visitor at a time with the
  capacity looked at anew each time; both give the same database.
\<close>

definition seat_next :: "'db redis \<Rightarrow> string \<Rightarrow> int \<Rightarrow> int \<Rightarrow> 'db \<Rightarrow> 'db" where
  "seat_next R m cap now db =
     (case map fst (ZITEMS R db (WaitingKey m)) of
        [] \<Rightarrow> db
      | u # _ \<Rightarrow>
          if int (card (acts R db m)) < cap
          then snd (INCRBY R (PromotedCountKey m) 1
                 (ZADD R (PendingKey m) now (admit_promote u)
                   (ZADD R (ActiveKey m) now u
                     (snd (ZREM R (WaitingLastseenKey m) [u]
                       (snd (ZREM R (WaitingKey m) [u] db)))))))
          else db)"

text \<open>What moving the visitors \<open>us\<close> leaves, read off every key; \<open>c\<close> is the counter before.\<close>

definition moved ::
  "'db redis \<Rightarrow> string \<Rightarrow> int \<Rightarrow> int \<Rightarrow> string list \<Rightarrow> 'db \<Rightarrow> 'db \<Rightarrow> bool"
where
  "moved R m now c us db db' \<longleftrightarrow>
     ZITEMS R db' (WaitingKey m) = zdel us (ZITEMS R db (WaitingKey m)) \<and>
     ZITEMS R db' (WaitingLastseenKey m) = zdel us (ZITEMS R db (WaitingLastseenKey m)) \<and>
     ZITEMS R db' (ActiveKey m) = fold (\<lambda>u. zput (u, now)) us (ZITEMS R db (ActiveKey m)) \<and>
     ZITEMS R db' (PendingKey m) =
       fold (\<lambda>u. zput (admit_promote u, now)) us (ZITEMS R db (PendingKey m)) \<and>
     GET R db' (PromotedCountKey m) =
       (if us = [] then GET R db (PromotedCountKey m) else Some (FormatInt (c + int (length us)))) \<and>
     (\<forall>k. k \<notin> {WaitingKey m, WaitingLastseenKey m, ActiveKey m, PendingKey m, PromotedCountKey m} \<longrightarrow>
        same_at R db' db k)"

lemma moved_nil: "moved R m now c [] db db"
  by (simp add: moved_def zdel_def same_at_def)

lemma moved_trans:
  "moved R m now c us a b \<Longrightarrow> moved R m now (c + int (length us)) vs b d \<Longrightarrow>
     moved R m now c (us @ vs) a d"
  by (simp add: moved_def zdel_zdel same_at_def add.assoc)

lemma moved_counter:
  "moved R m now c us db db' \<Longrightarrow> counter_is R db (PromotedCountKey m) c \<Longrightarrow>
     in64 (c + int (length us)) \<Longrightarrow>
     counter_is R db' (PromotedCountKey m) (c + int (length us))"
  by (auto simp: moved_def counter_is_def)

lemma in64_between: "in64 a \<Longrightarrow> in64 b \<Longrightarrow> a \<le> x \<Longrightarrow> x \<le> b \<Longrightarrow> in64 x"
  by (simp add: in64_def)

context redis_service
begin

lemma seat_users_items:
  "ZITEMS R (seat_users R m now us db) (WaitingLastseenKey m) =
     zdel us (ZITEMS R db (WaitingLastseenKey m))"
  "ZITEMS R (seat_users R m now us db) (ActiveKey m) =
     fold (\<lambda>u. zput (u, now)) us (ZITEMS R db (ActiveKey m))"
  "ZITEMS R (seat_users R m now us db) (PendingKey m) =
     fold (\<lambda>u. zput (admit_promote u, now)) us (ZITEMS R db (PendingKey m))"
  by (induction us arbitrary: db) (simp_all add: seat_users_def Let_def key_simps)

lemma promote_moved:
  assumes "counter_is R db (PromotedCountKey m) c" and us: "us = promote_users R db m cap batch"
    and "in64 (c + int (length us))"
  shows "moved R m now c us db (snd (promote_cmd R m cap batch now db))"
proof (cases "us = []")
  case True
  then show ?thesis by (simp add: promote_db Let_def us [symmetric] moved_nil)
next
  case False
  let ?s = "seat_users R m now us db" and ?K = "PromotedCountKey m"
  have same: "same_at R ?s db k"
    if "k \<notin> {WaitingKey m, ActiveKey m, WaitingLastseenKey m, PendingKey m}" for k
    using that by (rule promote_loop_frame)
  have "same_at R ?s db ?K" by (rule same) (simp add: key_simps)
  with assms(1) have "counter_is R ?s ?K c" by (simp add: counter_is_def same_at_def)
  from incrby_value [OF this assms(3)]
  have "GET R (snd (INCRBY R ?K (int (length us)) ?s)) ?K = Some (FormatInt (c + int (length us)))"
    by simp
  moreover have "same_at R (snd (INCRBY R ?K (int (length us)) ?s)) db k"
    if "k \<notin> {WaitingKey m, WaitingLastseenKey m, ActiveKey m, PendingKey m, ?K}" for k
    using incrby_frame [of k ?K "int (length us)" ?s] same [of k] that by (auto intro: same_at_trans)
  moreover have "WaitingKey m \<noteq> ?K" "WaitingLastseenKey m \<noteq> ?K" "ActiveKey m \<noteq> ?K" "PendingKey m \<noteq> ?K"
    by (simp_all add: key_simps)
  ultimately show ?thesis
    using False
    by (simp add: promote_db Let_def us [symmetric] moved_def seat_users_items promote_loop_line)
qed

text \<open>One visitor of the script is one visitor of the rule.\<close>

lemma promote_one: "snd (promote_cmd R m cap 1 now db) = seat_next R m cap now db"
proof (cases "ZITEMS R db (WaitingKey m)")
  case Nil
  then show ?thesis by (simp add: promote_db promote_users_head seat_next_def)
next
  case (Cons x xs)
  have "nat (min 1 (cap - ZCARD R db (ActiveKey m))) =
      (if int (card (acts R db m)) < cap then 1 else 0)"
    by (simp add: zcard_card)
  with Cons show ?thesis
    by (simp add: promote_db promote_users_head seat_next_def seat_users_def Let_def
        admit_promote_def)
qed

lemma promote_users_step:
  assumes "acts R db m \<inter> waits R db m = {}"
  shows "promote_users R db m cap (int (Suc n)) =
    promote_users R db m cap 1 @ promote_users R (snd (promote_cmd R m cap 1 now db)) m cap (int n)"
proof (cases "cap \<le> ZCARD R db (ActiveKey m) \<or> ZITEMS R db (WaitingKey m) = []")
  case True
  then have none: "promote_users R db m cap b = []" for b by (auto simp: promote_users_head)
  then have "snd (promote_cmd R m cap 1 now db) = db" by (simp add: promote_db Let_def)
  with none show ?thesis by simp
next
  case False
  then obtain u s xs where w: "ZITEMS R db (WaitingKey m) = (u, s) # xs" by (auto simp: neq_Nil_conv)
  let ?v = "cap - ZCARD R db (ActiveKey m)" and ?db = "snd (promote_cmd R m cap 1 now db)"
  have one: "promote_users R db m cap 1 = [u]" using False by (simp add: promote_users_head w)
  have "u \<notin> acts R db m" using assms by (auto simp: w members_def)
  then have "ZCARD R ?db (ActiveKey m) = ZCARD R db (ActiveKey m) + 1"
    by (simp add: zcard_card promote_members one)
  moreover have "ZITEMS R ?db (WaitingKey m) = xs" by (simp add: promote_line one w)
  moreover have "nat (min (int (Suc n)) ?v) = Suc (nat (min (int n) (?v - 1)))"
    using False by (auto simp: min_def)
  ultimately show ?thesis
    by (simp add: one) (simp add: promote_users_head w algebra_simps)
qed

lemma one_by_one_moved:
  assumes "safe R cap db" and "0 \<le> cap" and "counter_is R db (PromotedCountKey m) c"
    and "in64 (c + int n)"
  shows "moved R m now c (promote_users R db m cap (int n)) db ((seat_next R m cap now ^^ n) db)"
  using assms
proof (induction n arbitrary: db c)
  case 0
  then show ?case by (simp add: promote_users_head moved_nil)
next
  case (Suc n)
  let ?us = "promote_users R db m cap 1" and ?db = "snd (promote_cmd R m cap 1 now db)"
  let ?vs = "promote_users R ?db m cap (int n)"
  have len: "int (length ?us) \<le> 1" "int (length ?vs) \<le> int n" by (simp_all add: promote_users_head)
  have c: "in64 c" using Suc.prems(3) by (simp add: counter_is_def)
  have fits: "in64 (c + int (length ?us))" "in64 (c + int (length ?us) + int n)"
    using len by (auto intro!: in64_between [OF c Suc.prems(4)])
  have first: "moved R m now c ?us db ?db" using Suc.prems(3) fits(1) by (intro promote_moved) simp_all
  have "safe R cap ?db" using exec_inv [OF Suc.prems(1,2), of "CPromote m 1 now"] by simp
  then have "moved R m now (c + int (length ?us)) ?vs ?db ((seat_next R m cap now ^^ n) ?db)"
    using Suc.IH [OF _ Suc.prems(2) moved_counter [OF first Suc.prems(3) fits(1)] fits(2)] by blast
  from moved_trans [OF first this] show ?case
    using promote_users_step [of db m cap n now] Suc.prems(1) queue_okD(2) [of R cap db m]
    by (simp add: safe_def funpow_Suc_right promote_one del: funpow.simps)
qed

end

text \<open>C16. Equivalence: promoting a batch of \<open>n\<close> is seating the first of the line \<open>n\<close> times over,
  each time only while a seat is free. The seats, the line, the polls and the journal are
  equal, with their scores, the counter is equal, and no other key is touched by either.\<close>

theorem batch_is_one_by_one:
  assumes "redis_service R" and "reachable R cap db" and "0 \<le> cap"
    and "counter_is R db (PromotedCountKey m) c" and "in64 (c + int n)"
    and "one = (seat_next R m cap now ^^ n) db" and "all = snd (promote_cmd R m cap (int n) now db)"
  shows "(\<forall>k\<in>{ActiveKey m, WaitingKey m, WaitingLastseenKey m, PendingKey m}.
       ZITEMS R all k = ZITEMS R one k) \<and>
     GET R all (PromotedCountKey m) = GET R one (PromotedCountKey m) \<and>
     (\<forall>k. k \<notin> {ActiveKey m, WaitingKey m, WaitingLastseenKey m, PendingKey m, PromotedCountKey m} \<longrightarrow>
       same_at R all one k)"
proof -
  note inv = redis_service.reachable_inv [OF assms(1-3)]
  let ?us = "promote_users R db m cap (int n)"
  have "int (length ?us) \<le> int n" by (simp add: redis_service.promote_users_head [OF assms(1)])
  then have "in64 (c + int (length ?us))"
    using assms(4,5) in64_between [of c "c + int n"] by (simp add: counter_is_def)
  then have "moved R m now c ?us db all"
    using redis_service.promote_moved [OF assms(1,4) refl] by (simp add: assms(7))
  moreover have "moved R m now c ?us db one"
    using redis_service.one_by_one_moved [OF assms(1) inv assms(3-5)] by (simp add: assms(6))
  ultimately show ?thesis by (simp add: moved_def same_at_def)
qed

lemma batch_is_one_by_one_witness:
  "ZITEMS ref_redis (snd (promote_cmd ref_redis ''7'' 1 (int 2) 60 demo_db)) (WaitingKey ''7'') =
   ZITEMS ref_redis ((seat_next ref_redis ''7'' 1 60 ^^ 2) demo_db) (WaitingKey ''7'')"
proof -
  have "counter_is ref_redis demo_db (PromotedCountKey ''7'') 0"
    by (simp add: counter_is_def in64_def) code_simp
  then show ?thesis
    using batch_is_one_by_one [OF ref_laws demo_reachable, of "''7''" 0 2 _ 60] by (simp add: in64_def)
qed

end
