(* ===== verification/Typing.thy ===== *)
theory Typing
  imports CleanupClaims
begin

section \<open>Every key at one type\<close>

text \<open>
  Redis keys are dynamically typed: a command on a key that holds another type fails with
  WRONGTYPE, and a script stops there. \<open>key_type\<close> is the type the program means each family of keys
  to have, \<open>well_typed\<close> that no key of the program holds anything else, and \<open>checked\<close> turns a
  server into one that checks types and is lost at the first command that meets the wrong one.
  The type safety theorem says that the program never notices the difference.
\<close>

datatype rtype = ZSetT | SetT | StringT

fun holds :: "'db redis \<Rightarrow> 'db \<Rightarrow> string \<Rightarrow> rtype \<Rightarrow> bool" where
  "holds R db k ZSetT = (ZITEMS R db k \<noteq> [])"
| "holds R db k SetT = (set (SMEMBERS R db k) \<noteq> {})"
| "holds R db k StringT = (GET R db k \<noteq> None)"

text \<open>A key a command of type \<open>t\<close> may be sent to: missing, or of that type.\<close>

definition type_ok :: "'db redis \<Rightarrow> 'db \<Rightarrow> string \<Rightarrow> rtype \<Rightarrow> bool" where
  "type_ok R db k t \<longleftrightarrow> list_all (\<lambda>t'. t' \<noteq> t \<longrightarrow> \<not> holds R db k t') [ZSetT, SetT, StringT]"

fun key_type :: "qkey \<Rightarrow> rtype" where
  "key_type (KActive m) = ZSetT" | "key_type (KWaiting m) = ZSetT" | "key_type (KLastseen m) = ZSetT"
| "key_type (KPending m) = ZSetT" | "key_type (KEvents m) = ZSetT"
| "key_type KActiveMovies = SetT" | "key_type KWaitingMovies = SetT"
| "key_type (KPromoted m) = StringT" | "key_type (KEventsID m) = StringT"
| "key_type (KBucket m t) = StringT" | "key_type KPause = StringT"

definition well_typed :: "'db redis \<Rightarrow> 'db \<Rightarrow> bool" where
  "well_typed R db \<longleftrightarrow> (\<forall>q. type_ok R db (key_str q) (key_type q))"

text \<open>The type-checking server: a database that a command met at the wrong type is None. What
  such a command would have answered is left to \<open>J\<close>, which may be anything. SET, MGET, DEL,
  EXISTS, EXPIRE and PTTL take keys of any type.\<close>

definition type_read ::
  "'db redis \<Rightarrow> rtype \<Rightarrow> ('db option \<Rightarrow> 'a) \<Rightarrow> ('db \<Rightarrow> 'a) \<Rightarrow> 'db option \<Rightarrow> string \<Rightarrow> 'a"
where
  "type_read R t wrong f d k =
     (case d of None \<Rightarrow> wrong d | Some db \<Rightarrow> if type_ok R db k t then f db else wrong d)"

definition type_write ::
  "'db redis \<Rightarrow> rtype \<Rightarrow> ('db option \<Rightarrow> 'a) \<Rightarrow> ('db \<Rightarrow> 'a \<times> 'db) \<Rightarrow> string \<Rightarrow> 'db option \<Rightarrow>
   'a \<times> 'db option"
where
  "type_write R t wrong f k d =
     (case d of None \<Rightarrow> (wrong d, None)
      | Some db \<Rightarrow> if type_ok R db k t then apsnd Some (f db) else (wrong d, None))"

definition checked :: "'db option redis \<Rightarrow> 'db redis \<Rightarrow> 'db option redis" where
  "checked J R =
     \<lparr>ZITEMS = (\<lambda>d k. type_read R ZSetT (\<lambda>d. ZITEMS J d k) (\<lambda>db. ZITEMS R db k) d k),
      ZADD = (\<lambda>k s m d. snd (type_write R ZSetT (\<lambda>_. ()) (\<lambda>db. ((), ZADD R k s m db)) k d)),
      ZREM = (\<lambda>k ms. type_write R ZSetT (\<lambda>d. fst (ZREM J k ms d)) (ZREM R k ms) k),
      ZSCORE = (\<lambda>d k m. type_read R ZSetT (\<lambda>d. ZSCORE J d k m) (\<lambda>db. ZSCORE R db k m) d k),
      ZCARD = (\<lambda>d k. type_read R ZSetT (\<lambda>d. ZCARD J d k) (\<lambda>db. ZCARD R db k) d k),
      ZRANK = (\<lambda>d k m. type_read R ZSetT (\<lambda>d. ZRANK J d k m) (\<lambda>db. ZRANK R db k m) d k),
      ZRANGE = (\<lambda>d k a b. type_read R ZSetT (\<lambda>d. ZRANGE J d k a b) (\<lambda>db. ZRANGE R db k a b) d k),
      ZREVRANGE = (\<lambda>d k a b.
        type_read R ZSetT (\<lambda>d. ZREVRANGE J d k a b) (\<lambda>db. ZREVRANGE R db k a b) d k),
      ZRANGEBYSCORE = (\<lambda>d k lo hi lim.
        type_read R ZSetT (\<lambda>d. ZRANGEBYSCORE J d k lo hi lim) (\<lambda>db. ZRANGEBYSCORE R db k lo hi lim) d k),
      ZREMRANGEBYRANK = (\<lambda>k a b d.
        snd (type_write R ZSetT (\<lambda>_. ()) (\<lambda>db. ((), ZREMRANGEBYRANK R k a b db)) k d)),
      SADD = (\<lambda>k v d. snd (type_write R SetT (\<lambda>_. ()) (\<lambda>db. ((), SADD R k v db)) k d)),
      SREM = (\<lambda>k v d. snd (type_write R SetT (\<lambda>_. ()) (\<lambda>db. ((), SREM R k v db)) k d)),
      SMEMBERS = (\<lambda>d k. type_read R SetT (\<lambda>d. SMEMBERS J d k) (\<lambda>db. SMEMBERS R db k) d k),
      GET = (\<lambda>d k. type_read R StringT (\<lambda>d. GET J d k) (\<lambda>db. GET R db k) d k),
      MGET = (\<lambda>d ks. case d of None \<Rightarrow> MGET J d ks | Some db \<Rightarrow> MGET R db ks),
      INCRBY = (\<lambda>k n. type_write R StringT (\<lambda>d. fst (INCRBY J k n d)) (INCRBY R k n) k),
      SETPX = (\<lambda>k v t. map_option (SETPX R k v t)),
      EXISTS = (\<lambda>d k. case d of None \<Rightarrow> EXISTS J d k | Some db \<Rightarrow> EXISTS R db k),
      EXPIRE = (\<lambda>k t. map_option (EXPIRE R k t)),
      PTTL = (\<lambda>d k. case d of None \<Rightarrow> PTTL J d k | Some db \<Rightarrow> PTTL R db k),
      DEL = (\<lambda>ks. map_option (DEL R ks)),
      ELAPSE = (\<lambda>t. map_option (ELAPSE R t))\<rparr>"

text \<open>The laws of \<open>redis_service\<close> leave open what a write does to the other types at its own key;
  here it makes none: a command creates keys of its own type only.\<close>

locale typed_redis = redis_service R for R :: "'db redis" +
  assumes zadd_type: "holds R (ZADD R k s m db) k t \<Longrightarrow> t \<noteq> ZSetT \<Longrightarrow> holds R db k t"
    and zrem_type: "holds R (snd (ZREM R k ms db)) k t \<Longrightarrow> t \<noteq> ZSetT \<Longrightarrow> holds R db k t"
    and zremrangebyrank_type:
      "holds R (ZREMRANGEBYRANK R k a b db) k t \<Longrightarrow> t \<noteq> ZSetT \<Longrightarrow> holds R db k t"
    and sadd_type: "holds R (SADD R k v db) k t \<Longrightarrow> t \<noteq> SetT \<Longrightarrow> holds R db k t"
    and srem_type: "holds R (SREM R k v db) k t \<Longrightarrow> t \<noteq> SetT \<Longrightarrow> holds R db k t"
    and incrby_type: "holds R (snd (INCRBY R k n db)) k t \<Longrightarrow> t \<noteq> StringT \<Longrightarrow> holds R db k t"
    and setpx_type: "holds R (SETPX R k v d db) k t \<Longrightarrow> t \<noteq> StringT \<Longrightarrow> holds R db k t"
    and expire_type: "holds R (EXPIRE R k d db) k t \<Longrightarrow> holds R db k t"
    and elapse_type: "holds R (ELAPSE R d db) k t \<Longrightarrow> holds R db k t"
begin

lemma type_ok_alt: "type_ok R db k t \<longleftrightarrow> (\<forall>t'. t' \<noteq> t \<longrightarrow> \<not> holds R db k t')"
proof
  assume ok: "type_ok R db k t"
  have "\<not> holds R db k t'" if "t' \<noteq> t" for t'
    using ok that by (cases t') (simp_all add: type_ok_def)
  then show "\<forall>t'. t' \<noteq> t \<longrightarrow> \<not> holds R db k t'" by blast
next
  assume "\<forall>t'. t' \<noteq> t \<longrightarrow> \<not> holds R db k t'"
  then show "type_ok R db k t" unfolding type_ok_def by simp
qed

lemma holds_same: "same_at R db db' k \<Longrightarrow> holds R db k t \<longleftrightarrow> holds R db' k t"
  by (cases t) (simp_all add: same_at_def)

lemma typed_write:
  assumes "well_typed R db" and "\<And>k'. k' \<noteq> key_str q \<Longrightarrow> same_at R db' db k'"
    and "\<And>t. holds R db' (key_str q) t \<Longrightarrow> t \<noteq> key_type q \<Longrightarrow> holds R db (key_str q) t"
  shows "well_typed R db'"
  unfolding well_typed_def type_ok_alt
proof (intro allI impI notI)
  fix p t
  assume d: "t \<noteq> key_type p" and h: "holds R db' (key_str p) t"
  show False
  proof (cases "p = q")
    case True
    with d h assms(1,3) show ?thesis by (auto simp: well_typed_def type_ok_alt)
  next
    case False
    then have "key_str p \<noteq> key_str q" by (simp add: key_str_inj)
    from holds_same [OF assms(2) [OF this]] h have "holds R db (key_str p) t" by simp
    with d assms(1) show ?thesis by (auto simp: well_typed_def type_ok_alt)
  qed
qed

lemmas own_types = zadd_type zrem_type zremrangebyrank_type sadd_type srem_type incrby_type
  setpx_type expire_type

lemma typed_writes [simp]:
  assumes "well_typed R db"
  shows "key_type q = ZSetT \<Longrightarrow> well_typed R (ZADD R (key_str q) s m db)"
    and "key_type q = ZSetT \<Longrightarrow> well_typed R (snd (ZREM R (key_str q) ms db))"
    and "key_type q = ZSetT \<Longrightarrow> well_typed R (ZREMRANGEBYRANK R (key_str q) a b db)"
    and "key_type q = SetT \<Longrightarrow> well_typed R (SADD R (key_str q) v db)"
    and "key_type q = SetT \<Longrightarrow> well_typed R (SREM R (key_str q) v db)"
    and "key_type q = StringT \<Longrightarrow> well_typed R (snd (INCRBY R (key_str q) n db))"
    and "key_type q = StringT \<Longrightarrow> well_typed R (SETPX R (key_str q) v d db)"
    and "well_typed R (EXPIRE R (key_str q) d db)"
  by (rule typed_write [OF assms, where q = q], simp add: frames, metis own_types rtype.distinct)+

lemma typed_elapse [simp]: "well_typed R db \<Longrightarrow> well_typed R (ELAPSE R d db)"
  unfolding well_typed_def type_ok_alt using elapse_type by blast

lemma typed_del [simp]:
  assumes "well_typed R db"
  shows "well_typed R (DEL R ks db)"
  unfolding well_typed_def type_ok_alt
proof (intro allI impI notI)
  fix p t
  assume d: "t \<noteq> key_type p" and "holds R (DEL R ks db) (key_str p) t"
  then have "holds R db (key_str p) t" by (cases t) (auto split: if_splits)
  with d assms show False by (auto simp: well_typed_def type_ok_alt)
qed

lemma fresh_typed: "fresh R db \<Longrightarrow> well_typed R db"
proof -
  assume "fresh R db"
  then have "\<not> holds R db k t" for k t by (cases t) (simp_all add: fresh_def gone_at_def)
  then show ?thesis by (simp add: well_typed_def type_ok_alt)
qed

subsection \<open>The type-checking server answers as the other\<close>

lemma typed_key: "well_typed R db \<Longrightarrow> key_type q = t \<Longrightarrow> type_ok R db (key_str q) t"
  by (auto simp: well_typed_def)

lemma checked_zsets [simp]:
  assumes "well_typed R db" and "key_type q = ZSetT"
  shows "ZITEMS (checked J R) (Some db) (key_str q) = ZITEMS R db (key_str q)"
    and "ZADD (checked J R) (key_str q) s m (Some db) = Some (ZADD R (key_str q) s m db)"
    and "ZREM (checked J R) (key_str q) ms (Some db) = apsnd Some (ZREM R (key_str q) ms db)"
    and "ZSCORE (checked J R) (Some db) (key_str q) m = ZSCORE R db (key_str q) m"
    and "ZCARD (checked J R) (Some db) (key_str q) = ZCARD R db (key_str q)"
    and "ZRANK (checked J R) (Some db) (key_str q) m = ZRANK R db (key_str q) m"
    and "ZRANGE (checked J R) (Some db) (key_str q) a b = ZRANGE R db (key_str q) a b"
    and "ZRANGEBYSCORE (checked J R) (Some db) (key_str q) lo hi lim =
      ZRANGEBYSCORE R db (key_str q) lo hi lim"
    and "ZREMRANGEBYRANK (checked J R) (key_str q) a b (Some db) =
      Some (ZREMRANGEBYRANK R (key_str q) a b db)"
  using typed_key [OF assms] by (simp_all add: checked_def type_read_def type_write_def)

lemma checked_sets [simp]:
  assumes "well_typed R db" and "key_type q = SetT"
  shows "SADD (checked J R) (key_str q) v (Some db) = Some (SADD R (key_str q) v db)"
    and "SREM (checked J R) (key_str q) v (Some db) = Some (SREM R (key_str q) v db)"
    and "SMEMBERS (checked J R) (Some db) (key_str q) = SMEMBERS R db (key_str q)"
  using typed_key [OF assms] by (simp_all add: checked_def type_read_def type_write_def)

lemma checked_strings [simp]:
  assumes "well_typed R db" and "key_type q = StringT"
  shows "INCRBY (checked J R) (key_str q) n (Some db) = apsnd Some (INCRBY R (key_str q) n db)"
    and "GET (checked J R) (Some db) (key_str q) = GET R db (key_str q)"
  using typed_key [OF assms] by (simp_all add: checked_def type_read_def type_write_def)

lemma checked_any [simp]:
  "SETPX (checked J R) k v d (Some db) = Some (SETPX R k v d db)"
  "EXPIRE (checked J R) k d (Some db) = Some (EXPIRE R k d db)"
  "DEL (checked J R) ks (Some db) = Some (DEL R ks db)"
  "ELAPSE (checked J R) d (Some db) = Some (ELAPSE R d db)"
  by (simp_all add: checked_def)

subsection \<open>Every command of the program keeps to the types\<close>

lemma typed_enter:
  "well_typed R db \<Longrightarrow>
     enter_cmd (checked J R) m q cap now (Some db) = apsnd Some (enter_cmd R m q cap now db) \<and>
     well_typed R (snd (enter_cmd R m q cap now db))"
  by (simp add: enter_cmd_def enterScript_def Let_def key_simps split: option.splits)

lemma typed_promote_loop:
  "well_typed R db \<Longrightarrow>
     promote_loop (checked J R) (WaitingKey m) (ActiveKey m) (WaitingLastseenKey m) (PendingKey m)
       now us (Some db) =
     Some (promote_loop R (WaitingKey m) (ActiveKey m) (WaitingLastseenKey m) (PendingKey m) now us db) \<and>
     well_typed R (promote_loop R (WaitingKey m) (ActiveKey m) (WaitingLastseenKey m) (PendingKey m) now us db)"
  by (induction us arbitrary: db) (simp_all add: Let_def key_simps)

lemma typed_promote:
  "well_typed R db \<Longrightarrow>
     promote_cmd (checked J R) m cap batch now (Some db) = apsnd Some (promote_cmd R m cap batch now db) \<and>
     well_typed R (snd (promote_cmd R m cap batch now db))"
  using typed_promote_loop [of _ J m now]
  by (simp add: promote_cmd_def promoteScript_def Let_def split_beta key_simps split: option.splits)

lemma typed_position:
  "well_typed R db \<Longrightarrow>
     position_cmd (checked J R) m q now (Some db) = apsnd Some (position_cmd R m q now db) \<and>
     well_typed R (snd (position_cmd R m q now db))"
  by (simp add: position_cmd_def positionScript_def Let_def key_simps split: option.splits)

lemma typed_leave:
  "well_typed R db \<Longrightarrow>
     leave_cmd (checked J R) m q now (Some db) = apsnd Some (leave_cmd R m q now db) \<and>
     well_typed R (snd (leave_cmd R m q now db))"
  by (simp add: leave_cmd_def leaveScript_def Let_def split_beta key_simps)

lemma typed_release:
  "well_typed R db \<Longrightarrow>
     release_cmd (checked J R) m q reason now (Some db) = apsnd Some (release_cmd R m q reason now db) \<and>
     well_typed R (snd (release_cmd R m q reason now db))"
  by (simp add: release_cmd_def releaseScript_def Let_def split_beta key_simps)

lemma typed_complete:
  "well_typed R db \<Longrightarrow>
     complete_cmd (checked J R) m q (Some db) = apsnd Some (complete_cmd R m q db) \<and>
     well_typed R (snd (complete_cmd R m q db))"
  by (simp add: complete_cmd_def split_beta key_simps)

lemma typed_expire_loop:
  "well_typed R db \<Longrightarrow>
     expire_loop (checked J R) (PendingKey m) now us (Some db) = Some (expire_loop R (PendingKey m) now us db) \<and>
     well_typed R (expire_loop R (PendingKey m) now us db)"
  by (induction us arbitrary: db) (simp_all add: Let_def key_simps)

lemma typed_expire:
  "well_typed R db \<Longrightarrow>
     expire_cmd (checked J R) m cutoff now (Some db) = apsnd Some (expire_cmd R m cutoff now db) \<and>
     well_typed R (snd (expire_cmd R m cutoff now db))"
  using typed_expire_loop [of _ J m now]
  by (simp add: expire_cmd_def expireScript_def Let_def key_simps)

lemma typed_waiting_expire:
  "well_typed R db \<Longrightarrow>
     waiting_expire_cmd (checked J R) m cutoff (Some db) = apsnd Some (waiting_expire_cmd R m cutoff db) \<and>
     well_typed R (snd (waiting_expire_cmd R m cutoff db))"
  by (simp add: waiting_expire_cmd_def waitingExpireScript_def Let_def key_simps)

lemma typed_untrack:
  "well_typed R db \<Longrightarrow>
     untrack_cmd (checked J R) m (Some db) = apsnd Some (untrack_cmd R m db) \<and>
     well_typed R (snd (untrack_cmd R m db))"
  by (simp add: untrack_cmd_def untrackScript_def Let_def key_simps)

lemma typed_feed_store:
  "well_typed R db \<Longrightarrow>
     fold (\<lambda>(v, s). ZADD (checked J R) (EventsKey m) s v) xs (Some db) =
       Some (fold (\<lambda>(v, s). ZADD R (EventsKey m) s v) xs db) \<and>
     well_typed R (fold (\<lambda>(v, s). ZADD R (EventsKey m) s v) xs db)"
  by (induction xs arbitrary: db) (simp_all add: key_simps split_beta)

lemmas typed_cmds = typed_enter typed_promote typed_position typed_leave typed_release
  typed_complete typed_expire typed_waiting_expire typed_untrack typed_feed_store

lemma typed_exec:
  "well_typed R db \<Longrightarrow>
     exec (checked J R) cap c (Some db) = Some (exec R cap c db) \<and> well_typed R (exec R cap c db)"
  by (cases c) (simp_all add: typed_cmds, simp_all add: key_simps)

lemma typed_runs:
  "well_typed R db \<Longrightarrow>
     runs (checked J R) cap cs (Some db) = Some (runs R cap cs db) \<and> well_typed R (runs R cap cs db)"
  by (induction cs arbitrary: db) (simp_all add: typed_exec)

end

text \<open>The executable server is one of these.\<close>

interpretation ref_typed: typed_redis ref_redis
proof (intro typed_redis.intro typed_redis_axioms.intro, goal_cases)
  case 1 show ?case by (rule ref_laws)
next
  case (2 k s m db t) then show ?case by (cases t) (simp_all add: ref_redis_def)
next
  case (3 k ms db t) then show ?case by (cases t) (simp_all add: ref_redis_def ref_zrem_def)
next
  case (4 k a b db t) then show ?case by (cases t) (simp_all add: ref_redis_def ref_zrem_def)
next
  case (5 k v db t) then show ?case by (cases t) (simp_all add: ref_redis_def ref_items_def)
next
  case (6 k v db t) then show ?case by (cases t) (simp_all add: ref_redis_def ref_items_def)
next
  case (7 k n db t)
  then show ?case
    by (cases t) (simp_all add: ref_redis_def ref_items_def ref_incrby_def split: option.splits if_splits)
next
  case (8 k v d db t) then show ?case by (cases t) (simp_all add: ref_redis_def ref_items_def)
next
  case (9 k d db t)
  then show ?case by (cases t) (simp_all add: ref_redis_def ref_items_def split: if_splits)
next
  case (10 d db k t)
  then show ?case
    by (cases t) (auto simp: ref_redis_def ref_items_def ref_elapse_def ref_del_def Let_def split: if_splits)
qed

text \<open>C17. Type safety: from an empty database, whatever commands the pods send, none of them ever
  meets a key that holds another type. A server that checks the types and is lost at the first such
  command runs them all and ends in the same database, whatever it would have answered; and every key the
  program can name then holds the type its family is meant to have, or nothing.\<close>

theorem commands_never_meet_a_wrong_type:
  assumes "typed_redis R" and "fresh R db"
  shows "runs (checked J R) cap cs (Some db) = Some (runs R cap cs db) \<and>
    type_ok R (runs R cap cs db) (key_str k) (key_type k)"
  using typed_redis.typed_runs [OF assms(1) typed_redis.fresh_typed [OF assms]]
  by (auto simp: well_typed_def)

lemma commands_never_meet_a_wrong_type_witness:
  "\<forall>J :: ref_db option redis. runs (checked J ref_redis) 1 [CEnter ''7'' ''ann'' 10, CEnter ''7'' ''bob'' 20,
     CLeave ''7'' ''ann'' 30, CPromote ''7'' 100 40] (Some ref_empty) \<noteq> None"
proof
  fix J :: "ref_db option redis"
  show "runs (checked J ref_redis) 1 [CEnter ''7'' ''ann'' 10, CEnter ''7'' ''bob'' 20,
     CLeave ''7'' ''ann'' 30, CPromote ''7'' 100 40] (Some ref_empty) \<noteq> None"
    using commands_never_meet_a_wrong_type [OF ref_typed.typed_redis_axioms fresh_ref_empty, of J 1
        "[CEnter ''7'' ''ann'' 10, CEnter ''7'' ''bob'' 20, CLeave ''7'' ''ann'' 30, CPromote ''7'' 100 40]"]
    by (simp del: runs_simps)
qed

end
