(* ===== verification/Operations.thy ===== *)
theory Operations
  imports Commands
begin

section \<open>The operations of the redis package as commands\<close>

text \<open>
  Each function of the redis package sends a few of the commands of \<open>Commands\<close>. \<open>keeps\<close> says
  that a property of databases is kept by a set of commands; the lemmas \<open>_good\<close> say that a
  function whose commands keep a property preserves it whatever happens during its calls. They
  are collected in \<open>good_intros\<close>, which proves the same of every handler and loop.
\<close>

named_theorems good_intros

definition keeps :: "'db redis \<Rightarrow> int \<Rightarrow> cmd set \<Rightarrow> ('db \<Rightarrow> bool) \<Rightarrow> bool" where
  "keeps R cap C P \<longleftrightarrow> (\<forall>c\<in>C. \<forall>db. P db \<longrightarrow> P (exec R cap c db))"

lemma keepsD: "keeps R cap C P \<Longrightarrow> c \<in> C \<Longrightarrow> P db \<Longrightarrow> P (exec R cap c db)"
  by (simp add: keeps_def)

text \<open>The databases a list of commands out of \<open>C\<close> leads to.\<close>

definition after :: "'db redis \<Rightarrow> int \<Rightarrow> cmd set \<Rightarrow> 'db \<Rightarrow> 'db \<Rightarrow> bool" where
  "after R cap C db0 db \<longleftrightarrow> (\<exists>cs. set cs \<subseteq> C \<and> db = runs R cap cs db0)"

lemma after_refl: "after R cap C db db"
  unfolding after_def by (rule exI [of _ "[]"]) simp

lemma after_keeps: "keeps R cap C (after R cap C db0)"
  unfolding keeps_def
proof (intro ballI allI impI)
  fix c db
  assume "c \<in> C" and "after R cap C db0 db"
  then obtain cs where cs: "set cs \<subseteq> C" "db = runs R cap cs db0" by (auto simp: after_def)
  then have "set (cs @ [c]) \<subseteq> C \<and> exec R cap c db = runs R cap (cs @ [c]) db0"
    using \<open>c \<in> C\<close> by simp
  then show "after R cap C db0 (exec R cap c db)" unfolding after_def by blast
qed

subsection \<open>Calls\<close>

lemma call_good:
  assumes "keeps R cap C P" and "c \<in> C" and "\<And>db. snd (cmd db) = exec R cap c db" and "good P w"
  shows "good P (snd (redis_call cmd w))"
  using assms(4) by (rule redis_call_good) (simp add: assms(3) keepsD [OF assms(1,2)])

lemma write_good:
  assumes "keeps R cap C P" and "c \<in> C" and "f = exec R cap c" and "good P w"
  shows "good P (snd (redis_write f w))"
  using assms(4) by (rule redis_write_good) (simp add: assms(3) keepsD [OF assms(1,2)])

declare redis_read_good [good_intros]

lemma now_ms_goodI [good_intros]: "good P w \<Longrightarrow> good P (snd (now_ms w))"
  by simp

lemma Enter_good [good_intros]:
  "keeps R cap C P \<Longrightarrow> CEnter m q now \<in> C \<Longrightarrow> good P w \<Longrightarrow> good P (snd (Enter R m q cap now w))"
  using call_good [of R cap C P "CEnter m q now" "enter_cmd R m q cap now" w]
  by (simp add: Enter_def split_beta split: sum.splits)

lemma Promote_good [good_intros]:
  "keeps R cap C P \<Longrightarrow> CPromote m batch now \<in> C \<Longrightarrow> good P w \<Longrightarrow>
     good P (snd (Promote R m cap batch now w))"
  using call_good [of R cap C P "CPromote m batch now" "promote_cmd R m cap batch now" w]
  by (simp add: Promote_def split_beta split: sum.splits)

lemma Position_good [good_intros]:
  "keeps R cap C P \<Longrightarrow> CPosition m q now \<in> C \<Longrightarrow> good P w \<Longrightarrow> good P (snd (Position R m q now w))"
  using call_good [of R cap C P "CPosition m q now" "position_cmd R m q now" w]
  by (simp add: Position_def split_beta split: sum.splits)

lemma Leave_good [good_intros]:
  "keeps R cap C P \<Longrightarrow> CLeave m q now \<in> C \<Longrightarrow> good P w \<Longrightarrow> good P (snd (Leave R m q now w))"
  using call_good [of R cap C P "CLeave m q now" "leave_cmd R m q now" w]
  by (simp add: Leave_def split_beta split: sum.splits)

lemma ReleaseActive_good [good_intros]:
  "keeps R cap C P \<Longrightarrow> CRelease m q reason now \<in> C \<Longrightarrow> good P w \<Longrightarrow>
     good P (snd (ReleaseActive R m q reason now w))"
  using call_good [of R cap C P "CRelease m q reason now" "release_cmd R m q reason now" w]
  by (simp add: ReleaseActive_def split_beta split: sum.splits)

lemma CompleteActive_good [good_intros]:
  "keeps R cap C P \<Longrightarrow> CComplete m q \<in> C \<Longrightarrow> good P w \<Longrightarrow> good P (snd (CompleteActive R m q w))"
  using call_good [of R cap C P "CComplete m q" "complete_cmd R m q" w]
  by (simp add: CompleteActive_def split_beta split: sum.splits)

lemma ExpireActive_good [good_intros]:
  "keeps R cap C P \<Longrightarrow> CExpire m cutoff now \<in> C \<Longrightarrow> good P w \<Longrightarrow>
     good P (snd (ExpireActive R m cutoff now w))"
  using call_good [of R cap C P "CExpire m cutoff now" "expire_cmd R m cutoff now" w]
  by (simp add: ExpireActive_def split_beta split: sum.splits)

lemma ExpireWaiting_good [good_intros]:
  "keeps R cap C P \<Longrightarrow> CExpireWaiting m cutoff \<in> C \<Longrightarrow> good P w \<Longrightarrow>
     good P (snd (ExpireWaiting R m cutoff w))"
  using call_good [of R cap C P "CExpireWaiting m cutoff" "waiting_expire_cmd R m cutoff" w]
  by (simp add: ExpireWaiting_def runExpire_def split_beta split: sum.splits)

lemma UntrackIfIdle_good [good_intros]:
  "keeps R cap C P \<Longrightarrow> CUntrack m \<in> C \<Longrightarrow> good P w \<Longrightarrow> good P (snd (UntrackIfIdle R m w))"
  using call_good [of R cap C P "CUntrack m" "untrack_cmd R m" w]
  by (simp add: UntrackIfIdle_def split_beta split: sum.splits)

lemma reads_good [good_intros]:
  assumes "good P w"
  shows "good P (snd (WaitingCount R m w))" and "good P (snd (ActiveCount R m w))"
    and "good P (snd (PendingCount R m w))" and "good P (snd (PromotePaused R w))"
    and "good P (snd (Stats R m w))" and "good P (snd (ReadEvents R m n w))"
    and "good P (snd (PromotionTotal R m sec w))" and "good P (snd (ActiveQueueMovies R w))"
  using assms
  by (simp_all add: WaitingCount_def ActiveCount_def PendingCount_def PromotePaused_def Stats_def
      ReadEvents_def PromotionTotal_def ActiveQueueMovies_def split_beta Let_def redis_read_good
      redis_reads_good
      split: sum.splits)

subsection \<open>The journal\<close>

lemma ClearPending_good [good_intros]:
  "keeps R cap C P \<Longrightarrow> CClear m ms \<in> C \<Longrightarrow> good P w \<Longrightarrow> good P (snd (ClearPending R m ms w))"
  by (auto simp: ClearPending_def intro!: write_good [of R cap C P "CClear m ms"])

lemma pending_collect_good:
  assumes "keeps R cap C P" and "\<And>ms. CClear m ms \<in> C" and "good P w"
  shows "good P (snd (pending_collect R m raw w))"
  using assms(3)
proof (induction raw arbitrary: w)
  case (Cons x raw)
  have "good P (snd (redis_call (ZREM R (PendingKey m) [x]) w))"
    by (rule call_good [OF assms(1), of "CClear m [x]"]) (simp_all add: Cons.prems assms(2))
  with Cons show ?case by (simp add: split_beta split: option.splits)
qed simp

lemma PendingBefore_good [good_intros]:
  assumes "keeps R cap C P" and "\<And>ms. CClear m ms \<in> C" and "good P w"
  shows "good P (snd (PendingBefore R m cutoff limit w))"
  using pending_collect_good [OF assms(1,2)]
  by (simp add: PendingBefore_def split_beta redis_read_good [OF assms(3)] split: sum.splits)

lemma SetPromotePause_good [good_intros]:
  "keeps R cap C P \<Longrightarrow> CPause d \<in> C \<Longrightarrow> good P w \<Longrightarrow> good P (snd (SetPromotePause R d w))"
  by (auto simp: SetPromotePause_def fun_eq_iff intro!: write_good [of R cap C P "CPause d"])

subsection \<open>Pipelines\<close>

lemma pipe_good:
  assumes "keeps R cap C P" and "good P w"
    and cs: "\<And>c. c \<in> set cs \<Longrightarrow> \<exists>d\<in>C. \<forall>db. snd (c db) = exec R cap d db"
  shows "good P (snd (redis_pipe cs w))"
  using assms(2)
proof (rule redis_pipe_good)
  fix c db
  assume "c \<in> set cs" and "P db"
  with cs obtain d where "d \<in> C" "snd (c db) = exec R cap d db" by blast
  with \<open>P db\<close> show "P (snd (c db))" by (simp add: keepsD [OF assms(1)])
qed

definition reset_cmds :: "string \<Rightarrow> cmd set" where
  "reset_cmds m = {CResetActive m, CResetWaiting m} \<union> (\<lambda>sec. CResetDel m sec) ` UNIV"

definition feed_cmds :: "string \<Rightarrow> cmd set" where
  "feed_cmds m = {CFeedTrim m, CFeedTTL m, CFeedNumberTTL m} \<union> (\<lambda>n. CFeedNumber m n) ` UNIV
     \<union> (\<lambda>xs. CFeedStore m xs) ` UNIV"

definition rate_cmds :: "string \<Rightarrow> cmd set" where
  "rate_cmds m = (\<lambda>(sec, n). CCount m sec n) ` UNIV \<union> (\<lambda>sec. CCountTTL m sec) ` UNIV"

lemma Reset_good [good_intros]:
  assumes "keeps R cap C P" and "reset_cmds m \<subseteq> C" and "good P w"
  shows "good P (snd (Reset R m sec w))"
  unfolding Reset_def
proof (rule pipe_good [OF assms(1,3)])
  fix c assume "c \<in> set (reset_pipe R m sec)"
  then consider "c = pure_cmd (exec R cap (CResetDel m sec))"
    | "c = pure_cmd (exec R cap (CResetActive m))" | "c = pure_cmd (exec R cap (CResetWaiting m))"
    by (auto simp: reset_pipe_def pure_cmd_def fun_eq_iff)
  then show "\<exists>d\<in>C. \<forall>db. snd (c db) = exec R cap d db"
    using assms(2) by cases (auto simp: pure_cmd_def reset_cmds_def simp del: exec.simps)
qed

lemma AppendEvents_good [good_intros]:
  assumes "keeps R cap C P" and "feed_cmds m \<subseteq> C" and "good P w"
  shows "good P (snd (AppendEvents R m ty rids now w))"
proof -
  have number: "good P (snd (redis_call (INCRBY R (EventsIDKey m) n) w))" for n
    by (rule call_good [OF assms(1), of "CFeedNumber m n"])
      (use assms(2,3) in \<open>auto simp: feed_cmds_def\<close>)
  have pipe: "good P (snd (redis_pipe (append_pipe R m xs) w'))" if "good P w'" for xs w'
  proof (rule pipe_good [OF assms(1) that])
    fix c assume "c \<in> set (append_pipe R m xs)"
    then consider "c = pure_cmd (exec R cap (CFeedStore m xs))"
      | "c = pure_cmd (exec R cap (CFeedTrim m))" | "c = pure_cmd (exec R cap (CFeedTTL m))"
      | "c = pure_cmd (exec R cap (CFeedNumberTTL m))"
      by (auto simp: append_pipe_def pure_cmd_def fun_eq_iff)
    then obtain d where "c = pure_cmd (exec R cap d)"
      and "d \<in> {CFeedStore m xs, CFeedTrim m, CFeedTTL m, CFeedNumberTTL m}" by cases auto
    with assms(2) show "\<exists>d\<in>C. \<forall>db. snd (c db) = exec R cap d db"
      by (intro bexI [of _ d]) (auto simp: pure_cmd_def feed_cmds_def)
  qed
  show ?thesis
    using number [of "int (length rids)"] pipe assms(3)
    by (simp add: AppendEvents_def split_beta split: sum.splits option.splits)
qed

lemma ObservePromotion_good [good_intros]:
  assumes "keeps R cap C P" and "rate_cmds m \<subseteq> C" and "good P w"
  shows "good P (snd (ObservePromotion R m n sec w))"
proof -
  have "good P (snd (redis_pipe (observe_pipe R m n sec) w))"
  proof (rule pipe_good [OF assms(1,3)])
    fix c assume "c \<in> set (observe_pipe R m n sec)"
    then consider "\<forall>db. snd (c db) = exec R cap (CCount m sec n) db"
      | "\<forall>db. snd (c db) = exec R cap (CCountTTL m sec) db"
      by (fastforce simp: observe_pipe_def pure_cmd_def Let_def split: prod.splits option.splits)
    moreover have "CCount m sec n \<in> C" "CCountTTL m sec \<in> C"
      using assms(2) by (auto simp: rate_cmds_def)
    ultimately show "\<exists>d\<in>C. \<forall>db. snd (c db) = exec R cap d db" by metis
  qed
  with assms(3) show ?thesis by (simp add: ObservePromotion_def)
qed

subsection \<open>Only publishing writes to the broker\<close>

lemma pending_collect_broker: "broker (snd (pending_collect R m raw w)) = broker w"
  by (induction raw arbitrary: w) (simp_all add: split_beta split: option.splits)

lemma redis_ops_broker [simp]:
  "broker (snd (Enter R m q cap now w)) = broker w"
  "broker (snd (Promote R m cap batch now w)) = broker w"
  "broker (snd (Position R m q now w)) = broker w"
  "broker (snd (Leave R m q now w)) = broker w"
  "broker (snd (ReleaseActive R m q reason now w)) = broker w"
  "broker (snd (CompleteActive R m q w)) = broker w"
  "broker (snd (ExpireActive R m cutoff now w)) = broker w"
  "broker (snd (ExpireWaiting R m cutoff w)) = broker w"
  "broker (snd (UntrackIfIdle R m w)) = broker w"
  "broker (snd (WaitingCount R m w)) = broker w"
  "broker (snd (PromotePaused R w)) = broker w"
  "broker (snd (ActiveQueueMovies R w)) = broker w"
  "broker (snd (ClearPending R m ms w)) = broker w"
  "broker (snd (SetPromotePause R d w)) = broker w"
  "broker (snd (PendingBefore R m cutoff limit w)) = broker w"
  "broker (snd (AppendEvents R m ty rids now w)) = broker w"
  "broker (snd (ObservePromotion R m n sec w)) = broker w"
  "broker (snd (Reset R m sec w)) = broker w"
  "broker (snd (Stats R m w)) = broker w"
  "broker (snd (ReadEvents R m n w)) = broker w"
  "broker (snd (PromotionTotal R m sec w)) = broker w"
  by (simp_all add: Enter_def Promote_def Position_def Leave_def ReleaseActive_def CompleteActive_def
      ExpireActive_def ExpireWaiting_def runExpire_def UntrackIfIdle_def WaitingCount_def
      PromotePaused_def ActiveQueueMovies_def ClearPending_def SetPromotePause_def PendingBefore_def
      AppendEvents_def ObservePromotion_def Reset_def Stats_def ReadEvents_def PromotionTotal_def
      pending_collect_broker split_beta Let_def split: sum.splits option.splits)

end
