(* ===== verification/Kafka.thy ===== *)
theory Kafka
  imports Operations
begin

section \<open>Events to and from the booking service (kafka/kafka.go)\<close>

text \<open>
  The producer's \<open>PublishEvents\<close> and its two one-event forms, the contract its callers rely on
  (locale \<open>publisher\<close>, interpreted on \<open>PublishEvents\<close>), the consumer of finished bookings with
  its commits, and the adaptor that carries trace headers in messages. The broker keeps what it
  stored in order. kafka-go's writer and reader are not part of the repository: how a write
  ends is read off \<open>kfates\<close>. \<open>json.Marshal\<close> cannot fail on a struct of strings, so the branch
  that skips an event is never taken.
\<close>

definition TopicAdmissions :: string where "TopicAdmissions = ''admissions''"
definition TopicRevoked :: string where "TopicRevoked = ''admissions-revoked''"
definition TopicCompleted :: string where "TopicCompleted = ''bookings-completed''"

lemma topics_differ [simp]:
  "TopicAdmissions \<noteq> TopicRevoked" "TopicRevoked \<noteq> TopicAdmissions"
  by (simp_all add: TopicAdmissions_def TopicRevoked_def)

subsection \<open>The trace header carrier\<close>

type_synonym headers = "(string \<times> string) list"

fun carrier_Get :: "headers \<Rightarrow> string \<Rightarrow> string" where
  "carrier_Get [] key = []"
| "carrier_Get ((k, v) # hs) key = (if k = key then v else carrier_Get hs key)"

fun carrier_Set :: "headers \<Rightarrow> string \<Rightarrow> string \<Rightarrow> headers" where
  "carrier_Set [] key val = [(key, val)]"
| "carrier_Set ((k, v) # hs) key val =
     (if k = key then (k, val) # hs else (k, v) # carrier_Set hs key val)"

definition carrier_Keys :: "headers \<Rightarrow> string list" where
  "carrier_Keys hs = map fst hs"

text \<open>After \<open>Set\<close>, \<open>Get\<close> returns the value under that key and the old one under any other,
  and \<open>Keys\<close> gains the key at the end if it was not there: no header is ever doubled.\<close>

lemma header_carrier_set_get:
  "carrier_Get (carrier_Set hs key val) k = (if k = key then val else carrier_Get hs k) \<and>
   carrier_Keys (carrier_Set hs key val) =
     (if key \<in> set (carrier_Keys hs) then carrier_Keys hs else carrier_Keys hs @ [key])"
  by (induction hs key val rule: carrier_Set.induct) (auto simp: carrier_Keys_def)

subsection \<open>Publishing\<close>

text \<open>\<open>json.Marshal\<close> of an \<open>Event\<close>; an empty reason is left out (\<open>omitempty\<close>).\<close>

definition marshalEvent :: "Event \<Rightarrow> string" where
  "marshalEvent e =
     ''{'' @ json_key ''requestId'' @ json_string (eRequestID e) @ '','' @ json_key ''movieId''
     @ json_string (eMovieID e)
     @ (if eReason e = [] then [] else '','' @ json_key ''reason'' @ json_string (eReason e)) @ ''}''"

definition event_message :: "string \<Rightarrow> Event \<Rightarrow> message" where
  "event_message topic e = \<lparr>mTopic = topic, mKey = eRequestID e, mValue = marshalEvent e\<rparr>"

text \<open>The messages of an attempt that the broker stored; a missing mark means it did not.\<close>

fun stored :: "bool list \<Rightarrow> message list \<Rightarrow> message list" where
  "stored (b # bs) (m # ms) = (if b then m # stored bs ms else stored bs ms)"
| "stored _ _ = []"

definition WriteMessages :: "message list \<Rightarrow> 'db world \<Rightarrow> go_error option \<times> 'db world" where
  "WriteMessages ms w =
     (case (case kfates w of [] \<Rightarrow> KFate [] True | f # _ \<Rightarrow> f) of KFate lost ok \<Rightarrow>
        ((if ok then None else Some KafkaDown),
         w\<lparr>kfates := tl (kfates w),
           broker := broker w @ concat (map (\<lambda>marks. stored marks ms) lost) @ (if ok then ms else [])\<rparr>))"

text \<open>One place counts what was published and what failed.\<close>

definition PublishEvents :: "string \<Rightarrow> Event list \<Rightarrow> 'db world \<Rightarrow> go_error option \<times> 'db world" where
  "PublishEvents topic evs w =
     (if evs = [] then (None, w)
      else
        (let msgs = map (event_message topic) evs in
         case WriteMessages msgs w of
           (Some err, w) \<Rightarrow>
             (Some err, w\<lparr>PublishFailures := PublishFailures w + int (length msgs)\<rparr>)
         | (None, w) \<Rightarrow>
             (None, w\<lparr>publishedTotal :=
                (publishedTotal w)(topic := publishedTotal w topic + int (length msgs))\<rparr>)))"

definition admission :: "string \<Rightarrow> string \<Rightarrow> Event" where
  "admission requestID movieID = \<lparr>eRequestID = requestID, eMovieID = movieID, eReason = []\<rparr>"

definition revocation :: "string \<Rightarrow> string \<Rightarrow> string \<Rightarrow> Event" where
  "revocation requestID movieID reason =
     \<lparr>eRequestID = requestID, eMovieID = movieID, eReason = reason\<rparr>"

definition PublishAdmission :: "string \<Rightarrow> string \<Rightarrow> 'db world \<Rightarrow> go_error option \<times> 'db world" where
  "PublishAdmission requestID movieID = PublishEvents TopicAdmissions [admission requestID movieID]"

definition PublishRevoke ::
  "string \<Rightarrow> string \<Rightarrow> string \<Rightarrow> 'db world \<Rightarrow> go_error option \<times> 'db world" where
  "PublishRevoke requestID movieID reason =
     PublishEvents TopicRevoked [revocation requestID movieID reason]"

lemma set_stored: "set (stored marks ms) \<subseteq> set ms"
  by (induction marks ms rule: stored.induct) auto

subsection \<open>What callers rely on\<close>

text \<open>The interface \<open>AdmissionPublisher\<close> of the processor package, with the contract its
  implementations promise: no error means that every event is in the broker, in order and
  after everything stored before; an error may leave any of them there; nothing else of the
  world that the callers look at changes.\<close>

type_synonym 'db publish = "string \<Rightarrow> Event list \<Rightarrow> 'db world \<Rightarrow> go_error option \<times> 'db world"

locale publisher =
  fixes publish :: "'db publish"
  assumes pub_acked: "fst (publish topic evs w) = None \<Longrightarrow>
      \<exists>xs. broker (snd (publish topic evs w)) = broker w @ xs @ map (event_message topic) evs \<and>
        set xs \<subseteq> set (map (event_message topic) evs)"
    and pub_failed: "\<exists>xs. broker (snd (publish topic evs w)) = broker w @ xs \<and>
        set xs \<subseteq> set (map (event_message topic) evs)"
    and pub_db: "rdb (snd (publish topic evs w)) = rdb w"
    and pub_fates: "fates (snd (publish topic evs w)) = fates w"
    and pub_clock: "clock (snd (publish topic evs w)) = clock w"
begin

lemma pub_good: "good P w \<Longrightarrow> good P (snd (publish topic evs w))"
  using good_same [OF pub_db pub_fates] by blast

lemma pub_in_broker:
  "fst (publish topic evs w) = None \<Longrightarrow>
     set (broker (snd (publish topic evs w))) = set (broker w) \<union> set (map (event_message topic) evs)"
  using pub_acked [of topic evs w] by auto

lemma pub_broker_grows:
  "set (broker w) \<subseteq> set (broker (snd (publish topic evs w)))"
  "set (broker (snd (publish topic evs w))) \<subseteq> set (broker w) \<union> set (map (event_message topic) evs)"
  using pub_failed [of topic evs w] by auto

end

lemma PublishEvents_fields:
  "rdb (snd (PublishEvents topic evs w)) = rdb w"
  "fates (snd (PublishEvents topic evs w)) = fates w"
  "clock (snd (PublishEvents topic evs w)) = clock w"
  by (auto simp: PublishEvents_def WriteMessages_def Let_def split: prod.splits option.splits
      kfate.splits list.splits)

lemma PublishEvents_broker:
  "\<exists>xs. broker (snd (PublishEvents topic evs w)) = broker w @ xs @
       (if fst (PublishEvents topic evs w) = None then map (event_message topic) evs else []) \<and>
     set xs \<subseteq> set (map (event_message topic) evs)"
proof -
  obtain lost ok where f: "(case kfates w of [] \<Rightarrow> KFate [] True | f # _ \<Rightarrow> f) = KFate lost ok"
    by (meson kfate.exhaust)
  show ?thesis
    using set_stored [of _ "map (event_message topic) evs"]
    by (auto simp: PublishEvents_def WriteMessages_def Let_def f)
qed

interpretation producer: publisher PublishEvents
proof (unfold_locales, goal_cases)
  case (1 topic evs w)
  then show ?case using PublishEvents_broker [of topic evs w] by simp
next
  case (2 topic evs w)
  show ?case
    using PublishEvents_broker [of topic evs w] by (cases "fst (PublishEvents topic evs w)") fastforce+
qed (simp_all add: PublishEvents_fields)

subsection \<open>Consuming finished bookings\<close>

text \<open>What FetchMessage hands over: the event, or None where \<open>json.Unmarshal\<close> fails, and the
  time at the producer.\<close>

record delivery =
  dEvent :: "Event option"
  dTime :: int

definition ObserveCompletedLag :: "int \<Rightarrow> 'db world \<Rightarrow> 'db world" where
  "ObserveCompletedLag d w =
     (let w = w\<lparr>completedTotal := completedTotal w + 1\<rparr> in
      if d < 0 then w else w\<lparr>completedLagCount := completedLagCount w + 1\<rparr>)"

text \<open>A commit of message \<open>i\<close> sets the group's offset of the partition to the one after it; a
  commit that fails is only logged.\<close>

definition commit :: "nat \<Rightarrow> nat \<times> 'db world \<Rightarrow> nat \<times> 'db world" where
  "commit i cw =
     (case cw of (committed, w) \<Rightarrow>
        (case (case kfates w of [] \<Rightarrow> KFate [] True | f # _ \<Rightarrow> f) of KFate lost ok \<Rightarrow>
           ((if ok then Suc i else committed), w\<lparr>kfates := tl (kfates w)\<rparr>)))"

text \<open>The body of the loop on message \<open>i\<close> of the partition.\<close>

definition consume_message :: "'db redis \<Rightarrow> nat \<Rightarrow> delivery \<Rightarrow> nat \<times> 'db world \<Rightarrow> nat \<times> 'db world" where
  "consume_message R i d cw =
     (case cw of (committed, w) \<Rightarrow>
        (case dEvent d of
           None \<Rightarrow> commit i (committed, w)
         | Some e \<Rightarrow>
             (case CompleteActive R (eMovieID e) (eRequestID e) w of
                (Inl err, w) \<Rightarrow> (committed, w\<lparr>ConsumeFailures := ConsumeFailures w + 1\<rparr>)
              | (Inr removed, w) \<Rightarrow>
                  (case now_ms w of (now, w) \<Rightarrow>
                     let w = ObserveCompletedLag (now - dTime d) w in
                     if removed then
                       (case now_ms w of (now, w) \<Rightarrow>
                        case AppendEvents R (eMovieID e) ''RETURN'' [eRequestID e] now w of
                          (_, w) \<Rightarrow> commit i (committed, w))
                     else commit i (committed, w)))))"

text \<open>The loop over what is fetched; None is a fetch that failed, after which it goes on. It
  ends when the context does, here with the list.\<close>

fun ConsumeCompleted ::
  "'db redis \<Rightarrow> (nat \<times> delivery) option list \<Rightarrow> nat \<times> 'db world \<Rightarrow> nat \<times> 'db world" where
  "ConsumeCompleted R [] cw = cw"
| "ConsumeCompleted R (None # ms) cw = ConsumeCompleted R ms cw"
| "ConsumeCompleted R (Some (i, d) # ms) cw = ConsumeCompleted R ms (consume_message R i d cw)"

definition complete_cmds :: "string \<Rightarrow> string \<Rightarrow> cmd set" where
  "complete_cmds m q = insert (CComplete m q) (feed_cmds m)"

lemma ObserveCompletedLag_fields [simp]:
  "rdb (ObserveCompletedLag d w) = rdb w" "fates (ObserveCompletedLag d w) = fates w"
  "clock (ObserveCompletedLag d w) = clock w" "kfates (ObserveCompletedLag d w) = kfates w"
  by (simp_all add: ObserveCompletedLag_def Let_def)

lemma commit_fields [simp]:
  "rdb (snd (commit i cw)) = rdb (snd cw)" "fates (snd (commit i cw)) = fates (snd cw)"
  by (simp_all add: commit_def split: prod.splits kfate.splits)

lemma good_counters [simp]:
  "good P (ObserveCompletedLag d w) = good P w" "good P (snd (commit i cw)) = good P (snd cw)"
  "good P (w\<lparr>ConsumeFailures := n\<rparr>) = good P w"
  by (simp_all add: good_def)

lemma consume_message_good:
  assumes "keeps R cap C P" and "\<And>e. dEvent d = Some e \<Longrightarrow> complete_cmds (eMovieID e) (eRequestID e) \<subseteq> C"
    and "good P (snd cw)"
  shows "good P (snd (consume_message R i d cw))"
proof (cases "dEvent d")
  case None
  with assms(3) show ?thesis by (simp add: consume_message_def split_beta)
next
  case (Some e)
  have C: "CComplete (eMovieID e) (eRequestID e) \<in> C" "feed_cmds (eMovieID e) \<subseteq> C"
    using assms(2) [OF Some] by (auto simp: complete_cmds_def)
  show ?thesis
    using CompleteActive_good [OF assms(1) C(1) assms(3)]
    by (simp add: consume_message_def Some split_beta Let_def AppendEvents_good [OF assms(1) C(2)]
        split: sum.splits)
qed

end
