(* ===== verification/Processors.thy ===== *)
theory Processors
  imports Kafka
begin

section \<open>The background loops (processor/*.go)\<close>

text \<open>
  The four loops: promotion (\<open>queue.go\<close>), the sweep of the journal (\<open>sweep.go\<close>), the timeout of
  sessions (\<open>timeout.go\<close>) and of waiting visitors (\<open>waiting_timeout.go\<close>). Each is a function on
  worlds: one movie's work, one tick over the movies, the loop over ticks. The publisher is an
  argument, None standing for Go's nil interface value; what it must do is the contract of
  \<open>Kafka\<close>. Times are milliseconds.
\<close>

definition promotePause :: int where "promotePause = 10000"

definition Promoted :: "string \<Rightarrow> int \<Rightarrow> 'db world \<Rightarrow> 'db world" where
  "Promoted movieID n w =
     (if n > 0 then w\<lparr>promotedTotal := (promotedTotal w)(movieID := promotedTotal w movieID + n)\<rparr>
      else w)"

definition LoopTick :: "string \<Rightarrow> 'db world \<Rightarrow> 'db world" where
  "LoopTick loop w = (case now_ms w of (now, w) \<Rightarrow> w\<lparr>loopLastTick := (loopLastTick w)(loop := now)\<rparr>)"

text \<open>The shape the four \<open>Start\<close> share: a tick runs the body and stamps its end; the loop ends
  when the context is done.\<close>

datatype wakeup = Tick | Done

fun Start :: "string \<Rightarrow> ('db world \<Rightarrow> 'db world) \<Rightarrow> wakeup list \<Rightarrow> 'db world \<Rightarrow> 'db world" where
  "Start loop processAll [] w = w"
| "Start loop processAll (Done # es) w = w"
| "Start loop processAll (Tick # es) w = Start loop processAll es (LoopTick loop (processAll w))"

subsection \<open>queue.go\<close>

text \<open>Publishing what a promotion admitted; the result is the number that counts for the rate.\<close>

definition publish_admitted ::
  "'db redis \<Rightarrow> 'db publish option \<Rightarrow> string \<Rightarrow> string list \<Rightarrow> 'db world \<Rightarrow> int \<times> 'db world" where
  "publish_admitted R pub movieID admitted w =
     (case pub of
        None \<Rightarrow> (int (length admitted), w)
      | Some publish \<Rightarrow>
          let evs = map (\<lambda>requestID. admission requestID movieID) admitted;
              ms = map (PendingMember KindAdmit ReasonPromote) admitted
          in (case publish TopicAdmissions evs w of
                (Some err, w) \<Rightarrow>
                  (case SetPromotePause R promotePause w of (_, w) \<Rightarrow> (0, w))
              | (None, w) \<Rightarrow>
                  (case ClearPending R movieID ms w of (_, w) \<Rightarrow>
                     (int (length admitted), w))))"

definition processMovie ::
  "'db redis \<Rightarrow> 'db publish option \<Rightarrow> int \<Rightarrow> int \<Rightarrow> string \<Rightarrow> 'db world \<Rightarrow> 'db world" where
  "processMovie R pub maxSessions batchSize movieID w =
     (case WaitingCount R movieID w of
        (Inl err, w) \<Rightarrow> w
      | (Inr waiting, w) \<Rightarrow>
          if waiting \<le> 0 then w
          else
            (case now_ms w of (now, w) \<Rightarrow>
             case Promote R movieID maxSessions batchSize now w of
               (Inl err, w) \<Rightarrow> w
             | (Inr admitted, w) \<Rightarrow>
                 if admitted = [] then w
                 else
                   (case publish_admitted R pub movieID admitted
                           (Promoted movieID (int (length admitted)) w) of (published, w) \<Rightarrow>
                    let w = (if published > 0
                             then (case now_ms w of (now, w) \<Rightarrow>
                                     snd (ObservePromotion R movieID published (unix_sec now) w))
                             else w)
                    in (case now_ms w of (now, w) \<Rightarrow>
                          snd (AppendEvents R movieID ''PROMOTE'' admitted now w)))))"

definition queue_processAll ::
  "'db redis \<Rightarrow> 'db publish option \<Rightarrow> int \<Rightarrow> int \<Rightarrow> 'db world \<Rightarrow> 'db world" where
  "queue_processAll R pub maxSessions batchSize w =
     (case PromotePaused R w of
        (Inr True, w) \<Rightarrow> w
      | (_, w) \<Rightarrow>
          (case ActiveQueueMovies R w of
             (Inl err, w) \<Rightarrow> w
           | (Inr movies, w) \<Rightarrow> fold (processMovie R pub maxSessions batchSize) movies w))"

subsection \<open>sweep.go\<close>

definition publishAndClear ::
  "'db redis \<Rightarrow> 'db publish \<Rightarrow> string \<Rightarrow> string \<Rightarrow> Event list \<Rightarrow> string list \<Rightarrow> 'db world \<Rightarrow> 'db world"
where
  "publishAndClear R publish movieID topic evs ms w =
     (if evs = [] then w
      else
        (case publish topic evs w of
           (Some err, w) \<Rightarrow> w
         | (None, w) \<Rightarrow> snd (ClearPending R movieID ms w)))"

text \<open>Sorting the journal's events by topic; a member of an unknown kind is removed on the way.\<close>

record sorted_events =
  admits_of :: "Event list"
  admitMembers :: "string list"
  revokes_of :: "Event list"
  revokeMembers :: "string list"

fun sweep_sort ::
  "'db redis \<Rightarrow> string \<Rightarrow> PendingEvent list \<Rightarrow> sorted_events \<times> 'db world \<Rightarrow> sorted_events \<times> 'db world"
where
  "sweep_sort R movieID [] sw = sw"
| "sweep_sort R movieID (e # es) (s, w) =
     (if pKind e = KindAdmit then
        sweep_sort R movieID es
          (s\<lparr>admits_of := admits_of s @ [admission (pRequestID e) movieID],
             admitMembers := admitMembers s @ [pMember e]\<rparr>, w)
      else if pKind e = KindRevoke then
        sweep_sort R movieID es
          (s\<lparr>revokes_of := revokes_of s @ [revocation (pRequestID e) movieID (pReason e)],
             revokeMembers := revokeMembers s @ [pMember e]\<rparr>, w)
      else sweep_sort R movieID es (s, snd (ClearPending R movieID [pMember e] w)))"

definition sweepMovie ::
  "'db redis \<Rightarrow> 'db publish \<Rightarrow> int \<Rightarrow> int \<Rightarrow> string \<Rightarrow> 'db world \<Rightarrow> 'db world" where
  "sweepMovie R publish batch cutoff movieID w =
     (case PendingBefore R movieID cutoff batch w of
        (Inl err, w) \<Rightarrow> w
      | (Inr events, w) \<Rightarrow>
          if events = [] then w
          else
            (case sweep_sort R movieID events
                    (\<lparr>admits_of = [], admitMembers = [], revokes_of = [], revokeMembers = []\<rparr>, w) of
               (s, w) \<Rightarrow>
                 let w = publishAndClear R publish movieID TopicAdmissions
                           (admits_of s) (admitMembers s) w
                 in publishAndClear R publish movieID TopicRevoked
                      (revokes_of s) (revokeMembers s) w))"

definition sweep_processAll ::
  "'db redis \<Rightarrow> 'db publish option \<Rightarrow> int \<Rightarrow> int \<Rightarrow> 'db world \<Rightarrow> 'db world" where
  "sweep_processAll R pub grace batch w =
     (case pub of
        None \<Rightarrow> w
      | Some publish \<Rightarrow>
          (case ActiveQueueMovies R w of
             (Inl err, w) \<Rightarrow> w
           | (Inr movies, w) \<Rightarrow>
               (case now_ms w of (now, w) \<Rightarrow>
                  fold (sweepMovie R publish batch (now - grace)) movies w)))"

subsection \<open>timeout.go and waiting\_timeout.go\<close>

definition timeout_movie :: "'db redis \<Rightarrow> int \<Rightarrow> int \<Rightarrow> string \<Rightarrow> 'db world \<Rightarrow> 'db world" where
  "timeout_movie R cutoff now movieID w =
     (case ExpireActive R movieID cutoff now w of
        (Inl err, w) \<Rightarrow> w
      | (Inr expired, w) \<Rightarrow>
          let w = (if expired \<noteq> []
                   then snd (AppendEvents R movieID ''SESSION_EXPIRE'' expired now w) else w)
          in snd (UntrackIfIdle R movieID w))"

definition timeout_processAll :: "'db redis \<Rightarrow> int \<Rightarrow> 'db world \<Rightarrow> 'db world" where
  "timeout_processAll R timeout w =
     (case ActiveQueueMovies R w of
        (Inl err, w) \<Rightarrow> w
      | (Inr movies, w) \<Rightarrow>
          (case now_ms w of (now, w) \<Rightarrow> fold (timeout_movie R (now - timeout) now) movies w))"

definition waiting_movie :: "'db redis \<Rightarrow> int \<Rightarrow> string \<Rightarrow> 'db world \<Rightarrow> 'db world" where
  "waiting_movie R cutoff movieID w =
     (case ExpireWaiting R movieID cutoff w of
        (Inl err, w) \<Rightarrow> w
      | (Inr evicted, w) \<Rightarrow>
          if evicted \<noteq> []
          then (case now_ms w of (now, w) \<Rightarrow>
                  snd (AppendEvents R movieID ''WAIT_EXPIRE'' evicted now w))
          else w)"

definition waiting_processAll :: "'db redis \<Rightarrow> int \<Rightarrow> 'db world \<Rightarrow> 'db world" where
  "waiting_processAll R timeout w =
     (case ActiveQueueMovies R w of
        (Inl err, w) \<Rightarrow> w
      | (Inr movies, w) \<Rightarrow>
          (case now_ms w of (now, w) \<Rightarrow> fold (waiting_movie R (now - timeout)) movies w))"

subsection \<open>Each loop is a list of commands\<close>

text \<open>The commands the loops send for a movie.\<close>

definition timeout_cmds :: "string \<Rightarrow> cmd set" where
  "timeout_cmds m = range (\<lambda>(c, t). CExpire m c t) \<union> range (\<lambda>c. CExpireWaiting m c)
     \<union> {CUntrack m} \<union> feed_cmds m"

definition promote_cmds :: "string \<Rightarrow> cmd set" where
  "promote_cmds m = range (\<lambda>(b, t). CPromote m b t) \<union> range CPause \<union> feed_cmds m \<union> rate_cmds m"

definition loop_cmds :: "string \<Rightarrow> cmd set" where
  "loop_cmds m = timeout_cmds m \<union> promote_cmds m \<union> range (\<lambda>ms. CClear m ms)"

lemma in_loop_cmds [simp]:
  "CPromote m b t \<in> loop_cmds m" "CExpire m c t \<in> loop_cmds m" "CExpireWaiting m c \<in> loop_cmds m"
  "CUntrack m \<in> loop_cmds m" "CClear m ms \<in> loop_cmds m" "CPause d \<in> loop_cmds m"
  "feed_cmds m \<subseteq> loop_cmds m" "rate_cmds m \<subseteq> loop_cmds m"
  by (auto simp: loop_cmds_def timeout_cmds_def promote_cmds_def)

lemma in_timeout_cmds [simp]:
  "CExpire m c t \<in> timeout_cmds m" "CExpireWaiting m c \<in> timeout_cmds m"
  "CUntrack m \<in> timeout_cmds m" "feed_cmds m \<subseteq> timeout_cmds m" "timeout_cmds m \<subseteq> loop_cmds m"
  by (auto simp: loop_cmds_def timeout_cmds_def)

lemma good_metrics [simp]:
  "good P (Promoted m n w) = good P w" "good P (LoopTick loop w) = good P w"
  by (rule good_same; simp add: Promoted_def LoopTick_def split_beta)+

lemma fold_good: "(\<And>m w. good P w \<Longrightarrow> good P (f m w)) \<Longrightarrow> good P w \<Longrightarrow> good P (fold f ms w)"
  by (induction ms arbitrary: w) auto

lemma Start_good:
  "(\<And>w. good P w \<Longrightarrow> good P (body w)) \<Longrightarrow> good P w \<Longrightarrow> good P (Start loop body es w)"
  by (induction loop body es w rule: Start.induct) auto

context publisher
begin

lemma publish_admitted_good:
  assumes "keeps R cap C P" and "loop_cmds m \<subseteq> C" and "good P w"
  shows "good P (snd (publish_admitted R (Some publish) m us w))"
proof -
  have "CPause d \<in> C" "CClear m ms \<in> C" for d ms
    using assms(2) in_loop_cmds by blast+
  with assms(1,3) show ?thesis
    by (simp add: publish_admitted_def split_beta Let_def pub_good SetPromotePause_good
        ClearPending_good split: option.splits)
qed

lemma processMovie_good:
  assumes "keeps R cap C P" and "loop_cmds m \<subseteq> C" and "good P w"
  shows "good P (processMovie R (Some publish) cap batch m w)"
proof -
  have C: "CPromote m b t \<in> C" "feed_cmds m \<subseteq> C" "rate_cmds m \<subseteq> C" for b t
    using assms(2) in_loop_cmds by blast+
  from assms(3) show ?thesis
    by (simp add: processMovie_def split_beta Let_def reads_good publish_admitted_good [OF assms(1,2)]
        Promote_good [OF assms(1) C(1)] ObservePromotion_good [OF assms(1) C(3)]
        AppendEvents_good [OF assms(1) C(2)] split: sum.splits)
qed

lemma publishAndClear_good:
  assumes "keeps R cap C P" and "CClear m ms \<in> C" and "good P w"
  shows "good P (publishAndClear R publish m topic evs ms w)"
  using assms ClearPending_good [OF assms(1,2)]
  by (simp add: publishAndClear_def split_beta pub_good split: option.splits)

lemma sweep_sort_good:
  assumes "keeps R cap C P" and "\<And>ms. CClear m ms \<in> C" and "good P (snd sw)"
  shows "good P (snd (sweep_sort R m es sw))"
  using assms(3)
proof (induction es arbitrary: sw)
  case (Cons e es)
  obtain s w where sw: "sw = (s, w)" by (cases sw)
  with Cons show ?case by (simp add: ClearPending_good [OF assms(1,2)])
qed simp

lemma sweepMovie_good:
  assumes "keeps R cap C P" and "loop_cmds m \<subseteq> C" and "good P w"
  shows "good P (sweepMovie R publish batch cutoff m w)"
proof -
  have C: "CClear m ms \<in> C" for ms using assms(2) in_loop_cmds by blast
  note sweep_sort_good [OF assms(1) C] publishAndClear_good [OF assms(1) C]
  then show ?thesis
    using PendingBefore_good [OF assms(1) C assms(3)]
    by (simp add: sweepMovie_def split_beta Let_def split: sum.splits)
qed

end

lemma timeout_movie_good:
  assumes "keeps R cap C P" and "timeout_cmds m \<subseteq> C" and "good P w"
  shows "good P (timeout_movie R cutoff now m w)"
proof -
  have C: "CExpire m c t \<in> C" "feed_cmds m \<subseteq> C" "CUntrack m \<in> C" for c t
    using assms(2) in_timeout_cmds by blast+
  from assms(3) show ?thesis
    by (simp add: timeout_movie_def split_beta Let_def ExpireActive_good [OF assms(1) C(1)]
        AppendEvents_good [OF assms(1) C(2)] UntrackIfIdle_good [OF assms(1) C(3)] split: sum.splits)
qed

lemma waiting_movie_good:
  assumes "keeps R cap C P" and "timeout_cmds m \<subseteq> C" and "good P w"
  shows "good P (waiting_movie R cutoff m w)"
proof -
  have C: "CExpireWaiting m c \<in> C" "feed_cmds m \<subseteq> C" for c
    using assms(2) in_timeout_cmds by blast+
  from assms(3) show ?thesis
    by (simp add: waiting_movie_def split_beta Let_def ExpireWaiting_good [OF assms(1) C(1)]
        AppendEvents_good [OF assms(1) C(2)] split: sum.splits)
qed

subsection \<open>A whole tick\<close>

definition all_timeout_cmds :: "cmd set" where
  "all_timeout_cmds = (\<Union>m. timeout_cmds m)"

definition all_loop_cmds :: "cmd set" where
  "all_loop_cmds = (\<Union>m. loop_cmds m)"

lemma loop_cmds_all: "loop_cmds m \<subseteq> all_loop_cmds" "timeout_cmds m \<subseteq> all_timeout_cmds"
  by (auto simp: all_loop_cmds_def all_timeout_cmds_def)

lemma timeouts_good:
  assumes "keeps R cap all_timeout_cmds P" and "good P w"
  shows "good P (timeout_processAll R timeout w)" and "good P (waiting_processAll R timeout w)"
  using assms(2)
  by (simp_all add: timeout_processAll_def waiting_processAll_def split_beta reads_good
      fold_good timeout_movie_good [OF assms(1) loop_cmds_all(2)]
      waiting_movie_good [OF assms(1) loop_cmds_all(2)] split: sum.splits)

context publisher
begin

lemma queue_processAll_good:
  assumes "keeps R cap all_loop_cmds P" and "good P w"
  shows "good P (queue_processAll R (Some publish) cap batch w)"
  using assms(2)
  by (simp add: queue_processAll_def split_beta reads_good fold_good
      processMovie_good [OF assms(1) loop_cmds_all(1)] split: sum.splits bool.splits)

lemma sweep_processAll_good:
  assumes "keeps R cap all_loop_cmds P" and "good P w"
  shows "good P (sweep_processAll R (Some publish) grace batch w)"
  using assms(2)
  by (simp add: sweep_processAll_def split_beta reads_good fold_good
      sweepMovie_good [OF assms(1) loop_cmds_all(1)] split: sum.splits)

end

end
