(* ===== verification/Floats.thy ===== *)
theory Floats
  imports GoStd Complex_Main
begin

section \<open>float64 and strconv.ParseFloat\<close>

text \<open>
  A finite positive \<open>float64\<close> is a rational here. \<open>f64\<close> is the rounding of IEEE 754 to 53
  significant bits, ties to even, for values in the range of normal numbers; \<open>float64\<close> rounds
  the smaller ones to a multiple of the least positive number. \<open>ParseFloat\<close> follows the grammar
  of Go's floating-point literals.
\<close>

text \<open>The integer nearest to \<open>a / b\<close>, the even one of two equally near.\<close>

definition round_even :: "int \<Rightarrow> int \<Rightarrow> int" where
  "round_even a b =
     (let q = a div b; r = a mod b in
      if 2 * r < b then q else if 2 * r > b then q + 1 else if even q then q else q + 1)"

text \<open>The number of halvings that bring \<open>a / b\<close> under \<open>2 ^ 53\<close>, and of doublings that bring it to
  \<open>2 ^ 52\<close> at least.\<close>

function halvings :: "int \<Rightarrow> int \<Rightarrow> nat" where
  "halvings a b = (if 0 < b \<and> 2 ^ 53 * b \<le> a then Suc (halvings a (2 * b)) else 0)"
  by auto
termination by (relation "measure (\<lambda>(a, b). nat (a - b))") auto

function doublings :: "int \<Rightarrow> int \<Rightarrow> nat" where
  "doublings a b = (if 0 < a \<and> a < 2 ^ 52 * b then Suc (doublings (2 * a) b) else 0)"
  by auto
termination by (relation "measure (\<lambda>(a, b). nat (2 ^ 52 * b - a))") auto

declare halvings.simps [simp del] doublings.simps [simp del]

definition f64 :: "rat \<Rightarrow> rat" where
  "f64 x =
     (let (a, b) = quotient_of x in
      if a \<le> 0 then 0
      else if 2 ^ 52 * b \<le> a
      then (let h = halvings a b in of_int (round_even a (b * 2 ^ h)) * 2 ^ h)
      else (let d = doublings a b in of_int (round_even (a * 2 ^ d) b) / 2 ^ d))"

text \<open>\<open>int64\<close> of a float64: truncation.\<close>

definition trunc :: "rat \<Rightarrow> int" where
  "trunc x = (if x < 0 then - \<lfloor>- x\<rfloor> else \<lfloor>x\<rfloor>)"

text \<open>\<open>Duration.Seconds\<close>: whole seconds and the rest, each as a \<open>float64\<close>.\<close>

definition Seconds :: "int \<Rightarrow> rat" where
  "Seconds d =
     (let s = \<bar>d\<bar> div 1000000000; n = \<bar>d\<bar> mod 1000000000;
          x = f64 (f64 (of_int s) + f64 (f64 (of_int n) / 1000000000))
      in if d < 0 then - x else x)"

subsection \<open>The error of the rounding\<close>

lemma round_even_error:
  assumes "0 < b"
  shows "2 * \<bar>round_even a b * b - a\<bar> \<le> b"
proof -
  have a: "(a div b) * b = a - a mod b" by (simp add: minus_mod_eq_div_mult)
  have m: "0 \<le> a mod b" "a mod b < b" using assms by simp_all
  have q: "(a div b) * b - a = - (a mod b)" "(a div b + 1) * b - a = b - a mod b"
    by (simp_all add: a distrib_right)
  show ?thesis
    using m by (auto simp: round_even_def Let_def q)
qed

lemma halvings_scaled:
  "0 < b \<Longrightarrow> 2 ^ 52 * b \<le> a \<Longrightarrow> 2 ^ 52 * (b * 2 ^ halvings a b) \<le> a"
proof (induction a b rule: halvings.induct)
  case (1 a b)
  show ?case
  proof (cases "2 ^ 53 * b \<le> a")
    case True
    have "2 ^ 52 * (2 * b) \<le> a" using True by simp
    then have "2 ^ 52 * ((2 * b) * 2 ^ halvings a (2 * b)) \<le> a"
      using 1 True by simp
    then show ?thesis using True 1 by (subst halvings.simps) (simp add: algebra_simps)
  next
    case False
    then show ?thesis using 1 by (subst halvings.simps) simp
  qed
qed

lemma doublings_scaled: "0 < a \<Longrightarrow> 2 ^ 52 * b \<le> a * 2 ^ doublings a b"
proof (induction a b rule: doublings.induct)
  case (1 a b)
  show ?case
  proof (cases "a < 2 ^ 52 * b")
    case True
    then have "2 ^ 52 * b \<le> (2 * a) * 2 ^ doublings (2 * a) b" using 1 by simp
    then show ?thesis using True 1 by (subst doublings.simps) (simp add: algebra_simps)
  next
    case False
    then show ?thesis by (subst doublings.simps) simp
  qed
qed

lemma round_even_relative:
  assumes "0 < b" and "2 ^ 52 * b \<le> a"
  shows "\<bar>of_int (round_even a b) - of_int a / of_int b\<bar> \<le> (of_int a / of_int b :: rat) / 2 ^ 53"
proof -
  have "2 ^ 53 * \<bar>round_even a b * b - a\<bar> \<le> 2 ^ 52 * b"
    using round_even_error [OF assms(1), of a] by simp
  then have "2 ^ 53 * \<bar>round_even a b * b - a\<bar> \<le> a" using assms(2) by linarith
  then have "of_int (2 ^ 53 * \<bar>round_even a b * b - a\<bar>) \<le> (of_int a :: rat)"
    by (simp only: of_int_le_iff)
  then have e: "2 ^ 53 * \<bar>of_int (round_even a b) * of_int b - of_int a\<bar> \<le> (of_int a :: rat)"
    by (simp add: of_int_abs)
  have "of_int (round_even a b) - of_int a / of_int b =
      (of_int (round_even a b) * of_int b - of_int a) / (of_int b :: rat)"
    using assms(1) by (simp add: field_simps)
  then have "\<bar>of_int (round_even a b) - of_int a / of_int b\<bar> =
      \<bar>of_int (round_even a b) * of_int b - of_int a\<bar> / (of_int b :: rat)"
    using assms(1) by (simp add: abs_divide)
  also have "\<dots> \<le> (of_int a / 2 ^ 53) / of_int b"
    using e assms(1) by (intro divide_right_mono) (simp_all add: field_simps)
  finally show ?thesis by (simp add: field_simps)
qed

lemma scaled_error:
  fixes y z c :: rat
  assumes "\<bar>z - y\<bar> \<le> y / 2 ^ 53" and "0 < c"
  shows "\<bar>z * c - y * c\<bar> \<le> y * c / 2 ^ 53"
proof -
  have "\<bar>z * c - y * c\<bar> = \<bar>z - y\<bar> * c"
    using assms(2) by (simp add: abs_mult flip: left_diff_distrib)
  also have "\<dots> \<le> y / 2 ^ 53 * c" using assms by (intro mult_right_mono) simp_all
  finally show ?thesis by simp
qed

lemma f64_error:
  assumes "0 < x"
  shows "\<bar>f64 x - x\<bar> \<le> x / 2 ^ 53"
proof -
  obtain a b where q: "quotient_of x = (a, b)" by (cases "quotient_of x")
  then have b: "0 < b" and x: "x = of_int a / of_int b"
    by (simp_all add: quotient_of_denom_pos quotient_of_div)
  with assms have a: "0 < a" by (simp add: zero_less_divide_iff)
  show ?thesis
  proof (cases "2 ^ 52 * b \<le> a")
    case True
    define h where "h = halvings a b"
    let ?y = "of_int a / of_int (b * 2 ^ h) :: rat"
    have "\<bar>of_int (round_even a (b * 2 ^ h)) - ?y\<bar> \<le> ?y / 2 ^ 53"
      using halvings_scaled [OF b True] b by (intro round_even_relative) (simp_all add: h_def)
    moreover have y: "?y * 2 ^ h = x" using b by (simp add: x)
    ultimately have "\<bar>of_int (round_even a (b * 2 ^ h)) * 2 ^ h - x\<bar> \<le> x / 2 ^ 53"
      using scaled_error [of _ ?y "2 ^ h"] unfolding y by simp
    with True a q show ?thesis by (simp add: f64_def h_def Let_def)
  next
    case False
    define d where "d = doublings a b"
    let ?y = "of_int (a * 2 ^ d) / of_int b :: rat"
    have "\<bar>of_int (round_even (a * 2 ^ d) b) - ?y\<bar> \<le> ?y / 2 ^ 53"
      using doublings_scaled [OF a, of b] b by (intro round_even_relative) (simp_all add: d_def)
    moreover have y: "?y * (1 / 2 ^ d) = x" by (simp add: x)
    ultimately have "\<bar>of_int (round_even (a * 2 ^ d) b) * (1 / 2 ^ d) - x\<bar> \<le> x / 2 ^ 53"
      using scaled_error [of _ ?y "1 / 2 ^ d"] unfolding y by simp
    with False a q show ?thesis by (simp add: f64_def d_def Let_def)
  qed
qed

subsection \<open>strconv.ParseFloat\<close>

definition float64 :: "rat \<Rightarrow> rat" where
  "float64 x =
     (if x * 2 ^ 1022 < 1
      then (let (a, b) = quotient_of x in of_int (round_even (a * 2 ^ 1074) b) / 2 ^ 1074)
      else f64 x)"

definition lower :: "char \<Rightarrow> char" where
  "lower c = (let n = of_char c :: nat in if 65 \<le> n \<and> n \<le> 90 then char_of (n + 32) else c)"

definition is_hex_digit :: "char \<Rightarrow> bool" where
  "is_hex_digit c \<longleftrightarrow> is_digit c \<or> (let n = of_char (lower c) :: nat in 97 \<le> n \<and> n \<le> 102)"

definition digit_val :: "char \<Rightarrow> nat" where
  "digit_val c = (if is_digit c then of_char c - 48 else of_char (lower c) - 87)"

text \<open>Underscores stand between digits or between the base prefix and a digit: \<open>seen\<close> is what the
  last character was, a digit (\<open>Some True\<close>), an underscore (\<open>Some False\<close>) or something else.\<close>

fun underscores_between :: "(char \<Rightarrow> bool) \<Rightarrow> bool option \<Rightarrow> string \<Rightarrow> bool" where
  "underscores_between dig seen [] \<longleftrightarrow> seen \<noteq> Some False"
| "underscores_between dig seen (c # s) \<longleftrightarrow>
     (if dig c then underscores_between dig (Some True) s
      else if c = CHR ''_'' then seen = Some True \<and> underscores_between dig (Some False) s
      else seen \<noteq> Some False \<and> underscores_between dig None s)"

definition has_prefix :: "char \<Rightarrow> string \<Rightarrow> bool" where
  "has_prefix p s \<longleftrightarrow> (case s of z # x # _ \<Rightarrow> z = CHR ''0'' \<and> lower x = p | _ \<Rightarrow> False)"

definition underscoreOK :: "string \<Rightarrow> bool" where
  "underscoreOK s =
     (if has_prefix (CHR ''x'') s then underscores_between is_hex_digit (Some True) (drop 2 s)
      else if has_prefix (CHR ''b'') s \<or> has_prefix (CHR ''o'') s
      then underscores_between is_digit (Some True) (drop 2 s)
      else underscores_between is_digit None s)"

definition strip_sign :: "string \<Rightarrow> bool \<times> string" where
  "strip_sign s =
     (case s of
        [] \<Rightarrow> (False, [])
      | c # cs \<Rightarrow> if c = CHR ''-'' then (True, cs) else if c = CHR ''+'' then (False, cs) else (False, s))"

definition parse_exp :: "string \<Rightarrow> int option" where
  "parse_exp s =
     (case strip_sign s of (neg, ds) \<Rightarrow>
        map_option (\<lambda>n. if neg then - int n else int n) (parse_digits ds))"

definition scale :: "nat \<Rightarrow> int \<Rightarrow> rat \<Rightarrow> rat" where
  "scale b k m = (if k \<ge> 0 then m * of_nat b ^ nat k else m / of_nat b ^ nat (- k))"

text \<open>A number without its sign: the mantissa to \<open>base\<close>, at least one digit with an optional point,
  and the exponent after \<open>mark\<close>, a power of \<open>expbase\<close>, which hexadecimal numbers must have.\<close>

definition parse_unsigned :: "nat \<Rightarrow> (char \<Rightarrow> bool) \<Rightarrow> char \<Rightarrow> nat \<Rightarrow> bool \<Rightarrow> string \<Rightarrow> rat option" where
  "parse_unsigned base dig mark expbase needs_exp s =
     (let i = takeWhile dig s; r = dropWhile dig s;
          (f, r) = (case r of
                      c # r' \<Rightarrow> if c = CHR ''.'' then (takeWhile dig r', dropWhile dig r') else ([], r)
                    | [] \<Rightarrow> ([], r));
          m = of_nat (foldl (\<lambda>a c. a * base + digit_val c) 0 (i @ f)) / of_nat base ^ length f
      in if i @ f = [] then None
         else
           (case r of
              [] \<Rightarrow> if needs_exp then None else Some m
            | c # e \<Rightarrow> if lower c = mark then map_option (\<lambda>k. scale expbase k m) (parse_exp e) else None))"

text \<open>None stands for the error return, and for NaN and the infinities, which no range check of
  the program passes either.\<close>

definition ParseFloat :: "string \<Rightarrow> rat option" where
  "ParseFloat s =
     (case strip_sign s of (neg, u) \<Rightarrow>
        if underscoreOK u then
          (let v = filter (\<lambda>c. c \<noteq> CHR ''_'') u;
               m = (if has_prefix (CHR ''x'') v
                    then parse_unsigned 16 is_hex_digit (CHR ''p'') 2 True (drop 2 v)
                    else parse_unsigned 10 is_digit (CHR ''e'') 10 False v)
           in map_option (\<lambda>x. if neg then - float64 x else float64 x) m)
        else None)"

lemma ParseFloat_examples:
  "parse_unsigned 10 is_digit (CHR ''e'') 10 False ''0.5'' = Some (1 / 2)"
  "parse_unsigned 10 is_digit (CHR ''e'') 10 False ''25e-2'' = Some (1 / 4)"
  "parse_unsigned 16 is_hex_digit (CHR ''p'') 2 True ''1p-3'' = Some (1 / 8)"
  "underscoreOK ''1_0''" "\<not> underscoreOK ''_1''" "ParseFloat ''0.1.2'' = None"
  "ParseFloat ''ratio'' = None" "ParseFloat [] = None"
  by code_simp+

end
