(* ===== verification/Eta.thy ===== *)
theory Eta
  imports Operations Floats
begin

section \<open>The expected waiting time (metrics/rate.go)\<close>

text \<open>
  The rate of promotion as the user's pages use it: the shared counters of the last ninety
  seconds, cached for two seconds per pod, and the division that turns a position into
  seconds. Go computes in \<open>float64\<close>: rationals here, rounded by \<open>f64\<close>. The values lie far inside
  the range of normal numbers, so neither overflow nor underflow is modelled.
\<close>

subsection \<open>The rate and its cache\<close>

definition PromotionRate :: "'db redis \<Rightarrow> string \<Rightarrow> int \<Rightarrow> 'db world \<Rightarrow> (go_error + rat) \<times> 'db world" where
  "PromotionRate R movieID nowSec w =
     (case PromotionTotal R movieID nowSec w of
        (Inl err, w) \<Rightarrow> (Inl err, w)
      | (Inr n, w) \<Rightarrow> (Inr (f64 (of_int n / of_int rateWindowSec)), w))"

definition rateCacheTTL :: int where "rateCacheTTL = 2000"

text \<open>A cached rate with the time it was read.\<close>

type_synonym rate_cache = "string \<Rightarrow> (rat \<times> int) option"

definition cached :: "rate_cache \<Rightarrow> string \<Rightarrow> rat" where
  "cached c movieID = (case c movieID of None \<Rightarrow> 0 | Some (v, t) \<Rightarrow> v)"

definition Rate ::
  "'db redis \<Rightarrow> string \<Rightarrow> rate_cache \<Rightarrow> 'db world \<Rightarrow> rat \<times> rate_cache \<times> 'db world" where
  "Rate R movieID c w =
     (case now_ms w of (now, w) \<Rightarrow>
        if (case c movieID of None \<Rightarrow> False | Some (v, t) \<Rightarrow> now - t < rateCacheTTL)
        then (cached c movieID, c, w)
        else
          (case PromotionRate R movieID (unix_sec now) w of
             (Inl err, w) \<Rightarrow> (cached c movieID, c, w)
           | (Inr v, w) \<Rightarrow> (v, c(movieID \<mapsto> (v, now)), w)))"

definition eta_of :: "rat \<Rightarrow> int \<Rightarrow> int" where
  "eta_of r position =
     (if r < 1 / 1000 \<or> position \<le> 0 then -1 else trunc (f64 (of_int position / r)))"

definition ETASeconds ::
  "'db redis \<Rightarrow> string \<Rightarrow> int \<Rightarrow> rate_cache \<Rightarrow> 'db world \<Rightarrow> int \<times> rate_cache \<times> 'db world" where
  "ETASeconds R movieID position c w =
     (case Rate R movieID c w of (r, c, w) \<Rightarrow> (eta_of r position, c, w))"

subsection \<open>How far the estimate is off\<close>

lemma eta_error:
  fixes t p :: int
  assumes "0 < t" and "t < 2 ^ 31" and "0 < p" and "p < 2 ^ 31"
  shows "\<bar>eta_of (f64 (of_int t / of_int rateWindowSec)) p - 90 * p div t\<bar> \<le> 1"
proof -
  let ?t = "of_int t :: rat" and ?p = "of_int p :: rat"
  define r where "r = f64 (?t / 90)"
  define e where "e = f64 (?p / r)"
  have tp: "1 \<le> ?t" "1 \<le> ?p" "?p < 2 ^ 31" using assms by simp_all
  have r: "\<bar>r - ?t / 90\<bar> \<le> ?t / 90 / 2 ^ 53"
    unfolding r_def using tp by (intro f64_error) simp
  then have "?t / 90 - ?t / 90 / 2 ^ 53 \<le> r" by linarith
  then have rpos: "1 / 100 < r" using tp by simp
  have pr: "0 < ?p / r" "?p / r \<le> 100 * 2 ^ 31"
  proof -
    show "0 < ?p / r" using tp rpos by simp
    have "?p \<le> 2 ^ 31 * (100 * r)" using tp rpos by simp
    then show "?p / r \<le> 100 * 2 ^ 31" using rpos by (simp add: divide_le_eq)
  qed
  have e: "\<bar>e - ?p / r\<bar> \<le> ?p / r / 2 ^ 53" unfolding e_def by (rule f64_error) (rule pr)
  have "?p / r / 2 ^ 53 \<le> ?p / r / 1" using pr(1) by (intro divide_left_mono) simp_all
  with e have e0: "0 \<le> e" by (simp add: abs_le_iff)
  note e
  also have "?p / r / 2 ^ 53 \<le> 100 * 2 ^ 31 / 2 ^ 53" using pr(2) by (rule divide_right_mono) simp
  finally have e1: "\<bar>e - ?p / r\<bar> \<le> 1 / 4" by simp
  let ?q = "of_int (90 * p) / ?t"
  have "?p / r - ?q = ?p / r * (?t / 90 - r) * (90 / ?t)"
    using tp rpos by (simp add: field_simps)
  then have "\<bar>?p / r - ?q\<bar> = ?p / r * \<bar>r - ?t / 90\<bar> * (90 / ?t)"
    using tp rpos pr(1) by (simp add: abs_mult abs_minus_commute)
  also have "\<dots> \<le> ?p / r * (?t / 90 / 2 ^ 53) * (90 / ?t)"
    using r tp pr(1) by (intro mult_right_mono mult_left_mono) simp_all
  also have "\<dots> = ?p / r / 2 ^ 53" using tp by simp
  also have "\<dots> \<le> 100 * 2 ^ 31 / 2 ^ 53" using pr(2) by (rule divide_right_mono) simp
  finally have "\<bar>?p / r - ?q\<bar> \<le> 1 / 4" by simp
  with e1 have eq: "\<bar>e - ?q\<bar> \<le> 1 / 2" by linarith
  have "eta_of r p = \<lfloor>e\<rfloor>"
    using rpos assms e0 by (simp add: eta_of_def e_def trunc_def)
  moreover have "\<lfloor>?q\<rfloor> = 90 * p div t" by (rule floor_divide_of_int_eq)
  moreover have "\<bar>\<lfloor>e\<rfloor> - \<lfloor>?q\<rfloor>\<bar> \<le> 1" using eq by linarith
  ultimately show ?thesis by (simp add: r_def rateWindowSec_def)
qed

lemma ETASeconds_good: "good P w \<Longrightarrow> good P (snd (snd (ETASeconds R m p c w)))"
  by (auto simp: ETASeconds_def Rate_def PromotionRate_def split_beta reads_good split: sum.splits)

end
