(* ===== verification/Handlers.thy ===== *)
theory Handlers
  imports Processors Eta
begin

section \<open>The HTTP handlers (handler/admission.go, handler/health.go)\<close>

text \<open>
  One function per handler, from the request's fields to the response and the world. gin's part
  is its documented one: \<open>ShouldBindJSON\<close> fails unless the body is an object that gives every
  required field a nonempty string, \<open>Query\<close> gives the empty string for a missing parameter.
  Texts for people are in English here; a response keeps its status and its fields in order.
\<close>

datatype json = JStr string | JInt int | JBool bool | JErr go_error | JEvents "FeedEvent list"

record response =
  rsStatus :: int
  rsBody :: "(string \<times> json) list"

abbreviation JSON :: "int \<Rightarrow> (string \<times> json) list \<Rightarrow> response" where
  "JSON status body \<equiv> \<lparr>rsStatus = status, rsBody = body\<rparr>"

definition StatusOK :: int where "StatusOK = 200"
definition StatusAccepted :: int where "StatusAccepted = 202"
definition StatusBadRequest :: int where "StatusBadRequest = 400"
definition StatusForbidden :: int where "StatusForbidden = 403"
definition StatusServiceUnavailable :: int where "StatusServiceUnavailable = 503"

lemmas status_defs = StatusOK_def StatusAccepted_def StatusBadRequest_def StatusForbidden_def
  StatusServiceUnavailable_def

definition error_body :: "string \<Rightarrow> (string \<times> json) list" where
  "error_body text = [(''error'', JStr text)]"

definition unavailable :: "go_error \<Rightarrow> response" where
  "unavailable err = JSON StatusServiceUnavailable [(''error'', JErr err)]"

definition bad_request :: response where
  "bad_request = JSON StatusBadRequest (error_body ''movieId, requestId required'')"

definition missing_movie :: response where
  "missing_movie = JSON StatusBadRequest (error_body ''movieId required'')"

definition bad_format :: response where
  "bad_format = JSON StatusBadRequest (error_body ''movieId, requestId: wrong format'')"

subsection \<open>Requests\<close>

text \<open>\<open>idPattern\<close>: one to 64 letters, digits, underscores or hyphens.\<close>

definition id_char :: "char \<Rightarrow> bool" where
  "id_char c \<longleftrightarrow>
     (let n = of_char c :: nat in
      65 \<le> n \<and> n \<le> 90 \<or> 97 \<le> n \<and> n \<le> 122 \<or> 48 \<le> n \<and> n \<le> 57 \<or> n = 95 \<or> n = 45)"

definition idPattern :: "string \<Rightarrow> bool" where
  "idPattern s \<longleftrightarrow> 1 \<le> length s \<and> length s \<le> 64 \<and> list_all id_char s"

definition rejectInvalidIDs :: "string list \<Rightarrow> bool" where
  "rejectInvalidIDs ids \<longleftrightarrow> \<not> list_all idPattern ids"

text \<open>A body that decodes into the struct gives its string fields, else None.\<close>

type_synonym body = "(string \<Rightarrow> string option) option"

definition required :: "(string \<Rightarrow> string option) \<Rightarrow> string \<Rightarrow> string option" where
  "required f name = (case f name of Some v \<Rightarrow> if v = [] then None else Some v | None \<Rightarrow> None)"

definition bind_movie :: "body \<Rightarrow> string option" where
  "bind_movie b = (case b of None \<Rightarrow> None | Some f \<Rightarrow> required f ''movieId'')"

definition bind_ids :: "body \<Rightarrow> (string \<times> string) option" where
  "bind_ids b =
     (case b of
        None \<Rightarrow> None
      | Some f \<Rightarrow>
          (case (required f ''movieId'', required f ''requestId'') of
             (Some m, Some q) \<Rightarrow> Some (m, q)
           | _ \<Rightarrow> None))"

subsection \<open>The handlers' state\<close>

record Admission =
  maxSessions :: int
  sessionSec :: int
  hasRate :: bool
  adminToken :: string

text \<open>\<open>NewAdmission\<close>; the timeout comes in nanoseconds, and Go's division truncates.\<close>

definition NewAdmission :: "int \<Rightarrow> int \<Rightarrow> bool \<Rightarrow> string \<Rightarrow> Admission" where
  "NewAdmission cap sessionTimeout rate token =
     \<lparr>maxSessions = cap, sessionSec = sgn sessionTimeout * (\<bar>sessionTimeout\<bar> div 1000000000), hasRate = rate,
      adminToken = token\<rparr>"

text \<open>\<open>Register\<close>: which routes exist.\<close>

definition routes :: "Admission \<Rightarrow> (string \<times> string) list" where
  "routes a =
     [(''POST'', ''/api/admission/enter''), (''GET'', ''/api/admission/position''),
      (''GET'', ''/api/admission/stats''), (''GET'', ''/api/admission/events''),
      (''POST'', ''/api/admission/leave''), (''POST'', ''/api/admission/complete'')]
     @ (if adminToken a \<noteq> [] then [(''POST'', ''/api/admission/reset'')] else [])"

definition requireAdmin :: "Admission \<Rightarrow> string \<Rightarrow> bool" where
  "requireAdmin a header \<longleftrightarrow> \<not> (adminToken a = [] \<or> header \<noteq> adminToken a)"

definition reset_handler ::
  "'db redis \<Rightarrow> Admission \<Rightarrow> string \<Rightarrow> body \<Rightarrow> 'db world \<Rightarrow> response \<times> 'db world" where
  "reset_handler R a header b w =
     (if \<not> requireAdmin a header then (JSON StatusForbidden (error_body ''forbidden''), w)
      else
        (case bind_movie b of
           None \<Rightarrow> (missing_movie, w)
         | Some movieID \<Rightarrow>
             if rejectInvalidIDs [movieID] then (bad_format, w)
             else
               (case now_ms w of (now, w) \<Rightarrow>
                case Reset R movieID (unix_sec now) w of
                  (Inl err, w) \<Rightarrow> (unavailable err, w)
                | (Inr _, w) \<Rightarrow>
                    (JSON StatusOK [(''status'', JStr ''RESET''), (''movieId'', JStr movieID)], w))))"

subsection \<open>enter\<close>

text \<open>The interface the handler needs of the publisher.\<close>

type_synonym 'db publish_one = "string \<Rightarrow> string \<Rightarrow> 'db world \<Rightarrow> go_error option \<times> 'db world"

definition omit_zero :: "string \<Rightarrow> int \<Rightarrow> (string \<times> json) list" where
  "omit_zero name n = (if n = 0 then [] else [(name, JInt n)])"

definition enterResponse :: "string \<Rightarrow> string \<Rightarrow> int \<Rightarrow> int \<Rightarrow> (string \<times> json) list" where
  "enterResponse status requestID rank totalWaiting =
     [(''status'', JStr status), (''requestId'', JStr requestID)]
     @ omit_zero ''rank'' rank @ omit_zero ''totalWaiting'' totalWaiting"

definition retry_later :: response where
  "retry_later = JSON StatusServiceUnavailable
     [(''status'', JStr ''RETRY_LATER''), (''error'', JStr ''try again later'')]"

text \<open>The part after the script: the feed entry, the admission event, the journal.\<close>

definition enter_admitted ::
  "'db redis \<Rightarrow> 'db publish_one option \<Rightarrow> string \<Rightarrow> string \<Rightarrow> string \<Rightarrow> int \<Rightarrow> 'db world \<Rightarrow>
   response \<times> 'db world"
where
  "enter_admitted R publish movieID requestID code now w =
     (let w = (if code = ''ADMITTED''
               then snd (AppendEvents R movieID ''ADMIT'' [requestID] now w) else w);
          resp = JSON StatusOK (enterResponse code requestID 0 0)
      in (case publish of
            None \<Rightarrow> (resp, w)
          | Some publishOne \<Rightarrow>
              if code \<noteq> ''ADMITTED'' then (resp, w)
              else
                (case publishOne requestID movieID w of
                   (Some err, w) \<Rightarrow> (retry_later, w)
                 | (None, w) \<Rightarrow>
                     (resp, snd (ClearPending R movieID
                                   [PendingMember KindAdmit ReasonEnter requestID] w)))))"

definition enter_handler ::
  "'db redis \<Rightarrow> Admission \<Rightarrow> 'db publish_one option \<Rightarrow> body \<Rightarrow> 'db world \<Rightarrow> response \<times> 'db world"
where
  "enter_handler R a publish b w =
     (case bind_ids b of
        None \<Rightarrow> (bad_request, w)
      | Some (movieID, requestID) \<Rightarrow>
          if rejectInvalidIDs [movieID, requestID] then (bad_format, w)
          else
            (case now_ms w of (now, w) \<Rightarrow>
             case Enter R movieID requestID (maxSessions a) now w of
               (Inl err, w) \<Rightarrow> (unavailable err, w)
             | (Inr res, w) \<Rightarrow>
                 if resStatus res = 2
                 then (JSON StatusAccepted
                         (enterResponse (resCode res) requestID (resRank res) (resCount res)), w)
                 else enter_admitted R publish movieID requestID (resCode res) now w))"

subsection \<open>position, stats, events\<close>

definition positionResponse :: "string \<Rightarrow> int \<Rightarrow> int \<Rightarrow> int \<Rightarrow> (string \<times> json) list" where
  "positionResponse status pos behind etaSeconds =
     [(''status'', JStr status)] @ omit_zero ''position'' pos
     @ [(''behind'', JInt behind), (''etaSeconds'', JInt etaSeconds)]"

definition position_handler ::
  "'db redis \<Rightarrow> Admission \<Rightarrow> string \<Rightarrow> string \<Rightarrow> rate_cache \<Rightarrow> 'db world \<Rightarrow>
   response \<times> rate_cache \<times> 'db world"
where
  "position_handler R a movieID requestID c w =
     (if movieID = [] \<or> requestID = [] then (bad_request, c, w)
      else if rejectInvalidIDs [movieID, requestID] then (bad_format, c, w)
      else
        (case now_ms w of (now, w) \<Rightarrow>
         case Position R movieID requestID now w of
           (Inl err, w) \<Rightarrow> (unavailable err, c, w)
         | (Inr res, w) \<Rightarrow>
             if posStatus res = ''WAITING'' then
               (case (if hasRate a then ETASeconds R movieID (posPosition res) c w else (-1, c, w)) of
                  (eta, c, w) \<Rightarrow>
                    (JSON StatusOK (positionResponse (posStatus res) (posPosition res) (posBehind res) eta),
                     c, w))
             else (JSON StatusOK (positionResponse (posStatus res) 0 0 0), c, w)))"

definition stats_handler ::
  "'db redis \<Rightarrow> Admission \<Rightarrow> string \<Rightarrow> rate_cache \<Rightarrow> 'db world \<Rightarrow> response \<times> rate_cache \<times> 'db world"
where
  "stats_handler R a movieID c w =
     (if movieID = [] then (missing_movie, c, w)
      else if rejectInvalidIDs [movieID] then (bad_format, c, w)
      else
        (case Stats R movieID w of
           (Inl err, w) \<Rightarrow> (unavailable err, c, w)
         | (Inr st, w) \<Rightarrow>
             (case (if hasRate a then ETASeconds R movieID (stWaiting st + 1) c w else (-1, c, w)) of
                (etaNext, c, w) \<Rightarrow>
                  (JSON StatusOK
                     [(''active'', JInt (stActive st)), (''waiting'', JInt (stWaiting st)),
                      (''promotedTotal'', JInt (stPromoted st)), (''capacity'', JInt (maxSessions a)),
                      (''etaNextSeconds'', JInt etaNext),
                      (''sessionTimeoutSeconds'', JInt (sessionSec a))], c, w))))"

text \<open>\<open>after, _ := ParseInt\<close>: the value beside the error. \<open>ParseUint\<close> reads digit by digit and stops at the
  first character that is none, with 0, or at the first digit that takes the number out of
  64 bits, with the largest; then \<open>ParseInt\<close> takes the nearer end of its range.\<close>

fun scan_uint :: "nat \<Rightarrow> string \<Rightarrow> nat option" where
  "scan_uint n [] = Some n"
| "scan_uint n (c # cs) =
     (if \<not> is_digit c then None
      else
        (let n1 = n * 10 + (of_char c - 48) in
         if 2 ^ 64 \<le> n1 then Some (2 ^ 64 - 1) else scan_uint n1 cs))"

definition signed_value :: "bool \<Rightarrow> string \<Rightarrow> int" where
  "signed_value neg digits =
     (case (if digits = [] then None else scan_uint 0 digits) of
        None \<Rightarrow> 0
      | Some un \<Rightarrow>
          if \<not> neg \<and> 2 ^ 63 \<le> un then 2 ^ 63 - 1
          else if neg \<and> 2 ^ 63 < un then - (2 ^ 63)
          else if neg then - int un else int un)"

definition after_value :: "string \<Rightarrow> int" where
  "after_value s =
     (case s of
        [] \<Rightarrow> 0
      | c # cs \<Rightarrow> signed_value (c = CHR ''-'') (if c = CHR ''-'' \<or> c = CHR ''+'' then cs else s))"

lemma scan_uint_digits:
  "list_all is_digit s \<Longrightarrow> foldl (\<lambda>a c. a * 10 + (of_char c - 48)) n s < 2 ^ 64 \<Longrightarrow>
     scan_uint n s = Some (foldl (\<lambda>a c. a * 10 + (of_char c - 48)) n s)"
proof (induction s arbitrary: n)
  case (Cons c s)
  have grows: "k \<le> foldl (\<lambda>a c. a * 10 + (of_char c - 48)) k s" for k :: nat
  proof (induction s arbitrary: k)
    case (Cons a s)
    have "k \<le> k * 10 + (of_char a - 48)" by simp
    also have "\<dots> \<le> foldl (\<lambda>a c. a * 10 + (of_char c - 48)) \<dots> s" by (rule Cons.IH)
    finally show ?case by simp
  qed simp
  show ?case
    using Cons.IH [of "n * 10 + (of_char c - 48)"] Cons.prems grows [of "n * 10 + (of_char c - 48)"]
    by (simp add: Let_def)
qed simp

lemma scan_uint_parse:
  "parse_digits s = Some n \<Longrightarrow> n < 2 ^ 64 \<Longrightarrow> s \<noteq> [] \<and> scan_uint 0 s = Some n"
  using scan_uint_digits [of s 0] by (auto simp: parse_digits_def digits_val_def split: if_splits)

lemma signed_value_parse:
  assumes "parse_digits ds = Some k" and "in64 (if neg then - int k else int k)"
  shows "signed_value neg ds = (if neg then - int k else int k)"
proof -
  have "k < 2 ^ 64" "neg \<longrightarrow> k \<le> 2 ^ 63" "\<not> neg \<longrightarrow> k < 2 ^ 63"
    using assms(2) by (auto simp: in64_def split: if_splits)
  with scan_uint_parse [OF assms(1)] show ?thesis by (auto simp: signed_value_def)
qed

text \<open>Where the parse succeeds, this is its value.\<close>

lemma after_value_ParseInt: "ParseInt s = Some n \<Longrightarrow> after_value s = n"
  using signed_value_parse [of _ _ False] signed_value_parse [of _ _ True]
  by (cases s) (auto simp: ParseInt_def after_value_def Let_def split: if_splits option.splits)

definition events_handler ::
  "'db redis \<Rightarrow> string \<Rightarrow> string \<Rightarrow> 'db world \<Rightarrow> response \<times> 'db world" where
  "events_handler R movieID afterParam w =
     (if movieID = [] then (missing_movie, w)
      else if rejectInvalidIDs [movieID] then (bad_format, w)
      else
        (case ReadEvents R movieID (after_value afterParam) w of
           (Inl err, w) \<Rightarrow> (unavailable err, w)
         | (Inr (evs, last_id), w) \<Rightarrow>
             (JSON StatusOK [(''events'', JEvents evs), (''last'', JInt last_id)], w)))"

subsection \<open>leave, complete\<close>

definition leave_handler :: "'db redis \<Rightarrow> body \<Rightarrow> 'db world \<Rightarrow> response \<times> 'db world" where
  "leave_handler R b w =
     (case bind_ids b of
        None \<Rightarrow> (bad_request, w)
      | Some (movieID, requestID) \<Rightarrow>
          if rejectInvalidIDs [movieID, requestID] then (bad_format, w)
          else
            (case now_ms w of (now, w) \<Rightarrow>
             case Leave R movieID requestID now w of
               (Inl err, w) \<Rightarrow> (unavailable err, w)
             | (Inr existed, w) \<Rightarrow>
                 (JSON StatusOK [(''status'', JStr ''LEFT''), (''requestId'', JStr requestID)],
                  if existed then snd (AppendEvents R movieID ''LEAVE'' [requestID] now w) else w)))"

definition complete_handler :: "'db redis \<Rightarrow> body \<Rightarrow> 'db world \<Rightarrow> response \<times> 'db world" where
  "complete_handler R b w =
     (case bind_ids b of
        None \<Rightarrow> (bad_request, w)
      | Some (movieID, requestID) \<Rightarrow>
          if rejectInvalidIDs [movieID, requestID] then (bad_format, w)
          else
            (case now_ms w of (now, w) \<Rightarrow>
             case ReleaseActive R movieID requestID ReasonComplete now w of
               (Inl err, w) \<Rightarrow> (unavailable err, w)
             | (Inr removed, w) \<Rightarrow>
                 (JSON StatusOK [(''status'', JStr ''COMPLETED''), (''requestId'', JStr requestID),
                                 (''removed'', JBool removed)],
                  if removed then snd (AppendEvents R movieID ''RETURN'' [requestID] now w) else w)))"

subsection \<open>health.go\<close>

definition live :: response where
  "live = JSON StatusOK [(''status'', JStr ''UP'')]"

definition Ping :: "'db world \<Rightarrow> (go_error + unit) \<times> 'db world" where
  "Ping w = redis_read (\<lambda>db. ()) w"

definition ready :: "bool \<Rightarrow> 'db world \<Rightarrow> response \<times> 'db world" where
  "ready shuttingDown w =
     (if shuttingDown
      then (JSON StatusServiceUnavailable
              [(''status'', JStr ''DOWN''), (''reason'', JStr ''SHUTTING_DOWN'')], w)
      else
        (case Ping w of
           (Inl err, w) \<Rightarrow>
             (JSON StatusServiceUnavailable
                [(''status'', JStr ''DOWN''), (''redis'', JStr ''DOWN''), (''error'', JErr err)], w)
         | (Inr _, w) \<Rightarrow> (JSON StatusOK [(''status'', JStr ''UP''), (''redis'', JStr ''UP'')], w)))"

subsection \<open>What the enter handler relies on\<close>

text \<open>The handler's own publisher interface has the contract of \<open>publisher\<close> for the one event
  it sends; the producer gives both.\<close>

locale admission_publisher =
  fixes publishOne :: "'db publish_one"
  assumes one_acked: "fst (publishOne q m w) = None \<Longrightarrow>
      event_message TopicAdmissions (admission q m) \<in> set (broker (snd (publishOne q m w)))"
    and one_grows: "set (broker w) \<subseteq> set (broker (snd (publishOne q m w)))"
    and one_only: "set (broker (snd (publishOne q m w))) \<subseteq>
      insert (event_message TopicAdmissions (admission q m)) (set (broker w))"
    and one_db: "rdb (snd (publishOne q m w)) = rdb w"
    and one_fates: "fates (snd (publishOne q m w)) = fates w"
begin

lemma one_good: "good P w \<Longrightarrow> good P (snd (publishOne q m w))"
  using good_same [OF one_db one_fates] by blast

end

sublocale publisher \<subseteq> single: admission_publisher
  "\<lambda>q m. publish TopicAdmissions [admission q m]"
proof (unfold_locales, goal_cases)
  case (1 q m w)
  then show ?case using pub_in_broker by simp
next
  case (2 w q m)
  show ?case by (rule pub_broker_grows(1))
next
  case (3 q m w)
  show ?case
    using pub_broker_grows(2) [of TopicAdmissions "[admission q m]" w] by auto
qed (simp_all add: pub_db pub_fates)

lemma PublishAdmission_eq:
  "PublishAdmission = (\<lambda>q m. PublishEvents TopicAdmissions [admission q m])"
  by (simp add: PublishAdmission_def fun_eq_iff)

interpretation one: admission_publisher PublishAdmission
  unfolding PublishAdmission_eq by (rule producer.single.admission_publisher_axioms)

subsection \<open>Each handler is a list of commands\<close>

definition visit_cmds :: "string \<Rightarrow> string \<Rightarrow> cmd set" where
  "visit_cmds m q = range (CPosition m q) \<union> range (CLeave m q) \<union> range (CRelease m q ReasonComplete)
     \<union> feed_cmds m"

definition visitor_cmds :: "string \<Rightarrow> string \<Rightarrow> cmd set" where
  "visitor_cmds m q = visit_cmds m q \<union> range (CEnter m q) \<union> {CClear m [admit_enter q]}"

lemma in_visitor_cmds [simp]:
  "CEnter m q t \<in> visitor_cmds m q" "CClear m [admit_enter q] \<in> visitor_cmds m q"
  "feed_cmds m \<subseteq> visitor_cmds m q"
  by (auto simp: visitor_cmds_def visit_cmds_def)

lemma in_visit_cmds [simp]:
  "CPosition m q t \<in> visit_cmds m q" "CLeave m q t \<in> visit_cmds m q"
  "CRelease m q ReasonComplete t \<in> visit_cmds m q" "feed_cmds m \<subseteq> visit_cmds m q"
  by (auto simp: visit_cmds_def)

context admission_publisher
begin

lemma enter_handler_good:
  assumes K: "keeps R (maxSessions a) C P" and C: "\<And>m q. bind_ids b = Some (m, q) \<Longrightarrow> visitor_cmds m q \<subseteq> C"
    and "good P w"
  shows "good P (snd (enter_handler R a (Some publishOne) b w))"
proof (cases "bind_ids b")
  case None
  with assms(3) show ?thesis by (simp add: enter_handler_def)
next
  case (Some mq)
  obtain m q where mq: "mq = (m, q)" by (cases mq)
  have in_C: "CEnter m q t \<in> C" "feed_cmds m \<subseteq> C" "CClear m [admit_enter q] \<in> C" for t
    using C [of m q] Some mq in_visitor_cmds by blast+
  from assms(3) show ?thesis
    by (simp add: enter_handler_def enter_admitted_def Some mq split_beta Let_def one_good
        members_printed Enter_good [OF K in_C(1)] AppendEvents_good [OF K in_C(2)]
        ClearPending_good [OF K in_C(3)] split: sum.splits option.splits)
qed

end

lemma leave_handler_good:
  assumes K: "keeps R cap C P" and C: "\<And>m q. bind_ids b = Some (m, q) \<Longrightarrow> visit_cmds m q \<subseteq> C"
    and "good P w"
  shows "good P (snd (leave_handler R b w))" and "good P (snd (complete_handler R b w))"
proof -
  show "good P (snd (leave_handler R b w))"
  proof (cases "bind_ids b")
    case (Some mq)
    obtain m q where mq: "mq = (m, q)" by (cases mq)
    have in_C: "CLeave m q t \<in> C" "feed_cmds m \<subseteq> C" for t
      using C [of m q] Some mq in_visit_cmds by blast+
    from assms(3) show ?thesis
      by (simp add: leave_handler_def Some mq split_beta Leave_good [OF K in_C(1)]
          AppendEvents_good [OF K in_C(2)] split: sum.splits)
  qed (use assms(3) in \<open>simp add: leave_handler_def\<close>)
  show "good P (snd (complete_handler R b w))"
  proof (cases "bind_ids b")
    case (Some mq)
    obtain m q where mq: "mq = (m, q)" by (cases mq)
    have in_C: "CRelease m q ReasonComplete t \<in> C" "feed_cmds m \<subseteq> C" for t
      using C [of m q] Some mq in_visit_cmds by blast+
    from assms(3) show ?thesis
      by (simp add: complete_handler_def Some mq split_beta ReleaseActive_good [OF K in_C(1)]
          AppendEvents_good [OF K in_C(2)] split: sum.splits)
  qed (use assms(3) in \<open>simp add: complete_handler_def\<close>)
qed

lemma position_handler_good:
  assumes K: "keeps R cap C P" and C: "visit_cmds m q \<subseteq> C" and "good P w"
  shows "good P (snd (snd (position_handler R a m q c w)))"
proof -
  have "CPosition m q t \<in> C" for t using C in_visit_cmds by blast
  from assms(3) show ?thesis
    by (simp add: position_handler_def split_beta Position_good [OF K \<open>\<And>t. CPosition m q t \<in> C\<close>]
        ETASeconds_good split: sum.splits)
qed

lemma reading_handlers_good:
  assumes "good P w"
  shows "good P (snd (snd (stats_handler R a m c w)))" and "good P (snd (events_handler R m x w))"
    and "good P (snd (ready shuttingDown w))"
  using assms
  by (simp_all add: stats_handler_def events_handler_def ready_def Ping_def split_beta reads_good
      redis_read_good ETASeconds_good split: sum.splits)

lemma reset_handler_good:
  assumes K: "keeps R cap C P" and C: "\<And>m. bind_movie b = Some m \<Longrightarrow> reset_cmds m \<subseteq> C"
    and "good P w"
  shows "good P (snd (reset_handler R a header b w))"
proof (cases "bind_movie b")
  case (Some m)
  show ?thesis
    using assms(3) by (simp add: reset_handler_def Some split_beta Reset_good [OF K C [OF Some]]
        split: sum.splits)
qed (use assms(3) in \<open>simp add: reset_handler_def\<close>)

end
