(* ===== verification/Gauges.thy ===== *)
theory Gauges
  imports Operations Eta Processors "HOL-Library.Word"
begin

section \<open>The gauges of a pod (metrics/prom.go)\<close>

text \<open>
  What the Prometheus collectors of a pod hold and how the sampler refreshes them every five
  seconds. A gauge vector maps a label to a value, None where there is no series; counts are
  whole numbers below 2^53, which a \<open>float64\<close> holds exactly. The counters the queue itself bumps
  are fields of the world; a counter series that does not exist reads 0 there.
\<close>

text \<open>The fields of go-redis's \<open>PoolStats\<close> the sampler reads.\<close>

record PoolStats =
  TotalConns :: "32 word"
  IdleConns :: "32 word"
  PendingRequests :: "32 word"

record gauges =
  waitingGauge :: "string \<Rightarrow> int option"
  activeGauge :: "string \<Rightarrow> int option"
  rateGauge :: "string \<Rightarrow> rat option"
  poolGauge :: "string \<Rightarrow> int option"
  trackedMovies :: "string set"

definition no_gauges :: gauges where
  "no_gauges = \<lparr>waitingGauge = (\<lambda>_. None), activeGauge = (\<lambda>_. None), rateGauge = (\<lambda>_. None),
     poolGauge = (\<lambda>_. None), trackedMovies = {}\<rparr>"

subsection \<open>The sampler\<close>

text \<open>The two counts are converted to \<open>int64\<close> before the subtraction.\<close>

definition in_use :: "PoolStats \<Rightarrow> int" where
  "in_use ps =
     (let inUse = ucast (TotalConns ps) - ucast (IdleConns ps) :: 64 word
      in if sint inUse < 0 then 0 else sint inUse)"

definition pool_gauges :: "PoolStats \<Rightarrow> gauges \<Rightarrow> gauges" where
  "pool_gauges ps g = g\<lparr>poolGauge := (poolGauge g)(''in_use'' \<mapsto> in_use ps,
     ''idle'' \<mapsto> uint (IdleConns ps), ''waiting'' \<mapsto> uint (PendingRequests ps))\<rparr>"

definition sample_movie ::
  "'db redis \<Rightarrow> string \<Rightarrow> rate_cache \<times> gauges \<times> 'db world \<Rightarrow> rate_cache \<times> gauges \<times> 'db world" where
  "sample_movie R m s =
     (case s of (c, g, w) \<Rightarrow>
      case WaitingCount R m w of (n, w) \<Rightarrow>
      let g = (case n of Inl err \<Rightarrow> g | Inr n \<Rightarrow> g\<lparr>waitingGauge := (waitingGauge g)(m \<mapsto> n)\<rparr>) in
      case ActiveCount R m w of (n, w) \<Rightarrow>
      let g = (case n of Inl err \<Rightarrow> g | Inr n \<Rightarrow> g\<lparr>activeGauge := (activeGauge g)(m \<mapsto> n)\<rparr>) in
      case Rate R m c w of (v, c, w) \<Rightarrow>
      (c, g\<lparr>rateGauge := (rateGauge g)(m \<mapsto> v)\<rparr>, w))"

text \<open>The series of the movies that are no longer tracked are deleted, in whatever order.\<close>

definition drop_series :: "string set \<Rightarrow> (string \<Rightarrow> 'a option) \<Rightarrow> string \<Rightarrow> 'a option" where
  "drop_series ms gauge m = (if m \<in> ms then None else gauge m)"

definition untracked_series :: "string set \<Rightarrow> gauges \<Rightarrow> 'db world \<Rightarrow> gauges \<times> 'db world" where
  "untracked_series cur g w =
     (let gone = trackedMovies g - cur in
      (g\<lparr>waitingGauge := drop_series gone (waitingGauge g),
         activeGauge := drop_series gone (activeGauge g),
         rateGauge := drop_series gone (rateGauge g),
         trackedMovies := cur\<rparr>,
       w\<lparr>promotedTotal := (\<lambda>m. if m \<in> gone then 0 else promotedTotal w m)\<rparr>))"

definition sample ::
  "'db redis \<Rightarrow> PoolStats \<Rightarrow> rate_cache \<times> gauges \<times> 'db world \<Rightarrow> rate_cache \<times> gauges \<times> 'db world" where
  "sample R ps s =
     (case s of (c, g, w) \<Rightarrow>
      let g = pool_gauges ps g in
      case ActiveQueueMovies R w of
        (Inl err, w) \<Rightarrow> (c, g, w)
      | (Inr movies, w) \<Rightarrow>
          (case fold (sample_movie R) movies (c, g, w) of (c, g, w) \<Rightarrow>
             (c, untracked_series (set movies) g w)))"

text \<open>The loop: a tick finds the pool in some state.\<close>

datatype sampler_event = SampleTick PoolStats | SamplerDone

fun StartSampler ::
  "'db redis \<Rightarrow> sampler_event list \<Rightarrow> rate_cache \<times> gauges \<times> 'db world \<Rightarrow> rate_cache \<times> gauges \<times> 'db world"
where
  "StartSampler R [] s = s"
| "StartSampler R (SamplerDone # es) s = s"
| "StartSampler R (SampleTick ps # es) s = StartSampler R es (sample R ps s)"

subsection \<open>The sampler only reads\<close>

lemma Rate_good: "good P w \<Longrightarrow> good P (snd (snd (Rate R m c w)))"
  by (auto simp: Rate_def PromotionRate_def split_beta reads_good split: sum.splits)

lemma sample_movie_good: "good P (snd (snd s)) \<Longrightarrow> good P (snd (snd (sample_movie R m s)))"
  by (simp add: sample_movie_def split_beta Let_def Rate_good reads_good)

lemma sample_fold_good: "good P (snd (snd s)) \<Longrightarrow> good P (snd (snd (fold (sample_movie R) ms s)))"
  by (induction ms arbitrary: s) (simp_all add: sample_movie_good)

lemma untracked_series_good: "good P (snd (untracked_series cur g w)) = good P w"
  by (simp add: untracked_series_def Let_def good_def)

lemma sample_good: "good P (snd (snd s)) \<Longrightarrow> good P (snd (snd (sample R ps s)))"
  by (simp add: sample_def split_beta Let_def reads_good untracked_series_good sample_fold_good
      split: sum.splits)

lemma Rate_broker: "broker (snd (snd (Rate R m c w))) = broker w"
  by (auto simp: Rate_def PromotionRate_def PromotionTotal_def split_beta split: sum.splits)

lemma sample_movie_broker: "broker (snd (snd (sample_movie R m s))) = broker (snd (snd s))"
  by (simp add: sample_movie_def split_beta Let_def Rate_broker WaitingCount_def ActiveCount_def)

lemma sample_fold_broker: "broker (snd (snd (fold (sample_movie R) ms s))) = broker (snd (snd s))"
  by (induction ms arbitrary: s) (simp_all add: sample_movie_broker)

lemma sample_broker: "broker (snd (snd (sample R ps s))) = broker (snd (snd s))"
  by (simp add: sample_def split_beta Let_def untracked_series_def sample_fold_broker ActiveQueueMovies_def
      split: sum.splits)

end
