(* ===== verification/Config.thy ===== *)
theory Config
  imports GoStd
begin

section \<open>Configuration (config/config.go, redis/client.go)\<close>

text \<open>
  Reading the configuration from the environment (a function from names to values, the empty
  string for an unset one, as \<open>os.Getenv\<close> has it) and the choice of the Redis client. Durations
  are \<open>int64\<close> nanoseconds and their products wrap around.
\<close>

record Config =
  Port :: string
  RedisAddr :: string
  RedisPassword :: string
  MaxSessions :: int
  QueueInterval :: int
  BatchSize :: int
  SessionTimeout :: int
  TimeoutInterval :: int
  WaitingTimeout :: int
  WaitingInterval :: int
  SweepInterval :: int
  KafkaBroker :: string
  RedisPoolSize :: int
  MetricsPort :: string
  RedisMasterName :: string
  RedisSentinelAddrs :: "string list"
  AdminToken :: string

definition Millisecond :: int where "Millisecond = 1000000"
definition Second :: int where "Second = 1000000000"

definition getenv :: "(string \<Rightarrow> string) \<Rightarrow> string \<Rightarrow> string \<Rightarrow> string" where
  "getenv env key def = (if env key \<noteq> [] then env key else def)"

definition getenvInt :: "(string \<Rightarrow> string) \<Rightarrow> string \<Rightarrow> int \<Rightarrow> int" where
  "getenvInt env key def =
     (let v = env key in
      if v \<noteq> [] then (case ParseInt v of Some n \<Rightarrow> n | None \<Rightarrow> def) else def)"

definition splitAddrs :: "string \<Rightarrow> string list" where
  "splitAddrs v =
     (if v = [] then []
      else filter (\<lambda>s. s \<noteq> []) (map TrimSpace (Split (CHR '','') v)))"

definition Load :: "(string \<Rightarrow> string) \<Rightarrow> Config" where
  "Load env =
     (let cfg = \<lparr>
        Port = getenv env ''PORT'' ''8090'',
        RedisAddr = getenv env ''REDIS_HOST'' ''localhost'' @ '':'' @ getenv env ''REDIS_PORT'' ''6379'',
        RedisPassword = getenv env ''REDIS_PASSWORD'' [],
        MaxSessions = getenvInt env ''MAX_SESSIONS'' 2,
        QueueInterval = wrap64 (getenvInt env ''QUEUE_PROCESS_INTERVAL'' 2000 * Millisecond),
        BatchSize = getenvInt env ''PROCESSING_BATCH_SIZE'' 100,
        SessionTimeout = wrap64 (getenvInt env ''SESSION_TIMEOUT'' 60 * Second),
        TimeoutInterval = wrap64 (getenvInt env ''SESSION_CLEANUP_INTERVAL'' 10000 * Millisecond),
        WaitingTimeout = wrap64 (getenvInt env ''WAITING_TIMEOUT'' 30 * Second),
        WaitingInterval = wrap64 (getenvInt env ''WAITING_CLEANUP_INTERVAL'' 10000 * Millisecond),
        SweepInterval = wrap64 (getenvInt env ''PENDING_SWEEP_INTERVAL'' 5000 * Millisecond),
        KafkaBroker = getenv env ''KAFKA_BROKER'' ''localhost:9092'',
        RedisPoolSize = getenvInt env ''REDIS_POOL_SIZE'' 0,
        MetricsPort = getenv env ''METRICS_PORT'' ''9091'',
        RedisMasterName = getenv env ''REDIS_MASTER_NAME'' [],
        RedisSentinelAddrs = splitAddrs (getenv env ''REDIS_SENTINEL_ADDRS'' []),
        AdminToken = getenv env ''ADMIN_TOKEN'' []\<rparr>;
          cfg = (if BatchSize cfg < 1 then cfg\<lparr>BatchSize := 100\<rparr> else cfg)
      in if MaxSessions cfg < 1 then cfg\<lparr>MaxSessions := 1\<rparr> else cfg)"

subsection \<open>The Redis client\<close>

text \<open>The options of both kinds of client; a pool size of 0 is the library's default. \<open>tracingHook\<close> is
  the \<open>WithDBStatement\<close> option of the tracing hook, None for a client without one.\<close>

record redis_options =
  Password :: string
  DB :: int
  DialTimeout :: int
  ReadTimeout :: int
  RedisWriteTimeout :: int
  PoolSize :: int
  tracingHook :: "bool option"

datatype client =
  Standalone string redis_options
  | Sentinel string "string list" string redis_options

fun client_options :: "client \<Rightarrow> redis_options" where
  "client_options (Standalone addr opts) = opts"
| "client_options (Sentinel master addrs password opts) = opts"

text \<open>\<open>hooked\<close> is what \<open>redisotel.InstrumentTracing\<close> returns; its error is only logged.\<close>

definition instrument :: "string option \<Rightarrow> redis_options \<Rightarrow> redis_options" where
  "instrument hooked opts = (case hooked of Some err \<Rightarrow> opts | None \<Rightarrow> opts\<lparr>tracingHook := Some False\<rparr>)"

text \<open>\<open>New\<close>: through Sentinel exactly if there are addresses.\<close>

definition New :: "string option \<Rightarrow> string \<Rightarrow> string \<Rightarrow> int \<Rightarrow> string \<Rightarrow> string list \<Rightarrow> client" where
  "New hooked addr password poolSize masterName sentinelAddrs =
     (let opts = \<lparr>Password = password, DB = 0, DialTimeout = 2 * Second,
            ReadTimeout = 500 * Millisecond, RedisWriteTimeout = 500 * Millisecond, PoolSize = 0,
            tracingHook = None\<rparr>;
          opts = (if poolSize > 0 then opts\<lparr>PoolSize := poolSize\<rparr> else opts)
      in if sentinelAddrs \<noteq> [] then Sentinel masterName sentinelAddrs password (instrument hooked opts)
         else Standalone addr (instrument hooked opts))"

subsection \<open>Facts\<close>

lemma ParseInt_in64: "ParseInt s = Some n \<Longrightarrow> in64 n"
  by (auto simp: ParseInt_def Let_def split: list.splits if_splits option.splits)

lemma getenvInt_in64: "in64 def \<Longrightarrow> in64 (getenvInt env key def)"
  by (auto simp: getenvInt_def Let_def dest: ParseInt_in64 split: option.splits)

lemma getenvInt_printed: "in64 n \<Longrightarrow> env key = FormatInt n \<Longrightarrow> getenvInt env key def = n"
  by (simp add: getenvInt_def)

lemma in64_small [simp]: "in64 1" "in64 2" "in64 100"
  by (simp_all add: in64_def)

lemma Load_MaxSessions:
  "MaxSessions (Load env) = max 1 (getenvInt env ''MAX_SESSIONS'' 2)"
  by (simp add: Load_def Let_def)

lemma Load_BatchSize:
  "BatchSize (Load env) =
     (if getenvInt env ''PROCESSING_BATCH_SIZE'' 100 < 1 then 100
      else getenvInt env ''PROCESSING_BATCH_SIZE'' 100)"
  by (simp add: Load_def Let_def)

lemma Load_Sentinel: "RedisSentinelAddrs (Load env) = splitAddrs (env ''REDIS_SENTINEL_ADDRS'')"
  by (simp add: Load_def Let_def getenv_def)

lemma splitAddrs_clean:
  assumes "a \<in> set (splitAddrs v)"
  shows "a \<noteq> [] \<and> CHR '','' \<notin> set a"
proof -
  from assms obtain p where p: "p \<in> set (Split (CHR '','') v)" "a = TrimSpace p" "a \<noteq> []"
    by (auto simp: splitAddrs_def split: if_splits)
  have "set (dropWhile is_space xs) \<subseteq> set xs" for xs
    by (auto dest: set_dropWhileD)
  then have "set (TrimSpace p) \<subseteq> set p"
    unfolding TrimSpace_def by (metis set_rev subset_trans)
  with p Split_no_sep [OF p(1)] show ?thesis by auto
qed

text \<open>Whatever the environment, the loaded capacity and batch size are at least 1 and fit an
  \<open>int64\<close>, so a promotion never works with a zero or negative bound.\<close>

lemma loaded_bounds:
  "1 \<le> MaxSessions (Load env) \<and> in64 (MaxSessions (Load env)) \<and>
   1 \<le> BatchSize (Load env) \<and> in64 (BatchSize (Load env))"
  using getenvInt_in64 [of 2 env "''MAX_SESSIONS''"]
    getenvInt_in64 [of 100 env "''PROCESSING_BATCH_SIZE''"]
  by (auto simp: Load_MaxSessions Load_BatchSize max_def)

text \<open>The client goes through Sentinel exactly if the list of addresses has an entry that is
  not blank, and then with clean ones: none empty, none with a comma. Both kinds have the same
  options, and no hook ever puts the arguments of a command, the visitors' identifiers among
  them, into a trace.\<close>

lemma sentinel_selection:
  "(\<exists>master addrs opts. New hooked addr password n name (RedisSentinelAddrs (Load env)) =
      Sentinel master addrs password opts \<and> addrs \<noteq> [] \<and>
      list_all (\<lambda>a. a \<noteq> [] \<and> CHR '','' \<notin> set a) addrs)
   \<or> (\<exists>opts. New hooked addr password n name (RedisSentinelAddrs (Load env)) = Standalone addr opts)
     \<and> list_all (\<lambda>p. TrimSpace p = []) (Split (CHR '','') (env ''REDIS_SENTINEL_ADDRS''))"
proof (cases "RedisSentinelAddrs (Load env) = []")
  case True
  have "Split (CHR '','') [] = [[]]" by (subst Split.simps) simp
  with True show ?thesis
    by (auto simp: New_def Let_def Load_Sentinel splitAddrs_def filter_empty_conv list_all_iff
        TrimSpace_def split: if_splits)
next
  case False
  with splitAddrs_clean show ?thesis by (auto simp: New_def Let_def Load_Sentinel list_all_iff)
qed

lemma client_same_options:
  assumes "opts = client_options (New hooked addr password n name addrs)"
  shows "PoolSize opts = max 0 n \<and> Password opts = password \<and> ReadTimeout opts = 500 * Millisecond \<and>
    RedisWriteTimeout opts = 500 * Millisecond \<and> tracingHook opts \<noteq> Some True"
  unfolding assms by (simp add: New_def Let_def instrument_def max_def split: option.splits)

end
