(* ===== verification/Runtime.thy ===== *)
theory Runtime
  imports GoStd
begin

section \<open>The guard of the background loops (main.go)\<close>

text \<open>
  Two pieces of the main package: the address a request is logged under, and the guard that
  restarts a background loop after a panic.
\<close>

subsection \<open>The address of a request\<close>

definition clientIP :: "string \<Rightarrow> string \<Rightarrow> string" where
  "clientIP header fallback = (if header \<noteq> [] then header else fallback)"

subsection \<open>Restarting a loop after a panic\<close>

text \<open>One run of the loop's function ends by returning or by a panic, which the deferred
  \<open>recover\<close> turns into a return; \<open>runGuarded\<close> starts it again unless the context is done. The
  fuel is the number of starts.\<close>

datatype 's run = Returned 's | Panicked 's

fun runGuarded :: "nat \<Rightarrow> ('s \<Rightarrow> 's run) \<Rightarrow> ('s \<Rightarrow> bool) \<Rightarrow> 's \<Rightarrow> 's option" where
  "runGuarded 0 fn ctxErr s = None"
| "runGuarded (Suc n) fn ctxErr s =
     (let s = (case fn s of Returned s \<Rightarrow> s | Panicked s \<Rightarrow> s)
      in if ctxErr s then Some s else runGuarded n fn ctxErr s)"

definition run_state :: "'s run \<Rightarrow> 's" where
  "run_state r = (case r of Returned s \<Rightarrow> s | Panicked s \<Rightarrow> s)"

lemma runGuarded_step:
  "runGuarded (Suc n) fn ctxErr s =
     (let s = run_state (fn s) in if ctxErr s then Some s else runGuarded n fn ctxErr s)"
  by (simp add: run_state_def)

lemma runGuarded_done:
  assumes "k < n" and "ctxErr (((\<lambda>s. run_state (fn s)) ^^ Suc k) s)"
    and "\<forall>i<k. \<not> ctxErr (((\<lambda>s. run_state (fn s)) ^^ Suc i) s)"
  shows "runGuarded n fn ctxErr s = Some (((\<lambda>s. run_state (fn s)) ^^ Suc k) s)"
  using assms
proof (induction k arbitrary: n s)
  case 0
  then obtain n' where "n = Suc n'" by (cases n) auto
  with 0 show ?case by (simp add: runGuarded_step Let_def del: runGuarded.simps)
next
  case (Suc k)
  let ?f = "\<lambda>s. run_state (fn s)"
  from Suc.prems(1) obtain n' where n: "n = Suc n'" by (cases n) auto
  have shift: "(?f ^^ Suc (Suc i)) s = (?f ^^ Suc i) (?f s)" for i
    by (simp only: funpow_Suc_right o_apply)
  have live: "\<not> ctxErr (?f s)" using Suc.prems(3) [rule_format, of 0] by simp
  have "\<forall>i<k. \<not> ctxErr ((?f ^^ Suc i) (?f s))"
  proof (intro allI impI)
    fix i assume "i < k"
    then have "\<not> ctxErr ((?f ^^ Suc (Suc i)) s)" using Suc.prems(3) by blast
    then show "\<not> ctxErr ((?f ^^ Suc i) (?f s))" unfolding shift .
  qed
  then have "runGuarded n' fn ctxErr (?f s) = Some ((?f ^^ Suc k) (?f s))"
    using Suc.prems(1,2) n by (intro Suc.IH) (simp_all only: shift Suc_less_eq)
  with live n show ?case
    by (simp add: runGuarded_step Let_def shift del: runGuarded.simps funpow.simps)
qed

text \<open>A panic never ends a background loop: the guard returns exactly in the first round that
  ends with the context done, whichever of the rounds panicked, and as long as no round ends
  so, no number of starts makes it return.\<close>

lemma guard_ends_with_the_context:
  assumes "\<forall>i<k. \<not> ctxErr (((\<lambda>s. run_state (fn s)) ^^ Suc i) s)"
  shows "runGuarded k fn ctxErr s = None \<and>
    (ctxErr (((\<lambda>s. run_state (fn s)) ^^ Suc k) s) \<longrightarrow>
       runGuarded (Suc k + extra) fn ctxErr s = Some (((\<lambda>s. run_state (fn s)) ^^ Suc k) s))"
proof
  show "runGuarded k fn ctxErr s = None"
    using assms
  proof (induction k arbitrary: s)
    case (Suc k)
    let ?f = "\<lambda>s. run_state (fn s)"
    have shift: "(?f ^^ Suc (Suc i)) s = (?f ^^ Suc i) (?f s)" for i
      by (simp only: funpow_Suc_right o_apply)
    have live: "\<not> ctxErr (?f s)" using Suc.prems [rule_format, of 0] by simp
    have "runGuarded k fn ctxErr (?f s) = None"
      using Suc.prems by (intro Suc.IH) (metis shift Suc_less_eq)
    with live show ?case by (simp add: runGuarded_step Let_def del: runGuarded.simps)
  qed simp
  show "ctxErr (((\<lambda>s. run_state (fn s)) ^^ Suc k) s) \<longrightarrow>
      runGuarded (Suc k + extra) fn ctxErr s = Some (((\<lambda>s. run_state (fn s)) ^^ Suc k) s)"
    by (intro impI runGuarded_done) (use assms in auto)
qed

lemma guard_ends_with_the_context_witness:
  "runGuarded 2 (\<lambda>n. if n = 0 then Panicked (n + 1) else Returned (n + 1)) (\<lambda>n. n \<ge> 3) (0::nat) = None \<and>
   runGuarded 5 (\<lambda>n. if n = 0 then Panicked (n + 1) else Returned (n + 1)) (\<lambda>n. n \<ge> 3) (0::nat) = Some 3"
  using guard_ends_with_the_context [of 2 "\<lambda>n. n \<ge> 3"
      "\<lambda>n. if n = 0 then Panicked (n + 1) else Returned (n + 1)" "0::nat" 2]
  by (auto simp: run_state_def eval_nat_numeral less_Suc_eq)

end
