(* ===== verification/System.thy ===== *)
theory System
  imports Handlers Gauges Lifecycle Config Runtime RefRedis
begin

section \<open>A pod among others\<close>

text \<open>
  The whole program as a step relation: a pod serves a request, runs a tick of a loop or
  consumes a message, each step being the code's own function from world to world. The other
  pods run commands between any two of its Redis calls; the world's \<open>fates\<close> carry them, and
  \<open>others_run_commands\<close> says that they are lists of the commands of \<open>Commands\<close>, which is all
  that a pod of this program can send. So what holds at every reachable world holds of every
  interleaving of any number of pods, with calls, replies and publications lost anywhere.
\<close>

definition admission_of :: "Config \<Rightarrow> Admission" where
  "admission_of cfg = NewAdmission (MaxSessions cfg) (SessionTimeout cfg) True (AdminToken cfg)"

definition sweepGrace :: int where "sweepGrace = 6000"
definition sweepBatch :: int where "sweepBatch = 500"

inductive pod_step :: "'db redis \<Rightarrow> Config \<Rightarrow> 'db world \<Rightarrow> 'db world \<Rightarrow> bool"
  for R :: "'db redis" and cfg :: Config where
  on_enter: "pod_step R cfg w
     (snd (enter_handler R (admission_of cfg) (Some PublishAdmission) b w))"
| on_position: "pod_step R cfg w (snd (snd (position_handler R (admission_of cfg) m q c w)))"
| on_stats: "pod_step R cfg w (snd (snd (stats_handler R (admission_of cfg) m c w)))"
| on_events: "pod_step R cfg w (snd (events_handler R m x w))"
| on_leave: "pod_step R cfg w (snd (leave_handler R b w))"
| on_complete: "pod_step R cfg w (snd (complete_handler R b w))"
| on_reset: "pod_step R cfg w (snd (reset_handler R (admission_of cfg) header b w))"
| on_ready: "pod_step R cfg w (snd (ready shuttingDown w))"
| promote_tick: "pod_step R cfg w (LoopTick ''promote''
     (queue_processAll R (Some PublishEvents) (MaxSessions cfg) (BatchSize cfg) w))"
| sweep_tick: "pod_step R cfg w (LoopTick ''pending_sweep''
     (sweep_processAll R (Some PublishEvents) sweepGrace sweepBatch w))"
| session_tick: "pod_step R cfg w (LoopTick ''session_timeout''
     (timeout_processAll R (SessionTimeout cfg div Millisecond) w))"
| waiting_tick: "pod_step R cfg w (LoopTick ''waiting_timeout''
     (waiting_processAll R (WaitingTimeout cfg div Millisecond) w))"
| sampler_tick: "pod_step R cfg w (snd (snd (sample R ps (c, g, w))))"
| on_completed: "pod_step R cfg w (snd (consume_message R i d (committed, w)))"

inductive pod_runs :: "'db redis \<Rightarrow> Config \<Rightarrow> 'db world \<Rightarrow> 'db world \<Rightarrow> bool"
  for R :: "'db redis" and cfg :: Config where
  pod_start: "pod_runs R cfg w w"
| pod_next: "pod_runs R cfg w w' \<Longrightarrow> pod_step R cfg w' w'' \<Longrightarrow> pod_runs R cfg w w''"

definition gaps_of :: "'db fate \<Rightarrow> ('db \<Rightarrow> 'db) set" where
  "gaps_of f = (case f of Fate lost gs ok \<Rightarrow> set gs \<union> (\<Union>(hs, n)\<in>set lost. set hs))"

definition others_run_commands :: "'db redis \<Rightarrow> int \<Rightarrow> 'db world \<Rightarrow> bool" where
  "others_run_commands R cap w \<longleftrightarrow>
     (\<forall>f\<in>set (fates w). \<forall>g\<in>gaps_of f. \<exists>cs. g = runs R cap cs)"

lemma MaxSessions_pos: "1 \<le> MaxSessions (Load env)"
  by (simp add: Load_MaxSessions)

lemma admission_of_cap [simp]: "maxSessions (admission_of cfg) = MaxSessions cfg"
  by (simp add: admission_of_def NewAdmission_def)

subsection \<open>A step keeps what the commands keep\<close>

lemma pod_step_good:
  assumes "pod_step R cfg w w'" and K: "keeps R (MaxSessions cfg) UNIV P" and "good P w"
  shows "good P w'"
proof -
  have K': "keeps R (maxSessions (admission_of cfg)) UNIV P" "keeps R (MaxSessions cfg) C P" for C
    using K by (simp_all add: keeps_def)
  from assms(1,3) show ?thesis
  proof cases
    case (on_enter b)
    have "good P (snd (enter_handler R (admission_of cfg) (Some PublishAdmission) b w))"
      by (rule one.enter_handler_good [OF K'(1)]) (use assms(3) in simp_all)
    with on_enter show ?thesis by simp
  next
    case (on_completed i d committed)
    with K assms(3) show ?thesis by (simp add: consume_message_good)
  qed (use assms(3) in \<open>simp_all add: position_handler_good [OF K subset_UNIV]
      reading_handlers_good sample_good leave_handler_good [OF K subset_UNIV]
      reset_handler_good [OF K subset_UNIV] timeouts_good [OF K'(2)]
      producer.queue_processAll_good [OF K'(2)] producer.sweep_processAll_good [OF K'(2)]\<close>)
qed

lemma pod_runs_good:
  assumes "pod_runs R cfg w w'" and "keeps R (MaxSessions cfg) UNIV P" and "good P w"
  shows "good P w'"
  using assms by (induction rule: pod_runs.induct) (auto intro: pod_step_good)

context redis_service
begin

lemma inv_keeps: "0 \<le> cap \<Longrightarrow> keeps R cap C (safe R cap)"
  by (simp add: keeps_def exec_inv)

lemma others_good:
  assumes "others_run_commands R cap w" and "0 \<le> cap" and "safe R cap (rdb w)"
  shows "good (safe R cap) w"
proof -
  have "safe R cap (g db)" if "f \<in> set (fates w)" "g \<in> gaps_of f" "safe R cap db" for f g db
  proof -
    obtain cs where "g = runs R cap cs"
      using assms(1) \<open>f \<in> set (fates w)\<close> \<open>g \<in> gaps_of f\<close>
      unfolding others_run_commands_def by blast
    then show ?thesis using runs_inv [OF \<open>safe R cap db\<close> assms(2)] by simp
  qed
  with assms(3) show ?thesis
    by (auto simp: good_def keeps_fate_def gaps_of_def split: fate.splits)
qed

lemma pod_runs_inv:
  assumes "pod_runs R cfg w w'" and "fresh R (rdb w)" and "others_run_commands R (MaxSessions cfg) w"
    and "0 \<le> MaxSessions cfg"
  shows "safe R (MaxSessions cfg) (rdb w')"
proof (rule goodD, rule pod_runs_good [OF assms(1)])
  show "keeps R (MaxSessions cfg) UNIV (safe R (MaxSessions cfg))"
    using assms(4) by (rule inv_keeps)
  show "good (safe R (MaxSessions cfg)) w"
    using assms fresh_inv [OF assms(2,4)] by (intro others_good) auto
qed

end

end
