(* ===== verification/Outbox.thy ===== *)
theory Outbox
  imports System
begin

section \<open>The journal as an outbox\<close>

text \<open>
  The promise the journal is there for: a seat and the admission event that tells the booking
  service of it are never parted. \<open>owed\<close> says of a visitor that the admission is still in the
  journal if there is a seat; \<open>announced\<close> that this holds or the event was published after
  the first \<open>n\<close> messages. Every step of a pod keeps \<open>announced\<close>, with any call failing
  anywhere, as long as the other pods do not clear this visitor's entry.
\<close>

definition owed :: "'db redis \<Rightarrow> string \<Rightarrow> string \<Rightarrow> 'db \<Rightarrow> bool" where
  "owed R m q db \<longleftrightarrow> no_ttl R db \<and>
     (q \<in> acts R db m \<longrightarrow> admit_enter q \<in> pends R db m \<or> admit_promote q \<in> pends R db m)"

definition announcement :: "string \<Rightarrow> string \<Rightarrow> message" where
  "announcement m q = event_message TopicAdmissions (admission q m)"

text \<open>A property of databases holds, or a message was published after the first \<open>n\<close>.\<close>

definition kept :: "('db \<Rightarrow> bool) \<Rightarrow> message \<Rightarrow> nat \<Rightarrow> 'db world \<Rightarrow> bool" where
  "kept P msg n w \<longleftrightarrow> n \<le> length (broker w) \<and> (good P w \<or> msg \<in> set (drop n (broker w)))"

abbreviation announced :: "'db redis \<Rightarrow> string \<Rightarrow> string \<Rightarrow> nat \<Rightarrow> 'db world \<Rightarrow> bool" where
  "announced R m q \<equiv> kept (owed R m q) (announcement m q)"

text \<open>Journal entries of movie \<open>m\<close> that stand for the message.\<close>

definition stands_for :: "string \<Rightarrow> message \<Rightarrow> PendingEvent \<Rightarrow> bool" where
  "stands_for m msg e \<longleftrightarrow>
     pKind e = KindAdmit \<and> msg = event_message TopicAdmissions (admission (pRequestID e) m) \<or>
     pKind e = KindRevoke \<and>
       msg = event_message TopicRevoked (revocation (pRequestID e) m (pReason e))"

definition entries :: "string \<Rightarrow> message \<Rightarrow> string set \<Rightarrow> bool" where
  "entries m msg X \<longleftrightarrow> (\<forall>x\<in>X. \<exists>e. ParsePendingMember x = Some e \<and> stands_for m msg e)"

text \<open>A property that only clearing one of the entries can break.\<close>

definition rests_on :: "'db redis \<Rightarrow> string \<Rightarrow> string set \<Rightarrow> ('db \<Rightarrow> bool) \<Rightarrow> bool" where
  "rests_on R m X P \<longleftrightarrow>
     (\<forall>cap m' ms. m' \<noteq> m \<or> set ms \<inter> X = {} \<longrightarrow> keeps R cap {CClear m' ms} P)"

text \<open>The commands that do not clear the visitor's admission.\<close>

definition spares :: "string \<Rightarrow> string \<Rightarrow> cmd set" where
  "spares m q = {c. \<forall>ms. c = CClear m ms \<longrightarrow> admit_enter q \<notin> set ms \<and> admit_promote q \<notin> set ms}"

lemma spares_simps [simp]:
  "CClear m' ms \<in> spares m q \<longleftrightarrow> m' \<noteq> m \<or> admit_enter q \<notin> set ms \<and> admit_promote q \<notin> set ms"
  "CEnter m' r t \<in> spares m q" "CPosition m' r t \<in> spares m q" "CLeave m' r t \<in> spares m q"
  "CRelease m' r reason t \<in> spares m q" "CComplete m' r \<in> spares m q"
  "CPromote m' b t \<in> spares m q" "CPause d \<in> spares m q"
  by (auto simp: spares_def)

lemma spares_sets [simp]:
  "feed_cmds m' \<subseteq> spares m q" "rate_cmds m' \<subseteq> spares m q" "reset_cmds m' \<subseteq> spares m q"
  "timeout_cmds m' \<subseteq> spares m q" "all_timeout_cmds \<subseteq> spares m q" "promote_cmds m' \<subseteq> spares m q"
  "complete_cmds m' r \<subseteq> spares m q" "visit_cmds m' r \<subseteq> spares m q"
  by (auto simp: visit_cmds_def spares_def feed_cmds_def rate_cmds_def reset_cmds_def timeout_cmds_def
      all_timeout_cmds_def promote_cmds_def complete_cmds_def)

lemma keeps_mono: "keeps R cap C P \<Longrightarrow> D \<subseteq> C \<Longrightarrow> keeps R cap D P"
  by (auto simp: keeps_def)

lemma kept_keep:
  assumes "kept P msg n w" and "broker w' = broker w" and "good P w \<Longrightarrow> good P w'"
  shows "kept P msg n w'"
  using assms by (auto simp: kept_def)

lemma kept_good: "good P w \<Longrightarrow> kept P msg (length (broker w)) w"
  by (simp add: kept_def)

lemma kept_clear:
  assumes "rests_on R m X P" and "m' \<noteq> m \<or> set ms \<inter> X = {}" and "kept P msg n w"
  shows "kept P msg n (snd (ClearPending R m' ms w))"
proof -
  have "keeps R 0 {CClear m' ms} P" using assms(1,2) by (simp add: rests_on_def)
  then show ?thesis by (intro kept_keep [OF assms(3)]) (auto intro: ClearPending_good)
qed

context redis_service
begin

lemma exec_no_ttl: "no_ttl R db \<Longrightarrow> no_ttl R (exec R cap c db)"
proof (cases "cmd_movie c")
  case None
  assume n: "no_ttl R db"
  then show ?thesis
    using other_queues_same [OF None n, of cap] by (auto simp: queues_same_def no_ttl_def same_at_def)
next
  case (Some m)
  assume "no_ttl R db"
  then show ?thesis by (simp add: no_ttl_def movie_no_ttl [OF Some])
qed

lemma movie_owed:
  assumes "cmd_movie c = Some m" and "c \<in> spares m q"
    and "q \<in> acts R db m \<longrightarrow> admit_enter q \<in> pends R db m \<or> admit_promote q \<in> pends R db m"
  shows "q \<in> acts R (exec R cap c db) m \<longrightarrow>
    admit_enter q \<in> pends R (exec R cap c db) m \<or> admit_promote q \<in> pends R (exec R cap c db) m"
proof (cases c)
  case (CEnter m' p now)
  with assms show ?thesis by (auto simp: enter_items)
next
  case (CResetDel m' sec)
  with assms show ?thesis by (simp add: reset_del_movie)
qed (use assms in \<open>auto simp: promote_members position_members leave_members release_members
      complete_members expire_members waiting_expire_members untrack_members single_commands\<close>)

lemma exec_owed:
  assumes "c \<in> spares m q" and "owed R m q db"
  shows "owed R m q (exec R cap c db)"
proof (cases "cmd_movie c")
  case None
  have same: "queues_same (exec R cap c db) db"
    using assms(2) by (intro other_queues_same [OF None]) (simp add: owed_def)
  show ?thesis
    using assms(2) exec_no_ttl [of db cap c] by (simp add: owed_def queues_sameD [OF same])
next
  case (Some m')
  show ?thesis
  proof (cases "m' = m")
    case True
    with Some movie_owed [of c m q db cap] assms exec_no_ttl [of db cap c] show ?thesis
      by (simp add: owed_def)
  next
    case False
    with movie_others_same [OF Some, of cap db] assms(2) exec_no_ttl [of db cap c] show ?thesis
      by (simp add: owed_def others_same_def)
  qed
qed

lemma owed_rests: "rests_on R m {admit_enter q, admit_promote q} (owed R m q)"
  unfolding rests_on_def keeps_def by (auto simp del: exec.simps intro!: exec_owed)

lemma pends_rest: "rests_on R m {x} (\<lambda>db. x \<in> pends R db m)"
proof -
  have "x \<in> pends R (snd (ZREM R (PendingKey m') ms db)) m"
    if "m' \<noteq> m \<or> set ms \<inter> {x} = {}" "x \<in> pends R db m" for m' ms db
    using that by (cases "m' = m") (auto simp: key_simps)
  then show ?thesis unfolding rests_on_def keeps_def by simp
qed

lemma owed_keeps: "C \<subseteq> spares m q \<Longrightarrow> keeps R cap C (owed R m q)"
  by (auto simp: keeps_def intro: exec_owed)

end

subsection \<open>Calls\<close>

lemma metrics_broker [simp]: "broker (Promoted m k w) = broker w" "broker (LoopTick loop w) = broker w"
  by (simp_all add: Promoted_def LoopTick_def split_beta)

context redis_service
begin

lemma ops_announced:
  assumes "announced R m q n w"
  shows "announced R m q n (snd (Promote R m' cap b t w))"
    and "announced R m q n (snd (Enter R m' r cap t w))"
    and "announced R m q n (snd (AppendEvents R m' ty rids t w))"
    and "announced R m q n (snd (ObservePromotion R m' k t w))"
    and "announced R m q n (snd (SetPromotePause R d w))"
    and "announced R m q n (snd (WaitingCount R m' w))"
    and "announced R m q n (snd (PromotePaused R w))"
    and "announced R m q n (snd (ActiveQueueMovies R w))"
    and "announced R m q n (snd (now_ms w))"
    and "announced R m q n (Promoted m' k w)"
    and "announced R m q n (LoopTick loop w)"
proof -
  have K: "keeps R cap (spares m q) (owed R m q)" for cap by (rule owed_keeps) simp
  show "announced R m q n (snd (Promote R m' cap b t w))"
    using assms by (rule kept_keep) (simp_all add: Promote_good [OF K])
  show "announced R m q n (snd (Enter R m' r cap t w))"
    using assms by (rule kept_keep) (simp_all add: Enter_good [OF K])
  show "announced R m q n (snd (AppendEvents R m' ty rids t w))"
    using assms by (rule kept_keep) (simp_all add: AppendEvents_good [OF K])
  show "announced R m q n (snd (ObservePromotion R m' k t w))"
    using assms by (rule kept_keep) (simp_all add: ObservePromotion_good [OF K])
  show "announced R m q n (snd (SetPromotePause R d w))"
    using assms by (rule kept_keep) (simp_all add: SetPromotePause_good [OF K])
  show "announced R m q n (snd (WaitingCount R m' w))" "announced R m q n (snd (PromotePaused R w))"
    "announced R m q n (snd (ActiveQueueMovies R w))" "announced R m q n (snd (now_ms w))"
    using assms by (rule kept_keep; simp add: reads_good)+
  show "announced R m q n (Promoted m' k w)" "announced R m q n (LoopTick loop w)"
    using assms by (rule kept_keep; simp)+
qed

end

lemma owed_entries: "q \<noteq> [] \<Longrightarrow> entries m (announcement m q) {admit_enter q, admit_promote q}"
  by (simp add: entries_def stands_for_def announcement_def)

locale outbox = redis_service R + publisher publish
  for R :: "'db redis" and publish :: "'db publish"
begin

lemma publish_kept:
  assumes "kept P msg n w"
  shows "kept P msg n (snd (publish topic evs w))"
proof -
  obtain xs where "broker (snd (publish topic evs w)) = broker w @ xs" using pub_failed by blast
  with assms pub_good [of P w topic evs] show ?thesis by (auto simp: kept_def)
qed

text \<open>Clearing after a successful publication that held the message, or of a list without the
  entries the property rests on.\<close>

lemma publish_clear_kept:
  assumes "rests_on R m X P" and "kept P msg n w" and "fst (publish topic evs w) = None"
    and "m' = m \<Longrightarrow> set ms \<inter> X \<noteq> {} \<Longrightarrow> msg \<in> set (map (event_message topic) evs)"
  shows "kept P msg n (snd (ClearPending R m' ms (snd (publish topic evs w))))"
proof (cases "m' = m \<and> set ms \<inter> X \<noteq> {}")
  case True
  obtain xs where "broker (snd (publish topic evs w)) = broker w @ xs @ map (event_message topic) evs"
    using pub_acked [OF assms(3)] by blast
  with assms(2,4) True show ?thesis by (auto simp: kept_def)
next
  case False
  then show ?thesis by (intro kept_clear [OF assms(1) _ publish_kept [OF assms(2)]]) auto
qed

subsection \<open>Promotion and entering\<close>

lemma publish_admitted_announced:
  assumes "announced R m q n w"
  shows "announced R m q n (snd (publish_admitted R (Some publish) m' us w))"
proof (cases "fst (publish TopicAdmissions (map (\<lambda>r. admission r m') us) w)")
  case None
  have "announced R m q n (snd (ClearPending R m' (map (PendingMember KindAdmit ReasonPromote) us)
      (snd (publish TopicAdmissions (map (\<lambda>r. admission r m') us) w))))"
    by (rule publish_clear_kept [OF owed_rests assms None]) (auto simp: members_printed announcement_def)
  with None show ?thesis by (simp add: publish_admitted_def Let_def split_beta)
next
  case (Some err)
  then show ?thesis
    by (simp add: publish_admitted_def Let_def split_beta ops_announced publish_kept assms)
qed

lemma processMovie_announced:
  "announced R m q n w \<Longrightarrow> announced R m q n (processMovie R (Some publish) cap batch m' w)"
  by (simp add: processMovie_def split_beta Let_def ops_announced publish_admitted_announced
      split: sum.splits)

lemma queue_processAll_announced:
  "announced R m q n w \<Longrightarrow> announced R m q n (queue_processAll R (Some publish) cap batch w)"
proof -
  have "announced R m q n (fold (processMovie R (Some publish) cap batch) ms w)"
    if "announced R m q n w" for ms w
    using that by (induction ms arbitrary: w) (simp_all add: processMovie_announced)
  then show "announced R m q n w \<Longrightarrow> ?thesis"
    by (simp add: queue_processAll_def split_beta ops_announced split: sum.splits bool.splits)
qed

lemma enter_handler_announced:
  assumes "announced R m q n w"
  shows "announced R m q n
    (snd (enter_handler R a (Some (\<lambda>q m. publish TopicAdmissions [admission q m])) b w))"
proof (cases "bind_ids b")
  case (Some mq)
  obtain m' r where mq: "mq = (m', r)" by (cases mq)
  have clear: "announced R m q n (snd (ClearPending R m' [admit_enter r]
      (snd (publish TopicAdmissions [admission r m'] w))))"
    if "announced R m q n w" "fst (publish TopicAdmissions [admission r m'] w) = None" for w
    by (rule publish_clear_kept [OF owed_rests that]) (auto simp: announcement_def)
  show ?thesis
    using assms by (simp add: enter_handler_def enter_admitted_def Some mq split_beta Let_def
        members_printed ops_announced publish_kept clear split: sum.splits option.splits)
qed (use assms in \<open>simp add: enter_handler_def\<close>)

subsection \<open>The sweep\<close>

lemma collect_parsed:
  "e \<in> set (fst (pending_collect R m raw w)) \<Longrightarrow> ParsePendingMember (pMember e) = Some e"
proof (induction raw arbitrary: w)
  case (Cons x raw)
  then show ?case using print_parse [of x] by (auto simp: split_beta split: option.splits)
qed simp

lemma collect_kept:
  assumes "rests_on R m X P" and "entries m msg X" and "kept P msg n w"
  shows "kept P msg n (snd (pending_collect R m' raw w))"
  using assms(3)
proof (induction raw arbitrary: w)
  case (Cons x raw)
  have "kept P msg n (snd (redis_call (ZREM R (PendingKey m') [x]) w))"
    if "ParsePendingMember x = None"
  proof (rule kept_keep [OF Cons.prems])
    assume "good P w"
    moreover have "x \<notin> X" using assms(2) that by (auto simp: entries_def)
    then have "keeps R 0 {CClear m' [x]} P" using assms(1) by (simp add: rests_on_def)
    ultimately show "good P (snd (redis_call (ZREM R (PendingKey m') [x]) w))"
      by (intro call_good [of R 0 "{CClear m' [x]}" _ "CClear m' [x]"]) simp_all
  qed simp
  with Cons show ?case by (simp add: split_beta split: option.splits)
qed simp

lemma PendingBefore_kept:
  assumes "rests_on R m X P" and "entries m msg X" and "kept P msg n w"
  shows "kept P msg n (snd (PendingBefore R m' cutoff limit w))"
proof -
  have "kept P msg n (snd (redis_read f w))" for f :: "'db \<Rightarrow> string list"
    using assms(3) by (rule kept_keep) (simp_all add: redis_read_good)
  then show ?thesis
    by (simp add: PendingBefore_def split_beta collect_kept [OF assms(1,2)] split: sum.splits)
qed

text \<open>After the sorting, an entry that stands for the message is in the list whose events hold
  the message.\<close>

definition sorted_ok :: "message \<Rightarrow> string set \<Rightarrow> sorted_events \<Rightarrow> bool" where
  "sorted_ok msg X s \<longleftrightarrow>
     (set (admitMembers s) \<inter> X \<noteq> {} \<longrightarrow> msg \<in> event_message TopicAdmissions ` set (admits_of s)) \<and>
     (set (revokeMembers s) \<inter> X \<noteq> {} \<longrightarrow> msg \<in> event_message TopicRevoked ` set (revokes_of s))"

lemma kinds_differ [simp]: "KindAdmit \<noteq> KindRevoke" "KindRevoke \<noteq> KindAdmit"
  by (simp_all add: vocabulary)

lemma sweep_sort_kept:
  assumes "rests_on R m X P" and "entries m msg X"
    and "\<forall>e\<in>set es. ParsePendingMember (pMember e) = Some e"
    and "kept P msg n w" and "m' = m \<longrightarrow> sorted_ok msg X s"
  shows "kept P msg n (snd (sweep_sort R m' es (s, w))) \<and>
    (m' = m \<longrightarrow> sorted_ok msg X (fst (sweep_sort R m' es (s, w))))"
  using assms(3-5)
proof (induction es arbitrary: s w)
  case (Cons e es)
  have kind: "stands_for m msg e" if "pMember e \<in> X"
    using Cons.prems(1) that assms(2) by (auto simp: entries_def)
  consider "pKind e = KindAdmit" | "pKind e = KindRevoke" "pKind e \<noteq> KindAdmit"
    | "pKind e \<noteq> KindAdmit" "pKind e \<noteq> KindRevoke" by blast
  then show ?case
  proof cases
    case 1
    let ?s = "s\<lparr>admits_of := admits_of s @ [admission (pRequestID e) m'],
      admitMembers := admitMembers s @ [pMember e]\<rparr>"
    have "m' = m \<longrightarrow> sorted_ok msg X ?s"
      using Cons.prems(3) kind 1 by (auto simp: sorted_ok_def stands_for_def)
    with 1 Cons.IH [of w ?s] Cons.prems(1,2) show ?thesis by simp
  next
    case 2
    let ?s = "s\<lparr>revokes_of := revokes_of s @ [revocation (pRequestID e) m' (pReason e)],
      revokeMembers := revokeMembers s @ [pMember e]\<rparr>"
    have "m' = m \<longrightarrow> sorted_ok msg X ?s"
      using Cons.prems(3) kind 2 by (auto simp: sorted_ok_def stands_for_def)
    with 2 Cons.IH [of w ?s] Cons.prems(1,2) show ?thesis by simp
  next
    case 3
    have "kept P msg n (snd (ClearPending R m' [pMember e] w))"
      by (rule kept_clear [OF assms(1) _ Cons.prems(2)]) (use kind 3 in \<open>auto simp: stands_for_def\<close>)
    with 3 Cons.IH [of "snd (ClearPending R m' [pMember e] w)" s] Cons.prems(1,3) show ?thesis by simp
  qed
qed simp

lemma publishAndClear_kept:
  assumes "rests_on R m X P" and "kept P msg n w"
    and "m' = m \<Longrightarrow> set ms \<inter> X \<noteq> {} \<Longrightarrow> msg \<in> set (map (event_message topic) evs)"
  shows "kept P msg n (publishAndClear R publish m' topic evs ms w)"
proof (cases "fst (publish topic evs w)")
  case None
  with assms publish_clear_kept [OF assms(1,2) None assms(3)] show ?thesis
    by (simp add: publishAndClear_def split_beta)
next
  case (Some err)
  with assms(2) show ?thesis by (simp add: publishAndClear_def split_beta publish_kept)
qed

lemma sweepMovie_kept:
  assumes rests: "rests_on R m X P" and "entries m msg X" and "kept P msg n w"
  shows "kept P msg n (sweepMovie R publish batch cutoff m' w)"
proof (cases "fst (PendingBefore R m' cutoff batch w)")
  case (Inl err)
  then show ?thesis
    using PendingBefore_kept [OF assms, of m' cutoff batch]
    by (simp add: sweepMovie_def split_beta)
next
  case (Inr es)
  let ?w = "snd (PendingBefore R m' cutoff batch w)"
  let ?s0 = "\<lparr>admits_of = [], admitMembers = [], revokes_of = [], revokeMembers = []\<rparr>"
  let ?sw = "sweep_sort R m' es (?s0, ?w)"
  have "\<forall>e\<in>set es. ParsePendingMember (pMember e) = Some e"
    using Inr collect_parsed by (auto simp: PendingBefore_def split_beta split: sum.splits)
  then have sorted: "kept P msg n (snd ?sw)" "m' = m \<longrightarrow> sorted_ok msg X (fst ?sw)"
    using sweep_sort_kept [OF assms(1,2) _ PendingBefore_kept [OF assms], of es m' ?s0]
    by (simp_all add: sorted_ok_def)
  let ?w1 = "publishAndClear R publish m' TopicAdmissions (admits_of (fst ?sw)) (admitMembers (fst ?sw)) (snd ?sw)"
  have w1: "kept P msg n ?w1"
    by (rule publishAndClear_kept [OF rests sorted(1)])
      (use sorted(2) in \<open>auto simp: sorted_ok_def\<close>)
  have "kept P msg n
      (publishAndClear R publish m' TopicRevoked (revokes_of (fst ?sw)) (revokeMembers (fst ?sw)) ?w1)"
    by (rule publishAndClear_kept [OF rests w1]) (use sorted(2) in \<open>auto simp: sorted_ok_def\<close>)
  then show ?thesis
    using Inr PendingBefore_kept [OF assms, of m' cutoff batch]
    by (simp add: sweepMovie_def split_beta Let_def)
qed

lemma sweep_processAll_kept:
  assumes "rests_on R m X P" and "entries m msg X" and "kept P msg n w"
  shows "kept P msg n (sweep_processAll R (Some publish) grace batch w)"
proof -
  have folded: "kept P msg n (fold (sweepMovie R publish batch cutoff) ms w)"
    if "kept P msg n w" for ms w cutoff
    using that by (induction ms arbitrary: w) (simp_all add: sweepMovie_kept [OF assms(1,2)])
  have "kept P msg n (snd (ActiveQueueMovies R w))" if "kept P msg n w" for w
    using that by (rule kept_keep) (simp_all add: reads_good)
  moreover have "kept P msg n (snd (now_ms w))" if "kept P msg n w" for w
    using that by (rule kept_keep) simp_all
  ultimately show ?thesis
    using assms(3) folded by (simp add: sweep_processAll_def split_beta split: sum.splits)
qed

end

interpretation ref_outbox: outbox ref_redis PublishEvents
  by (rule outbox.intro [OF ref_laws producer.publisher_axioms])

subsection \<open>Every step of a pod\<close>

context redis_service
begin

lemma consume_message_broker: "broker (snd (consume_message R i d cw)) = broker (snd cw)"
proof -
  have c: "broker (snd (commit i cw)) = broker (snd cw)" for cw :: "nat \<times> 'db world"
    by (simp add: commit_def split_beta split: kfate.splits)
  have l: "broker (ObserveCompletedLag k w) = broker w" for k and w :: "'db world"
    by (simp add: ObserveCompletedLag_def Let_def)
  show ?thesis
    by (simp add: consume_message_def split_beta Let_def c l split: option.splits sum.splits)
qed

lemma handlers_broker:
  "broker (snd (snd (position_handler R a m q c w))) = broker w"
  "broker (snd (snd (stats_handler R a m c w))) = broker w"
  "broker (snd (events_handler R m x w)) = broker w"
  "broker (snd (leave_handler R b w)) = broker w"
  "broker (snd (complete_handler R b w)) = broker w"
  "broker (snd (reset_handler R a header b w)) = broker w"
  "broker (snd (ready down w)) = broker w"
  by (simp_all add: position_handler_def stats_handler_def events_handler_def leave_handler_def
      complete_handler_def reset_handler_def ready_def Ping_def ETASeconds_def Rate_def PromotionRate_def
      split_beta split: sum.splits option.splits)

lemma timeouts_broker:
  "broker (timeout_processAll R t w) = broker w" "broker (waiting_processAll R t w) = broker w"
proof -
  have one: "broker (timeout_movie R c n m w) = broker w" "broker (waiting_movie R c m w) = broker w"
    for c n m and w :: "'db world"
    by (simp_all add: timeout_movie_def waiting_movie_def split_beta Let_def split: sum.splits)
  have "broker (fold (timeout_movie R c n) ms w) = broker w" "broker (fold (waiting_movie R c) ms w) = broker w"
    for c n ms and w :: "'db world"
    by (induction ms arbitrary: w) (simp_all add: one)
  then show "broker (timeout_processAll R t w) = broker w" "broker (waiting_processAll R t w) = broker w"
    by (simp_all add: timeout_processAll_def waiting_processAll_def split_beta split: sum.splits)
qed

lemma pod_step_announced:
  assumes "pod_step R cfg w w'" and "q \<noteq> []" and "announced R m q n w"
  shows "announced R m q n w'"
proof -
  note out = outbox.intro [OF redis_service_axioms producer.publisher_axioms]
  have K: "keeps R cap (spares m q) (owed R m q)" for cap by (rule owed_keeps) simp
  show ?thesis
    using assms(1)
  proof cases
    case (on_enter b)
    show ?thesis
      unfolding on_enter PublishAdmission_eq by (rule outbox.enter_handler_announced [OF out assms(3)])
  next
    case (on_completed i d committed)
    show ?thesis
      unfolding on_completed
      by (rule kept_keep [OF assms(3)])
        (simp_all add: consume_message_broker consume_message_good [OF K])
  next
    case promote_tick
    then show ?thesis
      by (simp add: ops_announced outbox.queue_processAll_announced [OF out] assms(3))
  next
    case sweep_tick
    then show ?thesis
      by (simp add: ops_announced outbox.sweep_processAll_kept [OF out owed_rests owed_entries [OF assms(2)]] assms(3))
  qed (rule kept_keep [OF assms(3)];
      simp add: handlers_broker timeouts_broker sample_broker sample_good reading_handlers_good reset_handler_good [OF K]
        leave_handler_good [OF K] position_handler_good [OF K] timeouts_good [OF owed_keeps])+
qed

end

end
