(* ===== verification/OutboxClaims.thy ===== *)
theory OutboxClaims
  imports Outbox LineClaims
begin

section \<open>Publishing: what is owed is published\<close>

text \<open>
  The properties of the loops that publish and of the consumer: no journal entry is lost, a
  sweep that nothing disturbs empties the journal, a failed publication stops promotion for ten
  seconds; and two runs in which the order of things goes wrong.
\<close>

text \<open>C7. A journal entry is never lost: if the other pods do not clear it, then after a sweep of
  any movie, with any calls, replies or writes failing, it is still in the journal or its
  event was published by this sweep, under the topic of its kind.\<close>

theorem sweep_loses_nothing:
  assumes "redis_service R" and "ParsePendingMember x = Some e" and "stands_for m msg e"
    and "good (\<lambda>db. x \<in> pends R db m) w"
    and "w' = sweepMovie R PublishEvents batch cutoff m' w"
  shows "x \<in> pends R (rdb w') m \<or> msg \<in> set (drop (length (broker w)) (broker w'))"
proof -
  note out = outbox.intro [OF assms(1) producer.publisher_axioms]
  have "entries m msg {x}" using assms(2,3) by (simp add: entries_def)
  from outbox.sweepMovie_kept [OF out redis_service.pends_rest [OF assms(1)] this kept_good [OF assms(4)]]
  show ?thesis unfolding assms(5) kept_def by (auto dest: goodD)
qed

lemma sweep_loses_nothing_witness:
  "admit_enter ''ann'' \<in> pends ref_redis (rdb (sweepMovie ref_redis PublishEvents 500 10
      ''7'' ((calm demo_db)\<lparr>kfates := [KFate [[True]] False]\<rparr>))) ''7'' \<or>
   announcement ''7'' ''ann'' \<in> set (broker (sweepMovie ref_redis PublishEvents 500 10
      ''7'' ((calm demo_db)\<lparr>kfates := [KFate [[True]] False]\<rparr>)))"
proof -
  let ?w = "(calm demo_db)\<lparr>kfates := [KFate [[True]] False]\<rparr>"
  have "good (\<lambda>db. admit_enter ''ann'' \<in> pends ref_redis db ''7'') ?w"
    by (simp add: good_calm demo_sets members_Cons)
  moreover have "stands_for ''7'' (announcement ''7'' ''ann'')
      \<lparr>pKind = KindAdmit, pReason = ReasonEnter, pRequestID = ''ann'', pMember = admit_enter ''ann''\<rparr>"
    by (simp add: stands_for_def announcement_def)
  ultimately show ?thesis
    using sweep_loses_nothing [OF ref_laws, of "admit_enter ''ann''" _ "''7''" _ ?w] by simp
qed

subsection \<open>A sweep that nothing disturbs\<close>

lemma calm_publish:
  "kfates w = [] \<Longrightarrow> fst (PublishEvents topic evs w) = None \<and>
     kfates (snd (PublishEvents topic evs w)) = [] \<and>
     broker (snd (PublishEvents topic evs w)) = broker w @ map (event_message topic) evs"
  by (simp add: PublishEvents_def WriteMessages_def Let_def)

lemma calm_publish_fields [simp]:
  "rdb (snd (PublishEvents topic evs w)) = rdb w" "fates (snd (PublishEvents topic evs w)) = fates w"
  by (rule PublishEvents_fields)+

definition parsed :: "string \<Rightarrow> PendingEvent" where
  "parsed x = the (ParsePendingMember x)"

definition publishable :: "string \<Rightarrow> bool" where
  "publishable x \<longleftrightarrow> (case ParsePendingMember x of
     None \<Rightarrow> False | Some e \<Rightarrow> pKind e = KindAdmit \<or> pKind e = KindRevoke)"

lemma collect_calm:
  "list_all publishable raw \<Longrightarrow> pending_collect R m raw w = (map parsed raw, w)"
  by (induction raw) (auto simp: publishable_def parsed_def split: option.splits)

definition is_admit :: "PendingEvent \<Rightarrow> bool" where
  "is_admit e \<longleftrightarrow> pKind e = KindAdmit"

lemma sort_calm:
  assumes "\<forall>e\<in>set es. pKind e = KindAdmit \<or> pKind e = KindRevoke"
  shows "sweep_sort R m es (s, w) =
    (s\<lparr>admits_of := admits_of s @ map (\<lambda>e. admission (pRequestID e) m) (filter is_admit es),
       admitMembers := admitMembers s @ map pMember (filter is_admit es),
       revokes_of := revokes_of s @
         map (\<lambda>e. revocation (pRequestID e) m (pReason e)) (filter (\<lambda>e. \<not> is_admit e) es),
       revokeMembers := revokeMembers s @ map pMember (filter (\<lambda>e. \<not> is_admit e) es)\<rparr>, w)"
  using assms by (induction es arbitrary: s) (auto simp: is_admit_def)

context redis_service
begin

lemma publishAndClear_calm:
  assumes "fates w = []" and "kfates w = []" and "evs \<noteq> [] \<or> ms = []"
  shows "fates (publishAndClear R PublishEvents m topic evs ms w) = [] \<and>
    kfates (publishAndClear R PublishEvents m topic evs ms w) = [] \<and>
    broker (publishAndClear R PublishEvents m topic evs ms w) = broker w @ map (event_message topic) evs \<and>
    pends R (rdb (publishAndClear R PublishEvents m topic evs ms w)) m = pends R (rdb w) m - set ms \<and>
    acts R (rdb (publishAndClear R PublishEvents m topic evs ms w)) m = acts R (rdb w) m \<and>
    waits R (rdb (publishAndClear R PublishEvents m topic evs ms w)) m = waits R (rdb w) m"
  using assms calm_publish [OF assms(2), of topic evs]
  by (auto simp: publishAndClear_def split_beta ClearPending_def calm_write key_simps
      split: option.splits)

lemma sweep_calm:
  assumes "fates w = []" and "kfates w = []" and "0 < batch"
    and raw: "raw = map fst (take (nat batch) (filter (\<lambda>x. snd x \<le> cutoff) (ZITEMS R (rdb w) (PendingKey m))))"
    and ok: "list_all publishable raw"
    and w': "w' = sweepMovie R PublishEvents batch cutoff m w"
  shows "broker w' = broker w
      @ map (\<lambda>e. event_message TopicAdmissions (admission (pRequestID e) m)) (filter is_admit (map parsed raw))
      @ map (\<lambda>e. event_message TopicRevoked (revocation (pRequestID e) m (pReason e)))
          (filter (\<lambda>e. \<not> is_admit e) (map parsed raw)) \<and>
    pends R (rdb w') m = pends R (rdb w) m - set raw \<and>
    acts R (rdb w') m = acts R (rdb w) m \<and> waits R (rdb w') m = waits R (rdb w) m"
proof -
  let ?es = "map parsed raw"
  have before: "PendingBefore R m cutoff batch w = (Inr ?es, w)"
    using assms(1,3) collect_calm [OF ok, of R m w]
    by (simp add: PendingBefore_def calm_read zrangebyscore_items limited_def raw)
  have kinds: "\<forall>e\<in>set ?es. pKind e = KindAdmit \<or> pKind e = KindRevoke"
    using ok by (auto simp: list_all_iff publishable_def parsed_def split: option.splits)
  have mem: "map pMember ?es = raw"
  proof -
    have "pMember (parsed x) = x" if "x \<in> set raw" for x
      using ok that print_parse [of x]
      by (auto simp: list_all_iff publishable_def parsed_def split: option.splits)
    then show ?thesis by (simp add: map_idI)
  qed
  have set_raw: "set (map pMember (filter is_admit ?es)) \<union> set (map pMember (filter (\<lambda>e. \<not> is_admit e) ?es)) = set raw"
  proof -
    have "set (map pMember (filter P es)) \<union> set (map pMember (filter (\<lambda>e. \<not> P e) es)) = set (map pMember es)"
      for P and es :: "PendingEvent list" by (induction es) auto
    then show ?thesis by (simp only: mem)
  qed
  let ?w1 = "publishAndClear R PublishEvents m TopicAdmissions
    (map (\<lambda>e. admission (pRequestID e) m) (filter is_admit ?es)) (map pMember (filter is_admit ?es)) w"
  have 1: "fates ?w1 = [] \<and> kfates ?w1 = [] \<and>
      broker ?w1 = broker w @ map (event_message TopicAdmissions)
        (map (\<lambda>e. admission (pRequestID e) m) (filter is_admit ?es)) \<and>
      pends R (rdb ?w1) m = pends R (rdb w) m - set (map pMember (filter is_admit ?es)) \<and>
      acts R (rdb ?w1) m = acts R (rdb w) m \<and> waits R (rdb ?w1) m = waits R (rdb w) m"
    by (rule publishAndClear_calm [OF assms(1,2)]) simp
  let ?w2 = "publishAndClear R PublishEvents m TopicRevoked
    (map (\<lambda>e. revocation (pRequestID e) m (pReason e)) (filter (\<lambda>e. \<not> is_admit e) ?es))
    (map pMember (filter (\<lambda>e. \<not> is_admit e) ?es)) ?w1"
  have 2: "broker ?w2 = broker ?w1 @ map (event_message TopicRevoked)
        (map (\<lambda>e. revocation (pRequestID e) m (pReason e)) (filter (\<lambda>e. \<not> is_admit e) ?es)) \<and>
      pends R (rdb ?w2) m = pends R (rdb ?w1) m - set (map pMember (filter (\<lambda>e. \<not> is_admit e) ?es)) \<and>
      acts R (rdb ?w2) m = acts R (rdb ?w1) m \<and> waits R (rdb ?w2) m = waits R (rdb ?w1) m"
    using publishAndClear_calm [of ?w1 "map (\<lambda>e. revocation (pRequestID e) m (pReason e)) (filter (\<lambda>e. \<not> is_admit e) ?es)"]
      1 by simp
  have "sweepMovie R PublishEvents batch cutoff m w = (if ?es = [] then w else ?w2)"
    by (simp add: sweepMovie_def before sort_calm [OF kinds] Let_def del: map_map)
  then have "w' = (if ?es = [] then w else ?w2)" using w' by simp
  then show ?thesis
    using 1 2 set_raw by (cases "raw = []") auto
qed

end

text \<open>C22. A sweep that nothing disturbs publishes every entry old enough (up to its batch, oldest
  first), the admissions in the order of the journal and then the revocations, each under its
  own topic, and leaves exactly the others in the journal and the seats and the line as they were.\<close>

theorem sweep_publishes_the_journal:
  assumes "redis_service R" and "fates w = []" and "kfates w = []" and "0 < batch"
    and "raw = map fst (take (nat batch) (filter (\<lambda>x. snd x \<le> cutoff) (ZITEMS R (rdb w) (PendingKey m))))"
    and "list_all publishable raw" and "w' = sweepMovie R PublishEvents batch cutoff m w"
  shows "broker w' = broker w
      @ map (\<lambda>e. event_message TopicAdmissions (admission (pRequestID e) m)) (filter is_admit (map parsed raw))
      @ map (\<lambda>e. event_message TopicRevoked (revocation (pRequestID e) m (pReason e)))
          (filter (\<lambda>e. \<not> is_admit e) (map parsed raw)) \<and>
    pends R (rdb w') m = pends R (rdb w) m - set raw \<and>
    acts R (rdb w') m = acts R (rdb w) m \<and> waits R (rdb w') m = waits R (rdb w) m"
  using assms by (rule redis_service.sweep_calm)

lemma sweep_publishes_the_journal_witness:
  "broker (sweepMovie ref_redis PublishEvents 500 10 ''7'' (calm demo_db)) = [announcement ''7'' ''ann''] \<and>
   pends ref_redis (rdb (sweepMovie ref_redis PublishEvents 500 10 ''7'' (calm demo_db))) ''7'' = {}"
  using sweep_publishes_the_journal [OF ref_laws, of "calm demo_db" 500 "[admit_enter ''ann'']" 10 "''7''"]
  by (simp add: demo_sets publishable_def parsed_def is_admit_def announcement_def members_Cons)

subsection \<open>The pause after a failed publication\<close>

context redis_service
begin

lemma pause_spec:
  assumes "fates w = []" and "kfates w = KFate lost False # fs" and "us \<noteq> []"
    and "(k, w') = publish_admitted R (Some PublishEvents) m us w" and "0 \<le> d"
  shows "k = 0 \<and> pends R (rdb w') m = pends R (rdb w) m \<and>
    (d < promotePause \<longrightarrow> queue_processAll R pub cap batch (w'\<lparr>rdb := ELAPSE R d (rdb w')\<rparr>)
       = w'\<lparr>rdb := ELAPSE R d (rdb w')\<rparr>) \<and>
    (promotePause \<le> d \<longrightarrow> \<not> EXISTS R (ELAPSE R d (rdb w')) PromotePauseKey)"
proof -
  let ?evs = "map (\<lambda>r. admission r m) us"
  let ?w1 = "snd (PublishEvents TopicAdmissions ?evs w)"
  have f: "fst (PublishEvents TopicAdmissions ?evs w) \<noteq> None"
    using assms(2,3) by (simp add: PublishEvents_def WriteMessages_def Let_def)
  have p: "publish_admitted R (Some PublishEvents) m us w = (0, snd (SetPromotePause R promotePause ?w1))"
    using f by (auto simp: publish_admitted_def Let_def split_beta)
  then have w': "w' = ?w1\<lparr>rdb := SETPX R PromotePauseKey ''1'' promotePause (rdb w)\<rparr>" and k: "k = 0"
    using assms(1,4) by (simp_all add: SetPromotePause_def calm_write)
  have pos: "0 < promotePause" by (simp add: promotePause_def)
  note set = setpx_value [OF pos, of PromotePauseKey "''1''" "rdb w"]
  have live: "EXISTS R (ELAPSE R d (rdb w')) PromotePauseKey" if "d < promotePause"
    using elapse_before [OF conjunct2 [OF set] assms(5) that] set by (simp add: w' exists_iff)
  have dead: "\<not> EXISTS R (ELAPSE R d (rdb w')) PromotePauseKey" if "promotePause \<le> d"
    using elapse_after [OF conjunct2 [OF set] that] by (simp add: w' exists_iff gone_at_def)
  have "queue_processAll R pub cap batch (w'\<lparr>rdb := ELAPSE R d (rdb w')\<rparr>) = w'\<lparr>rdb := ELAPSE R d (rdb w')\<rparr>"
    if "d < promotePause"
    using live [OF that] assms(1)
    by (simp add: queue_processAll_def PromotePaused_def calm_read w')
  moreover have "pends R (rdb w') m = pends R (rdb w) m" by (simp add: w' key_simps)
  ultimately show ?thesis using dead k by blast
qed

end

text \<open>C23. A failed publication after a promotion keeps the journal and stops promotion everywhere
  for exactly ten seconds: a tick within them does nothing at all, and after them the flag is
  gone. What was admitted does not count for the rate.\<close>

theorem failed_publication_pauses_promotion:
  assumes "redis_service R" and "fates w = []" and "kfates w = KFate lost False # fs" and "us \<noteq> []"
    and "(k, w') = publish_admitted R (Some PublishEvents) m us w" and "0 \<le> d"
  shows "k = 0 \<and> pends R (rdb w') m = pends R (rdb w) m \<and>
    (d < promotePause \<longrightarrow> queue_processAll R pub cap batch (w'\<lparr>rdb := ELAPSE R d (rdb w')\<rparr>)
       = w'\<lparr>rdb := ELAPSE R d (rdb w')\<rparr>) \<and>
    (promotePause \<le> d \<longrightarrow> \<not> EXISTS R (ELAPSE R d (rdb w')) PromotePauseKey)"
  using assms by (rule redis_service.pause_spec)

lemma failed_publication_pauses_promotion_witness:
  "fst (publish_admitted ref_redis (Some PublishEvents) ''7'' [''ann'']
     ((calm demo_db)\<lparr>kfates := [KFate [] False]\<rparr>)) = 0"
proof -
  obtain k w' where e: "(k, w') = publish_admitted ref_redis (Some PublishEvents) ''7'' [''ann'']
      ((calm demo_db)\<lparr>kfates := [KFate [] False]\<rparr>)" by (metis surj_pair)
  have "k = 0"
    using failed_publication_pauses_promotion [OF ref_laws _ _ _ e, of "[]" "[]" 0] by simp
  then show ?thesis by (metis e fst_conv)
qed

subsection \<open>Finished bookings\<close>

lemma consume_fields [simp]:
  "kfates (snd (AppendEvents R m ty rids now w)) = kfates w"
  "ConsumeFailures (snd (AppendEvents R m ty rids now w)) = ConsumeFailures w"
  "ConsumeFailures (ObserveCompletedLag n w) = ConsumeFailures w"
  "ConsumeFailures (snd (now_ms w)) = ConsumeFailures w"
  "ConsumeFailures (snd (commit i cw)) = ConsumeFailures (snd cw)"
  by (simp_all add: AppendEvents_def redis_pipe_def redis_call_def ObserveCompletedLag_def now_ms_def
      commit_def Let_def split: fate.splits kfate.splits prod.splits sum.splits option.splits)

context redis_service
begin

lemma clear_items:
  "ZITEMS R (snd (ZREM R (PendingKey m) ms db)) (ActiveKey m') = ZITEMS R db (ActiveKey m')"
  "ZITEMS R (snd (ZREM R (PendingKey m) ms db)) (WaitingKey m') = ZITEMS R db (WaitingKey m')"
  "ZITEMS R (snd (ZREM R (PendingKey m) ms db)) (PendingKey m) = zdel ms (ZITEMS R db (PendingKey m))"
  by (simp_all add: key_simps)

lemma feed_queues_same: "c \<in> feed_cmds m \<Longrightarrow> queues_same (exec R cap c db) db"
  by (auto simp: feed_cmds_def queues_same_def no_movie_keys feed_store_frame zremrangebyrank_frame
      expire_frame incrby_frame)

lemma queues_same_trans: "queues_same db1 db2 \<Longrightarrow> queues_same db2 db3 \<Longrightarrow> queues_same db1 db3"
  unfolding queues_same_def using same_at_trans by blast

text \<open>A feed entry leaves the queues as they are.\<close>

lemma append_queues_same:
  assumes "fates w = []"
  shows "queues_same (rdb (snd (AppendEvents R m ty rids now w))) (rdb w)"
proof -
  have "keeps R 0 (feed_cmds m) (\<lambda>db. queues_same db (rdb w))"
    unfolding keeps_def using feed_queues_same queues_same_trans by blast
  moreover have "good (\<lambda>db. queues_same db (rdb w)) w"
    using assms by (simp add: good_calm queues_same_def same_at_def)
  ultimately show ?thesis using AppendEvents_good goodD by fastforce
qed

lemma consume_spec:
  assumes "dEvent d = Some e"
  shows "(fates w = [] \<and> kfates w = [] \<longrightarrow>
      (case consume_message R i d (committed, w) of (committed', w') \<Rightarrow>
         committed' = Suc i \<and> ConsumeFailures w' = ConsumeFailures w \<and>
         acts R (rdb w') (eMovieID e) = acts R (rdb w) (eMovieID e) - {eRequestID e} \<and>
         waits R (rdb w') (eMovieID e) = waits R (rdb w) (eMovieID e) \<and>
         pends R (rdb w') (eMovieID e) =
           pends R (rdb w) (eMovieID e) - {admit_enter (eRequestID e), admit_promote (eRequestID e)})) \<and>
    (fates w = Fate [] gs False # fs \<longrightarrow>
      consume_message R i d (committed, w) =
        (committed, w\<lparr>fates := fs, ConsumeFailures := ConsumeFailures w + 1\<rparr>))"
proof (intro conjI impI)
  let ?m = "eMovieID e" and ?q = "eRequestID e"
  let ?w1 = "w\<lparr>rdb := snd (complete_cmd R ?m ?q (rdb w))\<rparr>"
  let ?w' = "snd (consume_message R i d (committed, w))"
  assume calm: "fates w = [] \<and> kfates w = []"
  have c: "CompleteActive R ?m ?q w = (Inr (?q \<in> acts R (rdb w) ?m), ?w1)"
    using calm by (simp add: CompleteActive_def calm_call complete_members split_beta)
  have w1: "fates ?w1 = []" "kfates ?w1 = []" "ConsumeFailures ?w1 = ConsumeFailures w" using calm by simp_all
  have end_: "fst (commit i (committed, v)) = Suc i" if "kfates v = []" for v
    using that by (simp add: commit_def)
  have "fst (consume_message R i d (committed, w)) = Suc i \<and> ConsumeFailures ?w' = ConsumeFailures w \<and>
      queues_same (rdb ?w') (rdb ?w1)"
    using w1 append_queues_same
    by (simp add: consume_message_def assms c split_beta Let_def end_ queues_same_def same_at_def)
  then show "case consume_message R i d (committed, w) of (committed', w') \<Rightarrow>
         committed' = Suc i \<and> ConsumeFailures w' = ConsumeFailures w \<and>
         acts R (rdb w') (eMovieID e) = acts R (rdb w) (eMovieID e) - {eRequestID e} \<and>
         waits R (rdb w') (eMovieID e) = waits R (rdb w) (eMovieID e) \<and>
         pends R (rdb w') (eMovieID e) =
           pends R (rdb w) (eMovieID e) - {admit_enter (eRequestID e), admit_promote (eRequestID e)}"
    by (auto simp: split_beta queues_sameD complete_members)
next
  assume "fates w = Fate [] gs False # fs"
  then show "consume_message R i d (committed, w) =
        (committed, w\<lparr>fates := fs, ConsumeFailures := ConsumeFailures w + 1\<rparr>)"
    by (simp add: consume_message_def assms CompleteActive_def redis_call_def next_fate_def)
qed

end

text \<open>C24. The consumer of finished bookings, on a well-formed message: undisturbed it takes the
  visitor's seat away together with an admission not yet published, owes no revocation for it,
  leaves the line alone and commits the message; when Redis fails it commits nothing, counts
  the failure and leaves the database as it is.\<close>

theorem finished_booking_outcome:
  assumes "redis_service R" and "dEvent d = Some e"
  shows "(fates w = [] \<and> kfates w = [] \<longrightarrow>
      (case consume_message R i d (committed, w) of (committed', w') \<Rightarrow>
         committed' = Suc i \<and> ConsumeFailures w' = ConsumeFailures w \<and>
         acts R (rdb w') (eMovieID e) = acts R (rdb w) (eMovieID e) - {eRequestID e} \<and>
         waits R (rdb w') (eMovieID e) = waits R (rdb w) (eMovieID e) \<and>
         pends R (rdb w') (eMovieID e) =
           pends R (rdb w) (eMovieID e) - {admit_enter (eRequestID e), admit_promote (eRequestID e)})) \<and>
    (fates w = Fate [] gs False # fs \<longrightarrow>
      consume_message R i d (committed, w) =
        (committed, w\<lparr>fates := fs, ConsumeFailures := ConsumeFailures w + 1\<rparr>))"
  using assms by (rule redis_service.consume_spec)

lemma finished_booking_outcome_witness:
  "fst (consume_message ref_redis 4 \<lparr>dEvent = Some (admission ''ann'' ''7''), dTime = 0\<rparr> (0, calm demo_db)) = 5 \<and>
   acts ref_redis (rdb (snd (consume_message ref_redis 4
     \<lparr>dEvent = Some (admission ''ann'' ''7''), dTime = 0\<rparr> (0, calm demo_db)))) ''7'' = {}"
  using finished_booking_outcome [OF ref_laws, of "\<lparr>dEvent = Some (admission ''ann'' ''7''), dTime = 0\<rparr>"
      "admission ''ann'' ''7''" "calm demo_db" 4 0]
  by (simp add: admission_def split_beta demo_sets members_Cons)

end
