(* ===== verification/Races.thy ===== *)
theory Races
  imports OutboxClaims
begin

section \<open>Finished bookings that are skipped\<close>

text \<open>
  The consumer's loop over several messages, one of which Redis does not answer for. The comment
  at the loop promises that such a message is delivered again; what the commits of the later
  messages do to the group's offset contradicts it.
\<close>

definition other_booking :: "string \<Rightarrow> string \<Rightarrow> delivery \<Rightarrow> bool" where
  "other_booking m q d \<longleftrightarrow>
     (case dEvent d of None \<Rightarrow> True | Some e \<Rightarrow> (eMovieID e, eRequestID e) \<noteq> (m, q))"

context redis_service
begin

text \<open>The commands a message about another booking sends leave the visitor's seat alone.\<close>

lemma other_booking_keeps:
  assumes "(m', q') \<noteq> (m, q)"
  shows "keeps R cap (complete_cmds m' q') (\<lambda>db. q \<in> acts R db m)"
  unfolding keeps_def
proof (intro ballI allI impI)
  fix c db
  assume c: "c \<in> complete_cmds m' q'" and q: "q \<in> acts R db m"
  consider "c = CComplete m' q'" "m' = m" | "c = CComplete m' q'" "m' \<noteq> m" | "c \<in> feed_cmds m'"
    using c by (auto simp: complete_cmds_def)
  then show "q \<in> acts R (exec R cap c db) m"
  proof cases
    case 1
    with assms q show ?thesis by (simp add: complete_members)
  next
    case 2
    then have "others_same m' (exec R cap c db) db" by (intro movie_others_same) simp
    with 2 q show ?thesis by (simp add: others_same_def)
  next
    case 3
    then have "queues_same (exec R cap c db) db" by (rule feed_queues_same)
    with q show ?thesis by (simp add: queues_sameD(1))
  qed
qed

lemma append_events_calm: "fates w = [] \<Longrightarrow> fates (snd (AppendEvents R m ty rids now w)) = []"
  by (simp add: AppendEvents_def Let_def split_beta split: sum.splits option.splits)

lemma consume_calm_commits:
  assumes "fates w = []" and "kfates w = []"
  shows "case consume_message R i d (committed, w) of (committed', w') \<Rightarrow>
    committed' = Suc i \<and> fates w' = [] \<and> kfates w' = [] \<and> ConsumeFailures w' = ConsumeFailures w"
proof (cases "dEvent d")
  case None
  with assms show ?thesis by (simp add: consume_message_def commit_def)
next
  case (Some e)
  let ?w1 = "w\<lparr>rdb := snd (complete_cmd R (eMovieID e) (eRequestID e) (rdb w))\<rparr>"
  have c: "CompleteActive R (eMovieID e) (eRequestID e) w =
      (Inr (eRequestID e \<in> acts R (rdb w) (eMovieID e)), ?w1)"
    using assms(1) by (simp add: CompleteActive_def calm_call complete_members split_beta)
  show ?thesis
    using assms by (simp add: consume_message_def Some c split_beta Let_def commit_def append_events_calm)
qed

lemma later_messages:
  assumes "fates w = []" and "kfates w = []" and "\<forall>x\<in>set later. other_booking m q (snd x)"
    and "q \<in> acts R (rdb w) m"
    and "ConsumeCompleted R (map Some later) (committed, w) = (committed', w')"
  shows "committed' = (if later = [] then committed else Suc (fst (last later))) \<and>
    ConsumeFailures w' = ConsumeFailures w \<and> q \<in> acts R (rdb w') m"
  using assms
proof (induction later arbitrary: committed w)
  case (Cons x later)
  obtain j d where x: "x = (j, d)" by (cases x)
  obtain c1 w1 where step: "consume_message R j d (committed, w) = (c1, w1)" by fastforce
  have 1: "c1 = Suc j" "fates w1 = []" "kfates w1 = []" "ConsumeFailures w1 = ConsumeFailures w"
    using consume_calm_commits [OF Cons.prems(1,2), of j d committed] by (simp_all add: step)
  have "keeps R 0 (complete_cmds (eMovieID e) (eRequestID e)) (\<lambda>db. q \<in> acts R db m)"
    if "dEvent d = Some e" for e
    using Cons.prems(3) that by (intro other_booking_keeps) (auto simp: x other_booking_def)
  then have "keeps R 0 {c. \<exists>e. dEvent d = Some e \<and> c \<in> complete_cmds (eMovieID e) (eRequestID e)}
      (\<lambda>db. q \<in> acts R db m)"
    unfolding keeps_def by blast
  from consume_message_good [OF this, of d "(committed, w)" j] Cons.prems(1,4)
  have "q \<in> acts R (rdb w1) m" by (fastforce simp: step good_calm dest: goodD)
  with Cons.IH [OF 1(2,3), of c1] Cons.prems(3,5) show ?case
    by (auto simp: x step 1(1,4))
qed simp

end

text \<open>C29. A finished booking for which Redis did not answer is skipped by the later messages: each of
  them, well-formed or not, is committed, so the group's offset ends past the failed message
  although the consumer never committed that one, and its visitor keeps the seat.\<close>

theorem later_commit_skips_a_failed_message:
  assumes "redis_service R" and "fates w = [Fate [] gs False]" and "kfates w = []"
    and "dEvent d = Some e" and "eRequestID e \<in> acts R (rdb w) (eMovieID e)"
    and "later \<noteq> []" and "\<forall>(j, d')\<in>set later. i < j \<and> other_booking (eMovieID e) (eRequestID e) d'"
    and "ConsumeCompleted R (Some (i, d) # map Some later) (committed, w) = (committed', w')"
  shows "committed' = Suc (fst (last later)) \<and> i < committed' \<and>
    ConsumeFailures w' = ConsumeFailures w + 1 \<and>
    eRequestID e \<in> acts R (rdb w') (eMovieID e)"
proof -
  let ?w1 = "w\<lparr>fates := [], ConsumeFailures := ConsumeFailures w + 1\<rparr>"
  have "consume_message R i d (committed, w) = (committed, ?w1)"
    using redis_service.consume_spec [OF assms(1,4)] assms(2) by blast
  with assms(8) have "ConsumeCompleted R (map Some later) (committed, ?w1) = (committed', w')" by simp
  from redis_service.later_messages [OF assms(1) _ _ _ _ this] assms(3,5-7)
  have "committed' = Suc (fst (last later)) \<and> ConsumeFailures w' = ConsumeFailures w + 1 \<and>
    eRequestID e \<in> acts R (rdb w') (eMovieID e)"
    by (auto simp: split_beta)
  moreover have "i < fst (last later)" using assms(6,7) last_in_set by fastforce
  ultimately show ?thesis by simp
qed

text \<open>Two visitors are seated and both bookings finish; Redis is down for the first message, and a
  message that does not parse comes third.\<close>

lemma later_commit_skips_a_failed_message_witness:
  "\<exists>w' :: ref_db world. ''ann'' \<in> acts ref_redis (rdb w') ''7'' \<and>
     ConsumeCompleted ref_redis (Some (0, \<lparr>dEvent = Some (admission ''ann'' ''7''), dTime = 30\<rparr>) #
       map Some [(1, \<lparr>dEvent = Some (admission ''bob'' ''7''), dTime = 30\<rparr>), (2, \<lparr>dEvent = None, dTime = 31\<rparr>)])
       (0, (calm demo_db)\<lparr>fates := [Fate [] [] False]\<rparr>) = (3, w')"
proof -
  let ?d = "\<lparr>dEvent = Some (admission ''ann'' ''7''), dTime = 30\<rparr>"
  let ?later = "[(1, \<lparr>dEvent = Some (admission ''bob'' ''7''), dTime = 30\<rparr>), (2, \<lparr>dEvent = None, dTime = 31\<rparr>)]"
  let ?w = "(calm demo_db)\<lparr>fates := [Fate [] [] False]\<rparr>"
  obtain c w' where run: "ConsumeCompleted ref_redis (Some (0, ?d) # map Some ?later) (0, ?w) = (c, w')"
    by (metis surj_pair)
  have "c = Suc (fst (last ?later)) \<and> 0 < c \<and> ConsumeFailures w' = ConsumeFailures ?w + 1 \<and>
    eRequestID (admission ''ann'' ''7'') \<in> acts ref_redis (rdb w') (eMovieID (admission ''ann'' ''7''))"
    by (rule later_commit_skips_a_failed_message [OF ref_laws _ _ _ _ _ _ run])
      (simp_all add: admission_def demo_sets other_booking_def)
  then show ?thesis using run by (intro exI [of _ w']) (simp add: admission_def del: ConsumeCompleted.simps)
qed

end
