(* ===== verification/HandlerClaims.thy ===== *)
theory HandlerClaims
  imports OutboxClaims CleanupClaims
begin

section \<open>Requests: what a client is answered\<close>

text \<open>
  The properties of the HTTP handlers as a whole: what a well-formed request does and answers
  when nothing disturbs it, what a malformed one and one that finds Redis down do, who may
  reset; and the run in which a visitor who comes back is revoked.
\<close>

lemma zdel_zput:
  assumes "zwf xs"
  shows "zdel [v] (zput (v, s) xs) = zdel [v] xs"
  by (rule zwf_eqI) (auto simp: assms set_zdel set_zput)

text \<open>What entering answers in a calm world.\<close>

definition enter_reply_to :: "'db redis \<Rightarrow> 'db world \<Rightarrow> string \<Rightarrow> string \<Rightarrow> int \<Rightarrow> response" where
  "enter_reply_to R w m q cap =
     (if q \<in> acts R (rdb w) m then JSON 200 (enterResponse ''ALREADY_ACTIVE'' q 0 0)
      else if seats R (rdb w) m cap q then JSON 200 (enterResponse ''ADMITTED'' q 0 0)
      else JSON 202 (enterResponse ''WAITING'' q
        (int (zpos (zput (q, clock w) (ZITEMS R (rdb w) (WaitingKey m))) q) + 1)
        (int (card (insert q (waits R (rdb w) m))))))"

context redis_service
begin

lemma append_calm:
  assumes "fates w = []"
  shows "fates (snd (AppendEvents R m ty rids now w)) = []"
    and "ZITEMS R (rdb (snd (AppendEvents R m ty rids now w))) (ActiveKey m') = ZITEMS R (rdb w) (ActiveKey m')"
    and "ZITEMS R (rdb (snd (AppendEvents R m ty rids now w))) (WaitingKey m') = ZITEMS R (rdb w) (WaitingKey m')"
    and "ZITEMS R (rdb (snd (AppendEvents R m ty rids now w))) (PendingKey m') = ZITEMS R (rdb w) (PendingKey m')"
  using queues_sameD [OF append_queues_same [OF assms]] assms
  by (auto simp: AppendEvents_def split_beta split: sum.splits option.splits)

lemma fresh_sets:
  "fresh R db \<Longrightarrow> acts R db m = {} \<and> waits R db m = {} \<and> pends R db m = {}"
  by (simp add: fresh_def gone_at_def)

lemma enter_handler_calm:
  assumes "fates w = []" and "kfates w = []" and "bind_ids b = Some (m, q)"
    and "idPattern m" and "idPattern q"
    and "w' = snd (enter_handler R a (Some PublishAdmission) b w)"
  shows "fst (enter_handler R a (Some PublishAdmission) b w) = enter_reply_to R w m q (maxSessions a) \<and>
    fates w' = [] \<and> kfates w' = [] \<and>
    ZITEMS R (rdb w') (ActiveKey m) =
      (if seats R (rdb w) m (maxSessions a) q then zput (q, clock w) (ZITEMS R (rdb w) (ActiveKey m))
       else ZITEMS R (rdb w) (ActiveKey m)) \<and>
    ZITEMS R (rdb w') (WaitingKey m) =
      (if queues R (rdb w) m (maxSessions a) q then zput (q, clock w) (ZITEMS R (rdb w) (WaitingKey m))
       else ZITEMS R (rdb w) (WaitingKey m)) \<and>
    ZITEMS R (rdb w') (PendingKey m) =
      (if seats R (rdb w) m (maxSessions a) q then zdel [admit_enter q] (ZITEMS R (rdb w) (PendingKey m))
       else ZITEMS R (rdb w) (PendingKey m)) \<and>
    broker w' = broker w @ (if seats R (rdb w) m (maxSessions a) q then [announcement m q] else [])"
proof -
  let ?w0 = "snd (now_ms w)" and ?cap = "maxSessions a"
  let ?w1 = "?w0\<lparr>rdb := snd (enter_cmd R m q ?cap (clock w) (rdb w))\<rparr>"
  let ?w2 = "snd (AppendEvents R m ''ADMIT'' [q] (clock w) ?w1)"
  let ?w3 = "snd (PublishAdmission q m ?w2)"
  have calm: "fates ?w0 = []" "fates ?w1 = []" "kfates ?w2 = []" using assms(1,2) by simp_all
  have pub: "fst (PublishAdmission q m ?w2) = None" "kfates ?w3 = []"
    "broker ?w3 = broker w @ [announcement m q]" "rdb ?w3 = rdb ?w2" "fates ?w3 = fates ?w2"
    using calm_publish [OF calm(3)] by (simp_all add: PublishAdmission_def announcement_def)
  have ids: "\<not> rejectInvalidIDs [m, q]" using assms(4,5) by (simp add: rejectInvalidIDs_def)
  note run = enter_handler_def assms(3) ids Enter_calm [OF calm(1)] split_beta enter_reply_to_def
  note items = enter_items append_calm [OF calm(2)]
  have "fst (enter_handler R a (Some PublishAdmission) b w) = enter_reply_to R w m q (maxSessions a) \<and>
     snd (enter_handler R a (Some PublishAdmission) b w) =
       (if seats R (rdb w) m ?cap q
        then ?w3\<lparr>rdb := snd (ZREM R (PendingKey m) [admit_enter q] (rdb ?w2))\<rparr> else ?w1)"
    using pub append_calm(1) [OF calm(2)] assms(1)
    by (auto simp: run enter_admitted_def Let_def ClearPending_def calm_write seats_def members_printed
        status_defs split: option.splits)
  then show ?thesis
    using pub calm assms(1,2) unfolding assms(6)
    by (auto simp: items clear_items seats_def queues_def zdel_zput)
qed

lemma leave_items:
  "ZITEMS R (snd (leave_cmd R m q now db)) (ActiveKey m) = zdel [q] (ZITEMS R db (ActiveKey m))"
  "ZITEMS R (snd (leave_cmd R m q now db)) (WaitingKey m) = zdel [q] (ZITEMS R db (WaitingKey m))"
  "ZITEMS R (snd (leave_cmd R m q now db)) (PendingKey m) =
     (let P = zdel [admit_enter q, admit_promote q] (ZITEMS R db (PendingKey m))
      in if q \<in> acts R db m then zput (revoke ReasonLeave q, now) P else P)"
  by (auto simp: leave_cmd_def leaveScript_def Let_def split_beta key_simps)

lemma leave_handler_calm:
  assumes "fates w = []" and "bind_ids b = Some (m, q)" and "idPattern m" and "idPattern q"
    and "w' = snd (leave_handler R b w)"
  shows "fst (leave_handler R b w) = JSON 200 [(''status'', JStr ''LEFT''), (''requestId'', JStr q)] \<and>
    fates w' = [] \<and> kfates w' = kfates w \<and> broker w' = broker w \<and>
    ZITEMS R (rdb w') (ActiveKey m) = zdel [q] (ZITEMS R (rdb w) (ActiveKey m)) \<and>
    ZITEMS R (rdb w') (WaitingKey m) = zdel [q] (ZITEMS R (rdb w) (WaitingKey m)) \<and>
    ZITEMS R (rdb w') (PendingKey m) =
      (let P = zdel [admit_enter q, admit_promote q] (ZITEMS R (rdb w) (PendingKey m))
       in if q \<in> acts R (rdb w) m then zput (revoke ReasonLeave q, clock w) P else P)"
proof -
  let ?w0 = "snd (now_ms w)"
  let ?w1 = "?w0\<lparr>rdb := snd (leave_cmd R m q (clock w) (rdb w))\<rparr>"
  have calm: "fates ?w0 = []" "fates ?w1 = []" using assms(1) by simp_all
  have ids: "\<not> rejectInvalidIDs [m, q]" using assms(3,4) by (simp add: rejectInvalidIDs_def)
  have leave: "Leave R m q (clock w) ?w0 = (Inr (q \<in> acts R (rdb w) m \<or> q \<in> waits R (rdb w) m), ?w1)"
    using calm(1) by (simp add: Leave_def calm_script leave_reply reply_int64_def)
  have "w' = ?w1 \<or> w' = snd (AppendEvents R m ''LEAVE'' [q] (clock w) ?w1)"
    using ids leave by (simp add: assms(2,5) leave_handler_def split_beta)
  moreover have "fst (leave_handler R b w) = JSON 200 [(''status'', JStr ''LEFT''), (''requestId'', JStr q)]"
    using ids leave by (simp add: assms(2) leave_handler_def split_beta status_defs)
  ultimately show ?thesis
    using calm append_calm [OF calm(2)] by (auto simp: leave_items)
qed

lemma enter_request_spec:
  assumes "fates w = []" and "kfates w = []" and "bind_ids b = Some (m, q)"
    and "idPattern m" and "idPattern q"
    and "(resp, w') = enter_handler R a (Some PublishAdmission) b w"
  shows "let A = acts R (rdb w) m; W = waits R (rdb w) m; P = pends R (rdb w) m;
             sits = q \<notin> A \<and> q \<notin> W \<and> int (card A) < maxSessions a
    in resp = enter_reply_to R w m q (maxSessions a) \<and>
       acts R (rdb w') m = (if sits then insert q A else A) \<and>
       waits R (rdb w') m = (if q \<in> A \<or> sits then W else insert q W) \<and>
       pends R (rdb w') m = (if sits then P - {admit_enter q} else P) \<and>
       broker w' = broker w @ (if sits then [announcement m q] else [])"
  using enter_handler_calm [OF assms(1-5) refl, of a] assms(6) [symmetric]
  by (auto simp: Let_def seats_def queues_def zcard_card)

lemma back_again_spec:
  assumes "fates w = []" and "kfates w = []" and "bind_ids b = Some (m, q)"
    and ids: "idPattern m" "idPattern q"
    and empty: "acts R (rdb w) m = {}" "waits R (rdb w) m = {}" "pends R (rdb w) m = {}"
    and "1 \<le> maxSessions a" and "t1 \<le> cutoff" and "0 < batch"
    and w1: "w1 = snd (enter_handler R a (Some PublishAdmission) b w)"
    and w2: "w2 = snd (leave_handler R b (w1\<lparr>clock := t1\<rparr>))"
    and w3: "w3 = snd (enter_handler R a (Some PublishAdmission) b (w2\<lparr>clock := t2\<rparr>))"
    and w4: "w4 = sweepMovie R PublishEvents batch cutoff m w3"
  shows "acts R (rdb w4) m = {q} \<and> pends R (rdb w4) m = {} \<and>
    broker w4 = broker w @ [announcement m q, announcement m q,
      event_message TopicRevoked (revocation q m ReasonLeave)]"
proof -
  have none: "ZITEMS R (rdb w) (ActiveKey m) = []" "ZITEMS R (rdb w) (WaitingKey m) = []"
    "ZITEMS R (rdb w) (PendingKey m) = []" using empty by simp_all
  have 1: "fates w1 = [] \<and> kfates w1 = [] \<and> broker w1 = broker w @ [announcement m q] \<and>
      ZITEMS R (rdb w1) (ActiveKey m) = [(q, clock w)] \<and> ZITEMS R (rdb w1) (WaitingKey m) = [] \<and>
      ZITEMS R (rdb w1) (PendingKey m) = []"
    using enter_handler_calm [OF assms(1-3) ids w1] none assms(9)
    by (simp add: seats_def queues_def zcard_items zput_def zdel_def)
  have 2: "fates w2 = [] \<and> kfates w2 = [] \<and> broker w2 = broker w1 \<and>
      ZITEMS R (rdb w2) (ActiveKey m) = [] \<and> ZITEMS R (rdb w2) (WaitingKey m) = [] \<and>
      ZITEMS R (rdb w2) (PendingKey m) = [(revoke ReasonLeave q, t1)]"
    using leave_handler_calm [OF _ assms(3) ids w2] 1
    by (simp add: zput_def zdel_def members_Cons)
  have 3: "fates w3 = [] \<and> kfates w3 = [] \<and> broker w3 = broker w2 @ [announcement m q] \<and>
      ZITEMS R (rdb w3) (ActiveKey m) = [(q, t2)] \<and>
      ZITEMS R (rdb w3) (PendingKey m) = [(revoke ReasonLeave q, t1)]"
    using enter_handler_calm [OF _ _ assms(3) ids w3] 2 assms(9)
    by (simp add: seats_def queues_def zcard_items zput_def zdel_def)
  let ?e = "\<lparr>pKind = KindRevoke, pReason = ReasonLeave, pRequestID = q, pMember = revoke ReasonLeave q\<rparr>"
  have parse: "ParsePendingMember (revoke ReasonLeave q) = Some ?e"
    using ids(2) by (intro parse_members) (auto simp: idPattern_def ReasonLeave_def)
  have raw: "[revoke ReasonLeave q] = map fst (take (nat batch) (filter (\<lambda>x. snd x \<le> cutoff)
      (ZITEMS R (rdb w3) (PendingKey m))))"
    using 3 assms(10,11) by (simp add: take_Cons')
  have "list_all publishable [revoke ReasonLeave q]" by (simp add: publishable_def parse)
  from sweep_calm [OF _ _ assms(11) raw this w4] 1 2 3 parse show ?thesis
    by (simp add: parsed_def is_admit_def members_Cons KindAdmit_def KindRevoke_def)
qed

end

text \<open>C18. The enter request, undisturbed: 200 \<open>ALREADY_ACTIVE\<close> for a visitor who is seated; 200
  \<open>ADMITTED\<close> for a newcomer while a seat is free, who is then seated, whose admission is in the
  broker and no longer in the journal; else 202 \<open>WAITING\<close> with the position in the line and its
  length, and nothing published.\<close>

theorem enter_request_outcome:
  assumes "redis_service R" and "fates w = []" and "kfates w = []" and "bind_ids b = Some (m, q)"
    and "idPattern m" and "idPattern q"
    and "(resp, w') = enter_handler R a (Some PublishAdmission) b w"
  shows "let A = acts R (rdb w) m; W = waits R (rdb w) m; P = pends R (rdb w) m;
             sits = q \<notin> A \<and> q \<notin> W \<and> int (card A) < maxSessions a
    in resp = enter_reply_to R w m q (maxSessions a) \<and>
       acts R (rdb w') m = (if sits then insert q A else A) \<and>
       waits R (rdb w') m = (if q \<in> A \<or> sits then W else insert q W) \<and>
       pends R (rdb w') m = (if sits then P - {admit_enter q} else P) \<and>
       broker w' = broker w @ (if sits then [announcement m q] else [])"
  using assms by (rule redis_service.enter_request_spec)

definition request_of :: "string \<Rightarrow> string \<Rightarrow> body" where
  "request_of m q = Some (\<lambda>name. if name = ''movieId'' then Some m
     else if name = ''requestId'' then Some q else None)"

lemma bind_request: "m \<noteq> [] \<Longrightarrow> q \<noteq> [] \<Longrightarrow> bind_ids (request_of m q) = Some (m, q)"
  by (simp add: request_of_def bind_ids_def required_def)

definition two_seats :: Admission where
  "two_seats = NewAdmission 2 60000000000 True []"

lemma two_seats_cap [simp]: "maxSessions two_seats = 2"
  by (simp add: two_seats_def NewAdmission_def)

lemma demo_ids: "idPattern ''7''" "idPattern ''ann''" "idPattern ''dan''"
  by (simp_all add: idPattern_def id_char_def)

lemma enter_request_outcome_witness:
  "acts ref_redis (rdb (snd (enter_handler ref_redis two_seats (Some PublishAdmission)
     (request_of ''7'' ''dan'') (calm demo_db)))) ''7'' = {''ann'', ''dan''} \<and>
   broker (snd (enter_handler ref_redis two_seats (Some PublishAdmission)
     (request_of ''7'' ''dan'') (calm demo_db))) = [announcement ''7'' ''dan'']"
proof -
  obtain resp w' where e: "enter_handler ref_redis two_seats (Some PublishAdmission)
     (request_of ''7'' ''dan'') (calm demo_db) = (resp, w')" by fastforce
  show ?thesis
    using enter_request_outcome [OF ref_laws _ _ bind_request [of "''7''" "''dan''"] demo_ids(1,3) e [symmetric]]
    by (simp add: e demo_sets Let_def members_Cons insert_commute)
qed

text \<open>C25. A visitor who leaves and comes back before the sweep has run is seated again, and the last
  word the booking service gets about them is a revocation: entering does not take the
  visitor's pending revocation off the journal, and the next sweep publishes it after the new
  admission.\<close>

theorem revocation_overtakes_readmission:
  assumes "redis_service R" and "fates w = []" and "kfates w = []" and "bind_ids b = Some (m, q)"
    and "idPattern m" and "idPattern q"
    and "acts R (rdb w) m = {}" and "waits R (rdb w) m = {}" and "pends R (rdb w) m = {}"
    and "1 \<le> maxSessions a" and "t1 \<le> cutoff" and "0 < batch"
    and "w1 = snd (enter_handler R a (Some PublishAdmission) b w)"
    and "w2 = snd (leave_handler R b (w1\<lparr>clock := t1\<rparr>))"
    and "w3 = snd (enter_handler R a (Some PublishAdmission) b (w2\<lparr>clock := t2\<rparr>))"
    and "w4 = sweepMovie R PublishEvents batch cutoff m w3"
  shows "acts R (rdb w4) m = {q} \<and> pends R (rdb w4) m = {} \<and>
    broker w4 = broker w @ [announcement m q, announcement m q,
      event_message TopicRevoked (revocation q m ReasonLeave)]"
  using assms by (rule redis_service.back_again_spec)

text \<open>The run on the reference database: enter at second 0, leave at 1, enter again at 2, sweep
  with the cutoff at 2.\<close>

definition back_again :: "ref_db world" where
  "back_again =
     (let enter = (\<lambda>w. snd (enter_handler ref_redis two_seats (Some PublishAdmission)
            (request_of ''7'' ''ann'') w));
          w2 = snd (leave_handler ref_redis (request_of ''7'' ''ann'')
            ((enter (calm ref_empty))\<lparr>clock := 1000\<rparr>))
      in sweepMovie ref_redis PublishEvents 500 2000 ''7'' (enter (w2\<lparr>clock := 2000\<rparr>)))"

lemma revocation_overtakes_readmission_witness:
  "acts ref_redis (rdb back_again) ''7'' = {''ann''} \<and>
   broker back_again = [announcement ''7'' ''ann'', announcement ''7'' ''ann'',
     event_message TopicRevoked (revocation ''ann'' ''7'' ReasonLeave)]"
  using revocation_overtakes_readmission [OF ref_laws _ _ bind_request demo_ids(1,2) _ _ _ _ _ _
      refl refl refl refl, of "calm ref_empty" two_seats 1000 2000 500 2000]
    redis_service.fresh_sets [OF ref_laws fresh_ref_empty, of "''7''"]
  by (simp add: back_again_def Let_def)

subsection \<open>A message that is delivered twice\<close>

context redis_service
begin

lemma consume_calm_fields:
  assumes "fates w = []" and "kfates w = []"
  shows "fates (snd (consume_message R i d (c, w))) = [] \<and> kfates (snd (consume_message R i d (c, w))) = [] \<and>
    broker (snd (consume_message R i d (c, w))) = broker w"
proof -
  have e: "fates (snd (AppendEvents R m ty rids now v)) = []" "broker (snd (AppendEvents R m ty rids now v)) = broker v"
    if "fates v = []" for m ty rids now and v :: "'db world"
    using append_calm(1) [OF that] by (simp_all add: AppendEvents_def split_beta split: sum.splits option.splits)
  have l: "broker (ObserveCompletedLag n v) = broker v" "kfates (ObserveCompletedLag n v) = kfates v"
    "broker (snd (commit i cv)) = broker (snd cv)" "kfates (snd (commit i cv)) = tl (kfates (snd cv))"
    for n and v :: "'db world" and cv
    by (simp_all add: ObserveCompletedLag_def Let_def commit_def split: prod.splits kfate.splits)
  show ?thesis
    using assms
    by (simp add: consume_message_def CompleteActive_def calm_call complete_members split_beta Let_def e l
        split: option.splits)
qed

lemma duplicate_spec:
  assumes calm: "fates w = []" "kfates w = []" and d: "dEvent d = Some e"
    and b: "bind_ids b = Some (eMovieID e, eRequestID e)" and ids: "idPattern (eMovieID e)" "idPattern (eRequestID e)"
    and seated: "eRequestID e \<in> acts R (rdb w) (eMovieID e)" "eRequestID e \<notin> waits R (rdb w) (eMovieID e)"
    and cap: "int (card (acts R (rdb w) (eMovieID e))) \<le> maxSessions a"
    and w1: "w1 = snd (consume_message R i d (c, w))"
    and w2: "w2 = snd (enter_handler R a (Some PublishAdmission) b (w1\<lparr>clock := t\<rparr>))"
    and w3: "w3 = snd (consume_message R i d (c', w2))"
  shows "eRequestID e \<in> acts R (rdb w2) (eMovieID e) \<and>
    broker w2 = broker w @ [announcement (eMovieID e) (eRequestID e)] \<and>
    acts R (rdb w3) (eMovieID e) = acts R (rdb w2) (eMovieID e) - {eRequestID e} \<and>
    pends R (rdb w3) (eMovieID e) \<subseteq> pends R (rdb w2) (eMovieID e) \<and> broker w3 = broker w2"
proof -
  let ?m = "eMovieID e" and ?q = "eRequestID e"
  have 1: "fates w1 = []" "kfates w1 = []" "broker w1 = broker w" "acts R (rdb w1) ?m = acts R (rdb w) ?m - {?q}"
    "waits R (rdb w1) ?m = waits R (rdb w) ?m"
    using consume_calm_fields [OF calm, of i d c] consume_spec [OF d, of w i c] calm
    by (simp_all add: w1 split_beta)
  have "card (acts R (rdb w) ?m - {?q}) < card (acts R (rdb w) ?m)"
    using seated(1) by (intro psubset_card_mono) (auto simp: members_def)
  then have s: "seats R (rdb w1) ?m (maxSessions a) ?q"
    using 1 seated(2) cap by (simp add: seats_def zcard_card)
  have 2: "fates w2 = []" "kfates w2 = []" "?q \<in> acts R (rdb w2) ?m"
    "broker w2 = broker w @ [announcement ?m ?q]"
    using enter_handler_calm [OF _ _ b ids w2] 1 s by simp_all
  have 3: "broker w3 = broker w2" "acts R (rdb w3) ?m = acts R (rdb w2) ?m - {?q}"
    "pends R (rdb w3) ?m \<subseteq> pends R (rdb w2) ?m"
    using consume_calm_fields [OF 2(1,2), of i d c'] consume_spec [OF d, of w2 i c'] 2(1,2)
    by (auto simp: w3 split_beta)
  from 2 3 show ?thesis by blast
qed

end

text \<open>C26. A finished booking that is delivered twice is not harmless: if the visitor comes back
  between the two deliveries, the second takes the new seat away, journals and publishes no
  revocation, and so leaves the booking service with an admission for which there is no seat.\<close>

theorem second_delivery_takes_a_new_seat:
  assumes "redis_service R" and "fates w = []" and "kfates w = []" and "dEvent d = Some e"
    and "bind_ids b = Some (eMovieID e, eRequestID e)" and "idPattern (eMovieID e)" and "idPattern (eRequestID e)"
    and "eRequestID e \<in> acts R (rdb w) (eMovieID e)" and "eRequestID e \<notin> waits R (rdb w) (eMovieID e)"
    and "int (card (acts R (rdb w) (eMovieID e))) \<le> maxSessions a"
    and "w1 = snd (consume_message R i d (c, w))"
    and "w2 = snd (enter_handler R a (Some PublishAdmission) b (w1\<lparr>clock := t\<rparr>))"
    and "w3 = snd (consume_message R i d (c', w2))"
  shows "eRequestID e \<in> acts R (rdb w2) (eMovieID e) \<and>
    broker w2 = broker w @ [announcement (eMovieID e) (eRequestID e)] \<and>
    acts R (rdb w3) (eMovieID e) = acts R (rdb w2) (eMovieID e) - {eRequestID e} \<and>
    pends R (rdb w3) (eMovieID e) \<subseteq> pends R (rdb w2) (eMovieID e) \<and> broker w3 = broker w2"
  using assms by (rule redis_service.duplicate_spec)

text \<open>The message in which \<open>ann\<close> finishes movie 7, delivered again after she has come back.\<close>

definition ann_done :: delivery where
  "ann_done = \<lparr>dEvent = Some (admission ''ann'' ''7''), dTime = 0\<rparr>"

lemma second_delivery_takes_a_new_seat_witness:
  "\<exists>w2 w3 :: ref_db world. ''ann'' \<in> acts ref_redis (rdb w2) ''7'' \<and> ''ann'' \<notin> acts ref_redis (rdb w3) ''7'' \<and>
     w3 = snd (consume_message ref_redis 4 ann_done (5, w2)) \<and> broker w3 = [announcement ''7'' ''ann'']"
proof -
  have e: "dEvent ann_done = Some (admission ''ann'' ''7'')" "eMovieID (admission ''ann'' ''7'') = ''7''"
    "eRequestID (admission ''ann'' ''7'') = ''ann''"
    by (simp_all add: ann_done_def admission_def)
  define w1 where "w1 = snd (consume_message ref_redis 4 ann_done (0, calm demo_db))"
  define w2 where "w2 = snd (enter_handler ref_redis two_seats (Some PublishAdmission)
    (request_of ''7'' ''ann'') (w1\<lparr>clock := 100\<rparr>))"
  define w3 where "w3 = snd (consume_message ref_redis 4 ann_done (5, w2))"
  note run = second_delivery_takes_a_new_seat [OF ref_laws _ _ e(1) _ _ _ _ _ _ w1_def w2_def w3_def,
      unfolded e(2,3)]
  have "''ann'' \<in> acts ref_redis (rdb w2) ''7'' \<and> broker w2 = broker (calm demo_db) @ [announcement ''7'' ''ann''] \<and>
    acts ref_redis (rdb w3) ''7'' = acts ref_redis (rdb w2) ''7'' - {''ann''} \<and>
    pends ref_redis (rdb w3) ''7'' \<subseteq> pends ref_redis (rdb w2) ''7'' \<and> broker w3 = broker w2"
    by (rule run) (simp_all add: bind_request demo_ids demo_sets members_Cons)
  then show ?thesis using w3_def by (intro exI [of _ w2] exI [of _ w3]) simp
qed

subsection \<open>Refusals\<close>

lemma idPattern_safe:
  assumes "idPattern s"
  shows "s \<noteq> [] \<and> set s \<inter> set ''|{}: '' = {}"
  using assms by (auto simp: idPattern_def list_all_iff id_char_def)

lemma no_ids_refused:
  assumes "\<nexists>m q. bind_ids b = Some (m, q) \<and> idPattern m \<and> idPattern q"
  shows "bind_ids b = None \<or> (\<exists>m q. bind_ids b = Some (m, q) \<and> rejectInvalidIDs [m, q])"
  using assms by (cases "bind_ids b") (auto simp: rejectInvalidIDs_def)

text \<open>Only identifiers of the allowed form get past the handlers: every other request is
  answered 400 and leaves the whole world as it was, and an identifier of that form holds none
  of the characters that key names and journal members are put together with.\<close>

lemma malformed_requests_touch_nothing:
  "((\<nexists>m q. bind_ids b = Some (m, q) \<and> idPattern m \<and> idPattern q) \<longrightarrow>
     (\<forall>(resp, w') \<in> {enter_handler R a pub b w, leave_handler R b w, complete_handler R b w}.
        rsStatus resp = 400 \<and> w' = w)) \<and>
   (\<not> (idPattern m \<and> idPattern q) \<longrightarrow>
     (case position_handler R a m q c w of (resp, c', w') \<Rightarrow> rsStatus resp = 400 \<and> (c', w') = (c, w))) \<and>
   (\<not> idPattern m \<longrightarrow>
     (case stats_handler R a m c w of (resp, c', w') \<Rightarrow> rsStatus resp = 400 \<and> (c', w') = (c, w)) \<and>
     (case events_handler R m x w of (resp, w') \<Rightarrow> rsStatus resp = 400 \<and> w' = w)) \<and>
   (idPattern q \<longrightarrow> q \<noteq> [] \<and> set q \<inter> set ''|{}: '' = {})"
proof (intro conjI impI)
  assume "\<nexists>m q. bind_ids b = Some (m, q) \<and> idPattern m \<and> idPattern q"
  from no_ids_refused [OF this]
  show "\<forall>(resp, w') \<in> {enter_handler R a pub b w, leave_handler R b w, complete_handler R b w}.
      rsStatus resp = 400 \<and> w' = w"
    by (auto simp: enter_handler_def leave_handler_def complete_handler_def bad_request_def
        bad_format_def status_defs)
qed (auto simp: position_handler_def stats_handler_def events_handler_def rejectInvalidIDs_def
    bad_request_def missing_movie_def bad_format_def status_defs dest!: idPattern_safe)

lemma malformed_requests_touch_nothing_witness:
  "rsStatus (fst (leave_handler ref_redis (request_of ''7'' ''a|b'') (calm demo_db))) = 400 \<and>
   rsStatus (fst (events_handler ref_redis ''{7}'' [] (calm demo_db))) = 400"
proof -
  have "bind_ids (request_of ''7'' ''a|b'') = Some (''7'', ''a|b'')" by (simp add: bind_request)
  moreover have "\<not> idPattern ''a|b''" "\<not> idPattern ''{7}''" by (simp_all add: idPattern_def id_char_def)
  ultimately show ?thesis
    using malformed_requests_touch_nothing [of "request_of ''7'' ''a|b''" ref_redis two_seats None
        "calm demo_db" "''{7}''" "''a|b''" "\<lambda>_. None" "[]"]
    by (auto split: prod.splits)
qed

text \<open>The reset exists only where a token is configured, and without that token in the header
  it is answered 403 and does nothing.\<close>

lemma reset_needs_the_token:
  "((''POST'', ''/api/admission/reset'') \<in> set (routes a) \<longleftrightarrow> adminToken a \<noteq> []) \<and>
   (adminToken a = [] \<or> header \<noteq> adminToken a \<longrightarrow>
      rsStatus (fst (reset_handler R a header b w)) = 403 \<and> snd (reset_handler R a header b w) = w)"
  by (auto simp: routes_def reset_handler_def requireAdmin_def status_defs)

lemma reset_needs_the_token_witness:
  "rsStatus (fst (reset_handler ref_redis two_seats [] (request_of ''7'' []) (calm demo_db))) = 403"
  using reset_needs_the_token [of two_seats "[]" ref_redis "request_of ''7'' []" "calm demo_db"]
  by (simp add: two_seats_def NewAdmission_def)

subsection \<open>Redis out of reach\<close>

text \<open>The response of a handler that also hands back the rate cache, with the world.\<close>

definition snd_snd :: "'a \<times> 'b \<times> 'c \<Rightarrow> 'a \<times> 'c" where
  "snd_snd x = (fst x, snd (snd x))"

lemma call_unanswered:
  assumes "fates w = Fate lost gs False # fs"
  shows "redis_call cmd w = (Inl RedisDown, w\<lparr>fates := fs, rdb := replay lost cmd (rdb w)\<rparr>)"
  by (simp add: redis_call_def next_fate_def assms)

lemma reads_unanswered:
  assumes "fates w = Fate lost gs False # fs"
  shows "\<exists>db. redis_reads rs w = (Inl RedisDown, w\<lparr>fates := fs, rdb := db\<rparr>) \<and> (lost = [] \<longrightarrow> db = rdb w)"
  by (auto simp: redis_reads_def redis_pipe_def next_fate_def assms Let_def)

lemma stats_unanswered:
  assumes "fates w = Fate lost gs False # fs" and "\<not> rejectInvalidIDs [m]"
  shows "rsStatus (fst (stats_handler R a m c w)) = 503 \<and>
    broker (snd (snd (stats_handler R a m c w))) = broker w \<and>
    (lost = [] \<longrightarrow> rdb (snd (snd (stats_handler R a m c w))) = rdb w)"
  using reads_unanswered [OF assms(1), of "[\<lambda>db. ZCARD R db (ActiveKey m), \<lambda>db. ZCARD R db (WaitingKey m),
      promoted_of R m]"] assms(2)
  by (auto simp: stats_handler_def Stats_def rejectInvalidIDs_def idPattern_def unavailable_def status_defs)

lemma pipe_unanswered:
  assumes "fates w = Fate lost gs False # fs"
  shows "\<exists>db. redis_pipe cs w = (Inl RedisDown, w\<lparr>fates := fs, rdb := db\<rparr>) \<and> (lost = [] \<longrightarrow> db = rdb w)"
  by (auto simp: redis_pipe_def next_fate_def assms Let_def)

lemma bind_ids_movie: "bind_ids b = Some (m, q) \<Longrightarrow> bind_movie b = Some m"
  by (auto simp: bind_ids_def bind_movie_def split: option.splits)

lemma reset_unanswered:
  assumes "fates w = Fate lost gs False # fs" and "bind_movie b = Some m" and "idPattern m"
    and "requireAdmin a header"
  shows "rsStatus (fst (reset_handler R a header b w)) = 503 \<and>
    broker (snd (reset_handler R a header b w)) = broker w \<and>
    (lost = [] \<longrightarrow> rdb (snd (reset_handler R a header b w)) = rdb w)"
proof -
  have "fates (snd (now_ms w)) = Fate lost gs False # fs" using assms(1) by simp
  from pipe_unanswered [OF this, of "reset_pipe R m (unix_sec (clock w))"] assms(2-)
  show ?thesis
    by (auto simp: reset_handler_def Reset_def rejectInvalidIDs_def unavailable_def status_defs split_beta)
qed

text \<open>C30. When Redis does not answer, every handler that asks it says so with a 503 and publishes
  nothing, the authorised reset and the readiness probe included; if its command did not run
  either, the database is as it was.\<close>

theorem no_answer_means_503:
  assumes "fates w = Fate lost gs False # fs" and "bind_ids b = Some (m, q)"
    and "idPattern m" and "idPattern q" and "requireAdmin a header"
  shows "\<forall>(resp, w') \<in> {enter_handler R a pub b w, leave_handler R b w, complete_handler R b w,
      snd_snd (position_handler R a m q c w), snd_snd (stats_handler R a m c w),
      events_handler R m x w, reset_handler R a header b w, ready stopping w}.
    rsStatus resp = 503 \<and> broker w' = broker w \<and> (lost = [] \<longrightarrow> rdb w' = rdb w)"
proof -
  have f: "fates (snd (now_ms w)) = Fate lost gs False # fs" using assms(1) by simp
  have ids: "\<not> rejectInvalidIDs [m, q]" "\<not> rejectInvalidIDs [m]" "m \<noteq> []" "q \<noteq> []"
    using assms(3,4) by (auto simp: rejectInvalidIDs_def idPattern_def)
  show ?thesis
    using stats_unanswered [OF assms(1) ids(2)]
      reset_unanswered [OF assms(1) bind_ids_movie [OF assms(2)] assms(3,5)]
    by (simp add: enter_handler_def leave_handler_def complete_handler_def position_handler_def
        events_handler_def ready_def Ping_def assms(2) ids Enter_def Leave_def ReleaseActive_def
        Position_def ReadEvents_def redis_script_def redis_read_def call_unanswered [OF f]
        call_unanswered [OF assms(1)] split_beta reply_int64_def unavailable_def status_defs
        snd_snd_def)
qed

lemma no_answer_means_503_witness:
  "rsStatus (fst (enter_handler ref_redis (two_seats\<lparr>adminToken := ''key''\<rparr>) None
     (request_of ''7'' ''dan'') ((calm demo_db)\<lparr>fates := [Fate [] [] False]\<rparr>))) = 503 \<and>
   rsStatus (fst (reset_handler ref_redis (two_seats\<lparr>adminToken := ''key''\<rparr>) ''key''
     (request_of ''7'' ''dan'') ((calm demo_db)\<lparr>fates := [Fate [] [] False]\<rparr>))) = 503"
  using no_answer_means_503 [OF _ bind_request [of "''7''" "''dan''"] demo_ids(1,3),
      of "(calm demo_db)\<lparr>fates := [Fate [] [] False]\<rparr>" "[]" "[]" "[]"
        "two_seats\<lparr>adminToken := ''key''\<rparr>" "''key''" ref_redis None "\<lambda>_. None" "[]"]
  by (simp add: split_beta requireAdmin_def)

context redis_service
begin

lemma retry_spec:
  assumes "fates w = [Fate [([], 1)] [] False]" and "kfates w = []" and b: "bind_ids b = Some (m, q)"
    and ids: "idPattern m" "idPattern q"
    and sits: "q \<notin> acts R (rdb w) m" "q \<notin> waits R (rdb w) m" "int (card (acts R (rdb w) m)) < maxSessions a"
    and 1: "(resp1, w1) = enter_handler R a (Some PublishAdmission) b w"
    and 2: "(resp2, w2) = enter_handler R a (Some PublishAdmission) b w1"
  shows "rsStatus resp1 = 503 \<and> resp2 = JSON 200 (enterResponse ''ALREADY_ACTIVE'' q 0 0) \<and>
    acts R (rdb w2) m = insert q (acts R (rdb w) m) \<and> admit_enter q \<in> pends R (rdb w2) m \<and>
    broker w2 = broker w"
proof -
  let ?db = "snd (enter_cmd R m q (maxSessions a) (clock w) (rdb w))"
  have f: "fates (snd (now_ms w)) = Fate [([], 1)] [] False # []" using assms(1) by simp
  have ok: "\<not> rejectInvalidIDs [m, q]" using ids by (simp add: rejectInvalidIDs_def)
  have "enter_handler R a (Some PublishAdmission) b w =
      (unavailable RedisDown, (snd (now_ms w))\<lparr>fates := [], rdb := ?db\<rparr>)"
    by (simp add: enter_handler_def b ok Enter_def redis_script_def call_unanswered [OF f] split_beta
        gap_def)
  then have w1: "resp1 = unavailable RedisDown" "fates w1 = []" "kfates w1 = []" "rdb w1 = ?db"
    "broker w1 = broker w" using 1 assms(2) by auto
  have s: "seats R (rdb w) m (maxSessions a) q" using sits by (simp add: seats_def zcard_card)
  have "q \<in> acts R (rdb w1) m" "acts R (rdb w1) m = insert q (acts R (rdb w) m)"
    "admit_enter q \<in> pends R (rdb w1) m" using s by (simp_all add: w1 enter_items)
  with enter_handler_calm [OF w1(2,3) b ids refl, of a] 2 [symmetric] w1 show ?thesis
    by (simp add: enter_reply_to_def seats_def queues_def unavailable_def status_defs)
qed

end

text \<open>A visitor whose reply was lost although the script ran may simply ask again: the second
  answer is 200, they are seated once, and the admission, which neither request published, is
  in the journal for the sweep.\<close>

lemma retry_after_a_lost_reply:
  assumes "redis_service R" and "fates w = [Fate [([], 1)] [] False]" and "kfates w = []"
    and "bind_ids b = Some (m, q)" and "idPattern m" and "idPattern q"
    and "q \<notin> acts R (rdb w) m" and "q \<notin> waits R (rdb w) m"
    and "int (card (acts R (rdb w) m)) < maxSessions a"
    and "(resp1, w1) = enter_handler R a (Some PublishAdmission) b w"
    and "(resp2, w2) = enter_handler R a (Some PublishAdmission) b w1"
  shows "rsStatus resp1 = 503 \<and> resp2 = JSON 200 (enterResponse ''ALREADY_ACTIVE'' q 0 0) \<and>
    acts R (rdb w2) m = insert q (acts R (rdb w) m) \<and> admit_enter q \<in> pends R (rdb w2) m \<and>
    broker w2 = broker w"
  using assms by (rule redis_service.retry_spec)

lemma retry_after_a_lost_reply_witness:
  "\<exists>w2 :: ref_db world. acts ref_redis (rdb w2) ''7'' = {''dan'', ''ann''} \<and> admit_enter ''dan'' \<in> pends ref_redis (rdb w2) ''7''"
proof -
  let ?w = "(calm demo_db)\<lparr>fates := [Fate [([], 1)] [] False]\<rparr>"
  obtain r1 w1 where 1: "enter_handler ref_redis two_seats (Some PublishAdmission)
     (request_of ''7'' ''dan'') ?w = (r1, w1)" by fastforce
  obtain r2 w2 where 2: "enter_handler ref_redis two_seats (Some PublishAdmission)
     (request_of ''7'' ''dan'') w1 = (r2, w2)" by fastforce
  note sets = demo_sets(1,2,5) members_Cons members_Nil
  have "rsStatus r1 = 503 \<and> r2 = JSON 200 (enterResponse ''ALREADY_ACTIVE'' ''dan'' 0 0) \<and>
    acts ref_redis (rdb w2) ''7'' = insert ''dan'' (acts ref_redis (rdb ?w) ''7'') \<and>
    admit_enter ''dan'' \<in> pends ref_redis (rdb w2) ''7'' \<and> broker w2 = broker ?w"
    by (rule retry_after_a_lost_reply [OF ref_laws _ _ bind_request [of "''7''" "''dan''"] demo_ids(1,3)
          _ _ _ 1 [symmetric] 2 [symmetric]]) (simp_all add: sets)
  then show ?thesis by (intro exI [of _ w2]) (simp add: sets)
qed

end
