(* ===== verification/Visitors.thy ===== *)
theory Visitors
  imports System HandlerClaims
begin

section \<open>What the request of one visitor can change\<close>

text \<open>
  The handlers take the identifiers from the request and pass them through the operations into
  the keys and arguments of the scripts. \<open>others_untouched\<close> compares two databases with one
  visitor of one movie left out, and the requests of that visitor do not change what it compares,
  whether their calls get an answer, run several times or fail halfway.
\<close>

definition entries_of :: "string \<Rightarrow> string set" where
  "entries_of q = {admit_enter q, admit_promote q, revoke ReasonLeave q, revoke ReasonComplete q}"

definition others_untouched :: "'db redis \<Rightarrow> string \<Rightarrow> string \<Rightarrow> 'db \<Rightarrow> 'db \<Rightarrow> bool" where
  "others_untouched R m q db' db \<longleftrightarrow>
     (\<forall>m'. m' \<noteq> m \<longrightarrow>
        ZITEMS R db' (ActiveKey m') = ZITEMS R db (ActiveKey m') \<and>
        ZITEMS R db' (WaitingKey m') = ZITEMS R db (WaitingKey m') \<and>
        ZITEMS R db' (WaitingLastseenKey m') = ZITEMS R db (WaitingLastseenKey m') \<and>
        ZITEMS R db' (PendingKey m') = ZITEMS R db (PendingKey m')) \<and>
     zdel [q] (ZITEMS R db' (ActiveKey m)) = zdel [q] (ZITEMS R db (ActiveKey m)) \<and>
     zdel [q] (ZITEMS R db' (WaitingKey m)) = zdel [q] (ZITEMS R db (WaitingKey m)) \<and>
     zdel [q] (ZITEMS R db' (WaitingLastseenKey m)) = zdel [q] (ZITEMS R db (WaitingLastseenKey m)) \<and>
     filter (\<lambda>x. fst x \<notin> entries_of q) (ZITEMS R db' (PendingKey m)) =
       filter (\<lambda>x. fst x \<notin> entries_of q) (ZITEMS R db (PendingKey m))"

lemma others_untouched_refl: "others_untouched R m q db db"
  by (simp add: others_untouched_def)

lemma others_untouched_trans:
  "others_untouched R m q db1 db2 \<Longrightarrow> others_untouched R m q db2 db3 \<Longrightarrow> others_untouched R m q db1 db3"
  by (simp add: others_untouched_def)

lemma filter_zput: "\<not> P x \<Longrightarrow> (\<And>y. fst y = fst x \<Longrightarrow> \<not> P y) \<Longrightarrow> filter P (zput x xs) = filter P xs"
proof -
  assume x: "\<not> P x" "\<And>y. fst y = fst x \<Longrightarrow> \<not> P y"
  let ?ys = "filter (\<lambda>y. fst y \<noteq> fst x) xs" and ?p = "\<lambda>y. item_less y x"
  have "filter P (zput x xs) = filter P (takeWhile ?p ?ys) @ filter P (dropWhile ?p ?ys)"
    using x(1) by (simp add: zput_def Let_def)
  also have "\<dots> = filter P ?ys" by (simp only: filter_append [symmetric] takeWhile_dropWhile_id)
  also have "\<dots> = filter P xs" using x(2) by (auto intro: filter_cong)
  finally show ?thesis .
qed

lemma own_zput [simp]: "zdel [q] (zput (q, s) xs) = zdel [q] xs"
  unfolding zdel_def by (rule filter_zput) simp_all

lemma own_zdel [simp]: "zdel [q] (zdel [q] xs) = zdel [q] xs" "zdel [q, q] xs = zdel [q] xs"
  by (simp_all add: zdel_def)

lemma entries_zput [simp]:
  "e \<in> entries_of q \<Longrightarrow> filter (\<lambda>x. fst x \<notin> entries_of q) (zput (e, s) xs) = filter (\<lambda>x. fst x \<notin> entries_of q) xs"
  by (rule filter_zput) auto

lemma entries_zdel [simp]:
  "set ms \<subseteq> entries_of q \<Longrightarrow> filter (\<lambda>x. fst x \<notin> entries_of q) (zdel ms xs) = filter (\<lambda>x. fst x \<notin> entries_of q) xs"
  by (auto simp: zdel_def intro: filter_cong)

lemma entries_of_simps [simp]:
  "admit_enter q \<in> entries_of q" "admit_promote q \<in> entries_of q"
  "revoke ReasonLeave q \<in> entries_of q" "revoke ReasonComplete q \<in> entries_of q"
  by (simp_all add: entries_of_def)

context redis_service
begin

lemma others_same_visitor:
  "cmd_movie c = Some m \<Longrightarrow> \<forall>m'. m' \<noteq> m \<longrightarrow>
     ZITEMS R (exec R cap c db) (ActiveKey m') = ZITEMS R db (ActiveKey m') \<and>
     ZITEMS R (exec R cap c db) (WaitingKey m') = ZITEMS R db (WaitingKey m') \<and>
     ZITEMS R (exec R cap c db) (WaitingLastseenKey m') = ZITEMS R db (WaitingLastseenKey m') \<and>
     ZITEMS R (exec R cap c db) (PendingKey m') = ZITEMS R db (PendingKey m')"
  using movie_others_same [of c m cap db] unfolding others_same_def .

lemma visitor_script_untouched:
  assumes "c \<in> visitor_cmds m q"
  shows "others_untouched R m q (exec R cap c db) db"
proof -
  consider now where "c = CEnter m q now" | now where "c = CPosition m q now" | now where "c = CLeave m q now"
    | now where "c = CRelease m q ReasonComplete now" | "c = CClear m [admit_enter q]" | "c \<in> feed_cmds m"
    using assms by (auto simp: visitor_cmds_def visit_cmds_def)
  then show ?thesis
  proof cases
    case 1
    with others_same_visitor [of c] show ?thesis by (simp add: others_untouched_def enter_items)
  next
    case 6
    then have "queues_same (exec R cap c db) db" by (rule feed_queues_same)
    then show ?thesis by (simp add: others_untouched_def queues_sameD)
  qed (use others_same_visitor [of c] in \<open>simp add: others_untouched_def,
      simp add: key_simps position_db leave_cmd_def leaveScript_def release_cmd_def releaseScript_def
        Let_def split_beta\<close>)+
qed

lemma visitor_keeps: "keeps R cap (visitor_cmds m q) (\<lambda>db. others_untouched R m q db db0)"
  unfolding keeps_def by (intro ballI allI impI others_untouched_trans [OF visitor_script_untouched])

lemma untouched_good:
  assumes "\<forall>f\<in>set (fates w). gaps_of f = {}"
  shows "good (\<lambda>db. others_untouched R m q db (rdb w)) w"
proof -
  have "keeps_fate P f" if "f \<in> set (fates w)" for P :: "'db \<Rightarrow> bool" and f
    using assms that by (cases f) (fastforce simp: keeps_fate_def gaps_of_def)
  then show ?thesis by (simp add: good_def others_untouched_refl)
qed

lemma requests_untouched:
  assumes "\<forall>f\<in>set (fates w). gaps_of f = {}" and "bind_ids b = Some (m, q)"
  shows "\<forall>w'\<in>{snd (enter_handler R a (Some PublishAdmission) b w), snd (leave_handler R b w),
      snd (complete_handler R b w), snd (snd (position_handler R a m q c w))}.
    others_untouched R m q (rdb w') (rdb w)"
proof -
  note g = untouched_good [OF assms(1), of m q] and k = visitor_keeps [of _ m q "rdb w"]
  have C: "visitor_cmds m' q' \<subseteq> visitor_cmds m q" "visit_cmds m' q' \<subseteq> visitor_cmds m q"
    if "bind_ids b = Some (m', q')" for m' q'
    using that assms(2) by (auto simp: visitor_cmds_def)
  have V: "visit_cmds m q \<subseteq> visitor_cmds m q" by (auto simp: visitor_cmds_def)
  show ?thesis
    using goodD [OF one.enter_handler_good [OF k C(1) g]] goodD [OF leave_handler_good(1) [OF k C(2) g]]
      goodD [OF leave_handler_good(2) [OF k C(2) g]] goodD [OF position_handler_good [OF k V g]]
    by simp
qed

end

text \<open>C5. A visitor's requests touch nobody else: entering, asking for the position, leaving and finishing
  a booking leave every other movie's seats, line, polls and journal as they were, and in the
  visitor's own movie everybody else's seat, place in the line, poll and journal entry, even
  when calls fail, run without an answer or run more than once.\<close>

theorem requests_touch_only_their_visitor:
  assumes "redis_service R" and "bind_ids b = Some (m, q)" and "\<forall>f\<in>set (fates w). gaps_of f = {}"
  shows "\<forall>w'\<in>{snd (enter_handler R a (Some PublishAdmission) b w), snd (leave_handler R b w),
      snd (complete_handler R b w), snd (snd (position_handler R a m q c w))}.
    others_untouched R m q (rdb w') (rdb w)"
  using redis_service.requests_untouched [OF assms(1,3,2)] .

text \<open>\<open>ann\<close> leaves; the script runs twice, its replies are lost, and the last attempt fails too.\<close>

lemma requests_touch_only_their_visitor_witness:
  "\<exists>w' :: ref_db world.
     w' = snd (leave_handler ref_redis (request_of ''7'' ''ann'')
        ((calm demo_db)\<lparr>fates := [Fate [([], 1), ([], 1)] [] False]\<rparr>)) \<and>
     zdel [''ann''] (ZITEMS ref_redis (rdb w') (WaitingKey ''7'')) = [(''bob'', 20), (''cid'', 30)]"
  using requests_touch_only_their_visitor [OF ref_laws bind_request [of "''7''" "''ann''"],
      of "(calm demo_db)\<lparr>fates := [Fate [([], 1), ([], 1)] [] False]\<rparr>"]
  by (simp add: gaps_of_def others_untouched_def demo_sets zdel_def)

end
