(* ===== verification/PromotionClaims.thy ===== *)
theory PromotionClaims
  imports OutboxClaims
begin

section \<open>A promotion tick that nothing disturbs\<close>

text \<open>
  What one tick of the promotion loop does over all movies when no call fails: in every movie
  the loops visit, the head of the line is seated, told to the booking service and off the
  journal. The other movies of the tick do not get in the way.
\<close>

lemma promotion_fields:
  "fates (snd (ObservePromotion R m n sec w)) = (if n \<le> 0 then fates w else tl (fates w))"
  "kfates (snd (ObservePromotion R m n sec w)) = kfates w"
  "fates (snd (Promote R m cap batch now w)) = tl (fates w)"
  "kfates (snd (Promote R m cap batch now w)) = kfates w"
  by (simp_all add: ObservePromotion_def Promote_def split_beta split: sum.splits)

lemma Promoted_fields [simp]:
  "rdb (Promoted m n w) = rdb w" "fates (Promoted m n w) = fates w" "kfates (Promoted m n w) = kfates w"
  by (simp_all add: Promoted_def)

lemma append_fates: "fates w = [] \<Longrightarrow> fates (snd (AppendEvents R m ty rids now w)) = []"
  by (simp add: AppendEvents_def split_beta split: sum.splits option.splits)

lemma publish_prefix:
  "\<exists>xs. broker (snd (publish_admitted R (Some PublishEvents) m us w)) = broker w @ xs"
proof -
  let ?evs = "map (\<lambda>r. admission r m) us"
  obtain xs where "broker (snd (PublishEvents TopicAdmissions ?evs w)) = broker w @ xs"
    using producer.pub_failed by blast
  then show ?thesis by (auto simp: publish_admitted_def Let_def split_beta split: option.splits)
qed

lemma promote_member: "PendingMember KindAdmit ReasonPromote = admit_promote"
  by (simp add: fun_eq_iff members_printed)

lemma publish_calm:
  assumes "fates w = []" and "kfates w = []"
  shows "publish_admitted R (Some PublishEvents) m us w =
    (int (length us), snd (ClearPending R m (map admit_promote us)
       (snd (PublishEvents TopicAdmissions (map (\<lambda>r. admission r m) us) w))))"
  using calm_publish [OF assms(2)]
  by (simp add: publish_admitted_def split_beta promote_member split: option.splits)

lemma processMovie_calm_fates:
  assumes "fates w = []" and "kfates w = []"
  shows "fates (processMovie R (Some PublishEvents) cap batch m w) = []"
    and "kfates (processMovie R (Some PublishEvents) cap batch m w) = []"
    and "\<exists>xs. broker (processMovie R (Some PublishEvents) cap batch m w) = broker w @ xs"
proof -
  have pub: "fates (snd (publish_admitted R (Some PublishEvents) m us v)) = [] \<and>
      kfates (snd (publish_admitted R (Some PublishEvents) m us v)) = []"
    if "fates v = []" "kfates v = []" for us v
    using that calm_publish [OF that(2)] by (simp add: publish_calm ClearPending_def)
  show "fates (processMovie R (Some PublishEvents) cap batch m w) = []"
    and "kfates (processMovie R (Some PublishEvents) cap batch m w) = []"
    using assms pub
    by (simp_all add: processMovie_def split_beta Let_def WaitingCount_def promotion_fields append_fates
        split: sum.splits)
  have "\<exists>xs. broker (snd (publish_admitted R (Some PublishEvents) m us v)) = broker w @ xs"
    if "broker v = broker w" for us v
    using publish_prefix [of R m us v] that by simp
  then show "\<exists>xs. broker (processMovie R (Some PublishEvents) cap batch m w) = broker w @ xs"
    by (simp add: processMovie_def split_beta Let_def split: sum.splits)
qed

abbreviation queue_of :: "string \<Rightarrow> string set" where
  "queue_of m \<equiv> {ActiveKey m, WaitingKey m, WaitingLastseenKey m, PendingKey m, PromotedCountKey m}"

context redis_service
begin

subsection \<open>One movie\<close>

lemma rate_queues_same: "c \<in> rate_cmds m \<Longrightarrow> queues_same (exec R cap c db) db"
  by (auto simp: rate_cmds_def queues_same_def no_movie_keys expire_frame incrby_frame)

lemma observe_queues_same:
  assumes "fates w = []"
  shows "queues_same (rdb (snd (ObservePromotion R m n sec w))) (rdb w)"
proof -
  have "keeps R 0 (rate_cmds m) (\<lambda>db. queues_same db (rdb w))"
    unfolding keeps_def using rate_queues_same queues_same_trans by blast
  moreover have "good (\<lambda>db. queues_same db (rdb w)) w"
    using assms by (simp add: good_calm queues_same_def same_at_def)
  ultimately show ?thesis using ObservePromotion_good goodD by fastforce
qed

text \<open>What the work on one movie leaves of its queue.\<close>

lemma processMovie_calm:
  assumes calm: "fates w = []" "kfates w = []" and n: "counter_is R (rdb w) (PromotedCountKey m) n"
    and fits: "in64 (n + int (length us))" and us: "us = promote_users R (rdb w) m cap batch"
    and w': "w' = processMovie R (Some PublishEvents) cap batch m w"
  shows "acts R (rdb w') m = acts R (rdb w) m \<union> set us \<and>
    ZITEMS R (rdb w') (WaitingKey m) = drop (length us) (ZITEMS R (rdb w) (WaitingKey m)) \<and>
    pends R (rdb w') m = pends R (rdb w) m - admit_promote ` set us \<and>
    broker w' = broker w @ map (announcement m) us"
proof -
  let ?w0 = "snd (now_ms w)" and ?line = "ZITEMS R (rdb w) (WaitingKey m)"
  let ?w1 = "?w0\<lparr>rdb := snd (promote_cmd R m cap batch (clock w) (rdb w))\<rparr>"
  have count: "WaitingCount R m w = (Inr (int (length ?line)), w)"
    using calm by (simp add: WaitingCount_def calm_read zcard_items)
  have prom: "Promote R m cap batch (clock w) ?w0 = (Inr us, ?w1)"
    using promote_counter [OF n] fits calm by (simp add: Promote_def calm_script us)
  note moved = promote_members [of m cap batch "clock w" "rdb w", folded us]
    promote_line [of m cap batch "clock w" "rdb w", folded us]
  show ?thesis
  proof (cases "us = []")
    case True
    then have "w' = w \<or> w' = ?w1"
      by (simp add: w' processMovie_def count prom split_beta)
    then show ?thesis using True moved by auto
  next
    case False
    then have "?line \<noteq> []" by (auto simp: us promote_users_head)
    let ?w2 = "Promoted m (int (length us)) ?w1"
    let ?w3 = "snd (PublishEvents TopicAdmissions (map (\<lambda>r. admission r m) us) ?w2)"
    let ?w4 = "?w3\<lparr>rdb := snd (ZREM R (PendingKey m) (map admit_promote us) (rdb ?w1))\<rparr>"
    have calm2: "fates ?w2 = []" "kfates ?w2 = []" using calm by simp_all
    have w3: "fates ?w3 = []" "rdb ?w3 = rdb ?w1" "broker ?w3 = broker w @ map (announcement m) us"
      using calm_publish [OF calm2(2)] calm2 by (simp_all add: announcement_def comp_def)
    have pub: "publish_admitted R (Some PublishEvents) m us ?w2 = (int (length us), ?w4)"
      unfolding publish_calm [OF calm2] using False w3 by (simp add: ClearPending_def calm_write)
    let ?w5 = "snd (ObservePromotion R m (int (length us)) (unix_sec (clock ?w4)) (snd (now_ms ?w4)))"
    have w5: "queues_same (rdb ?w5) (rdb ?w4)" "fates ?w5 = []" "broker ?w5 = broker ?w4"
      using observe_queues_same [of "snd (now_ms ?w4)"] w3 by (simp_all add: promotion_fields)
    let ?w6 = "snd (AppendEvents R m ''PROMOTE'' us (clock ?w5) (snd (now_ms ?w5)))"
    have "queues_same (rdb ?w6) (rdb ?w5)" "broker ?w6 = broker ?w5"
      using append_queues_same [of "snd (now_ms ?w5)"] w5(2) by simp_all
    moreover have "w' = ?w6"
      using False \<open>?line \<noteq> []\<close> by (simp add: w' processMovie_def count prom pub split_beta Let_def)
    ultimately have "queues_same (rdb w') (rdb ?w4)" "broker w' = broker w @ map (announcement m) us"
      using w5 w3 queues_same_trans by auto
    then show ?thesis
      using moved by (auto simp: queues_sameD single_commands clear_items)
  qed
qed

subsection \<open>All movies of a tick\<close>

lemma loop_frame:
  assumes "c \<in> loop_cmds m'" and "m' \<noteq> m" and "k \<in> queue_of m"
  shows "same_at R (exec R cap c db) db k"
proof (cases "cmd_movie c")
  case None
  have k: "k \<in> queue_keys m" using assms(3) by (auto simp: queue_keys_def)
  from None assms(1) show ?thesis
    by (auto simp: loop_cmds_def timeout_cmds_def promote_cmds_def rate_cmds_def feed_cmds_def
        no_movie_keys [OF k] feed_store_frame zremrangebyrank_frame expire_frame incrby_frame setpx_frame)
next
  case (Some m2)
  then have "m2 = m'"
    using assms(1) by (auto simp: loop_cmds_def timeout_cmds_def promote_cmds_def rate_cmds_def feed_cmds_def)
  with Some assms(2,3) show ?thesis by (intro movie_frame [OF Some]) auto
qed

lemma processMovie_frame:
  assumes "fates w = []" and "m' \<noteq> m" and "k \<in> queue_of m"
  shows "same_at R (rdb (processMovie R (Some PublishEvents) cap batch m' w)) (rdb w) k"
proof -
  let ?P = "\<lambda>db. same_at R db (rdb w) k"
  have "keeps R cap (loop_cmds m') ?P"
    unfolding keeps_def using loop_frame [OF _ assms(2,3)] same_at_trans by blast
  moreover have "good ?P w" using assms(1) by (simp add: good_calm same_at_def)
  ultimately show ?thesis using producer.processMovie_good [of R cap "loop_cmds m'" ?P m'] goodD by fastforce
qed

lemma fold_frame:
  assumes "fates w = []" and "kfates w = []" and "m \<notin> set ms"
    and "w' = fold (processMovie R (Some PublishEvents) cap batch) ms w"
  shows "fates w' = [] \<and> kfates w' = [] \<and> (\<forall>k\<in>queue_of m. same_at R (rdb w') (rdb w) k) \<and>
    (\<exists>xs. broker w' = broker w @ xs)"
  using assms
proof (induction ms arbitrary: w)
  case Nil
  then show ?case by (simp add: same_at_def)
next
  case (Cons m' ms)
  let ?v = "processMovie R (Some PublishEvents) cap batch m' w"
  have v: "fates ?v = []" "kfates ?v = []" "\<exists>xs. broker ?v = broker w @ xs"
    using processMovie_calm_fates [OF Cons.prems(1,2)] by blast+
  have "same_at R (rdb ?v) (rdb w) k" if "k \<in> queue_of m" for k
    using processMovie_frame [OF Cons.prems(1) _ that, of m'] Cons.prems(3) by auto
  moreover have "fates w' = [] \<and> kfates w' = [] \<and> (\<forall>k\<in>queue_of m. same_at R (rdb w') (rdb ?v) k) \<and>
      (\<exists>xs. broker w' = broker ?v @ xs)"
    using Cons.IH [OF v(1,2)] Cons.prems(3,4) by simp
  moreover obtain xs where "broker ?v = broker w @ xs" using v(3) by blast
  ultimately show ?case by (auto intro: same_at_trans)
qed

lemma tick_spec:
  assumes calm: "fates w = []" "kfates w = []" and "\<not> EXISTS R (rdb w) PromotePauseKey"
    and "m \<in> tracked R (rdb w)" and n: "counter_is R (rdb w) (PromotedCountKey m) n"
    and "ws = ZITEMS R (rdb w) (WaitingKey m)"
    and us: "us = map fst (take (nat (min batch (cap - int (card (acts R (rdb w) m))))) ws)"
    and fits: "in64 (n + int (length us))"
    and w': "w' = queue_processAll R (Some PublishEvents) cap batch w"
  shows "acts R (rdb w') m = acts R (rdb w) m \<union> set us \<and>
    ZITEMS R (rdb w') (WaitingKey m) = drop (length us) ws \<and>
    pends R (rdb w') m = pends R (rdb w) m - admit_promote ` set us \<and>
    announcement m ` set us \<subseteq> set (drop (length (broker w)) (broker w'))"
proof -
  let ?f = "processMovie R (Some PublishEvents) cap batch"
  define ms where "ms = remdups (SMEMBERS R (rdb w) ActiveMoviesKey @ SMEMBERS R (rdb w) WaitingMoviesKey)"
  have "PromotePaused R w = (Inr False, w)" using assms(3) calm by (simp add: PromotePaused_def calm_read)
  moreover have "ActiveQueueMovies R w = (Inr ms, w)" using calm by (simp add: ActiveQueueMovies_def calm_read ms_def)
  ultimately have tick: "w' = fold ?f ms w" unfolding w' queue_processAll_def by simp
  have "distinct ms" "m \<in> set ms" using assms(4) by (simp_all add: ms_def)
  then obtain ps qs where ms: "ms = ps @ m # qs" by (meson split_list)
  with \<open>distinct ms\<close> have split: "ms = ps @ m # qs" "m \<notin> set ps" "m \<notin> set qs" by simp_all
  define v where "v = fold ?f ps w"
  define u where "u = ?f m v"
  have v: "fates v = []" "kfates v = []" "\<forall>k\<in>queue_of m. same_at R (rdb v) (rdb w) k"
    "\<exists>xs. broker v = broker w @ xs"
    using fold_frame [OF calm split(2) v_def] by blast+
  have "w' = fold ?f qs u" by (simp add: tick split v_def u_def)
  then have q: "\<forall>k\<in>queue_of m. same_at R (rdb w') (rdb u) k" "\<exists>xs. broker w' = broker u @ xs"
    using fold_frame [OF _ _ split(3)] processMovie_calm_fates [OF v(1,2)] unfolding u_def by blast+
  have same: "ZITEMS R (rdb v) k = ZITEMS R (rdb w) k" "ZITEMS R (rdb w') k = ZITEMS R (rdb u) k"
    if "k \<in> queue_of m" for k using v(3) q(1) that by (auto simp: same_at_def)
  have us': "us = promote_users R (rdb v) m cap batch"
    by (simp add: us assms(6) promote_users_head zcard_card same)
  have "counter_is R (rdb v) (PromotedCountKey m) n"
    using n v(3) by (auto simp: counter_is_def same_at_def)
  from processMovie_calm [OF v(1,2) this fits us' u_def] v(4) q(2) show ?thesis
    by (auto simp: same assms(6))
qed

end

text \<open>C14. Progress: a tick that nothing disturbs seats, in every movie the loops visit, the head of
  the line, as many as the batch and the free seats allow, whatever the other movies of the
  tick; all of them are announced to the booking service and off the journal, and the rest of
  the line moves up in its order.\<close>

theorem promotion_tick_seats_the_head:
  assumes "redis_service R" and "fates w = []" and "kfates w = []"
    and "\<not> EXISTS R (rdb w) PromotePauseKey" and "m \<in> tracked R (rdb w)"
    and "counter_is R (rdb w) (PromotedCountKey m) n" and "ws = ZITEMS R (rdb w) (WaitingKey m)"
    and "us = map fst (take (nat (min batch (cap - int (card (acts R (rdb w) m))))) ws)"
    and "in64 (n + int (length us))"
    and "w' = queue_processAll R (Some PublishEvents) cap batch w"
  shows "acts R (rdb w') m = acts R (rdb w) m \<union> set us \<and>
    ZITEMS R (rdb w') (WaitingKey m) = drop (length us) ws \<and>
    pends R (rdb w') m = pends R (rdb w) m - admit_promote ` set us \<and>
    announcement m ` set us \<subseteq> set (drop (length (broker w)) (broker w'))"
  using assms by (rule redis_service.tick_spec)

lemma promotion_tick_seats_the_head_witness:
  "acts ref_redis (rdb (queue_processAll ref_redis (Some PublishEvents) 2 100 (calm demo_db))) ''7''
     = {''ann'', ''bob''} \<and>
   announcement ''7'' ''bob'' \<in> set (broker (queue_processAll ref_redis (Some PublishEvents) 2 100 (calm demo_db)))"
proof -
  have c: "counter_is ref_redis demo_db (PromotedCountKey ''7'') 0"
    by (simp add: counter_is_def in64_def) code_simp
  have p: "\<not> EXISTS ref_redis demo_db PromotePauseKey" by code_simp
  have t: "''7'' \<in> tracked ref_redis demo_db" by code_simp
  let ?w' = "queue_processAll ref_redis (Some PublishEvents) 2 100 (calm demo_db)"
  have "acts ref_redis (rdb ?w') ''7'' = acts ref_redis (rdb (calm demo_db)) ''7'' \<union> set [''bob''] \<and>
    ZITEMS ref_redis (rdb ?w') (WaitingKey ''7'') = drop (length [''bob'']) [(''bob'', 20), (''cid'', 30)] \<and>
    pends ref_redis (rdb ?w') ''7'' = pends ref_redis (rdb (calm demo_db)) ''7'' - admit_promote ` set [''bob''] \<and>
    announcement ''7'' ` set [''bob''] \<subseteq> set (drop (length (broker (calm demo_db))) (broker ?w'))"
    by (rule promotion_tick_seats_the_head [OF ref_laws, where n = 0])
      (simp_all add: c p t demo_sets(1,4) in64_def)
  then show ?thesis by (simp add: demo_sets(1) insert_commute)
qed

end
