(* ===== verification/FeedClaims.thy ===== *)
theory FeedClaims
  imports PromotionClaims CleanupClaims
begin

section \<open>The event feed and its JSON\<close>

text \<open>
  Reading back what was written: the JSON of one event, and a feed of one movie.
\<close>

subsection \<open>One event\<close>

lemma expect_append: "expect p (p @ s) = Some s"
  by (induction p) auto

lemma parse_number_format:
  assumes "in64 n" and "r = [] \<or> \<not> is_digit (hd r) \<and> hd r \<noteq> CHR ''-''"
  shows "parse_number (FormatInt n @ r) = Some (n, r)"
proof -
  let ?num = "\<lambda>c. is_digit c \<or> c = CHR ''-''"
  have "\<forall>c\<in>set (FormatInt n). ?num c" using FormatInt_chars [of _ n] by auto
  moreover have "takeWhile ?num r = [] \<and> dropWhile ?num r = r" using assms(2) by (cases r) auto
  ultimately have "takeWhile ?num (FormatInt n @ r) = FormatInt n" "dropWhile ?num (FormatInt n @ r) = r"
    by (simp_all add: takeWhile_append2 dropWhile_append2)
  then show ?thesis by (simp add: parse_number_def Let_def assms(1))
qed

lemma feed_unmarshal [simp]:
  assumes "in64 (feID e)" and "in64 (feT e)"
  shows "unmarshalFeed (marshalFeed e) = Some (clean e)"
proof -
  have sep: "\<not> is_digit (CHR '','') \<and> CHR '','' \<noteq> CHR ''-''" by (simp add: is_digit_def)
  have "expect (p @ [quote]) (p @ quote # r) = Some r" for p r
    using expect_append [of "p @ [quote]" r] by simp
  note heads = expect_append [of "''{'' @ json_key ''id''"] expect_append [of "'','' @ json_key ''t''"]
    this [of "'','' @ json_key ''type''"] this [of "'','' @ json_key ''rid''"]
  have number: "parse_number (FormatInt (feID e) @ CHR '','' # r) = Some (feID e, CHR '','' # r)"
    "parse_number (FormatInt (feT e) @ CHR '','' # r) = Some (feT e, CHR '','' # r)" for r
    using parse_number_format assms sep by simp_all
  show ?thesis
    using heads by (simp add: unmarshalFeed_def marshalFeed_def json_string_def number json_read_string
        clean_def)
qed

lemma feed_event_inj:
  "in64 (feID d) \<Longrightarrow> in64 (feT d) \<Longrightarrow> in64 (feID e) \<Longrightarrow> in64 (feT e) \<Longrightarrow>
     marshalFeed d = marshalFeed e \<Longrightarrow> feID d = feID e"
  using feed_unmarshal by (metis clean_fields(1) option.inject)

text \<open>C36. Round trip: what \<open>ReadEvents\<close> decodes is the event that \<open>AppendEvents\<close> encoded, for any
  64-bit number and time and any bytes as type and request identifier, with U+FFFD for each byte
  that belongs to no UTF-8 encoding; an event whose strings are valid UTF-8 comes back as it
  was.\<close>

theorem feed_event_roundtrip:
  assumes "in64 (feID e)" and "in64 (feT e)"
  shows "unmarshalFeed (marshalFeed e) = Some (clean e) \<and>
    (valid_utf8 (feType e) \<and> valid_utf8 (feRid e) \<longrightarrow> unmarshalFeed (marshalFeed e) = Some e)"
  using feed_unmarshal [OF assms] clean_id [of e] by simp

lemma feed_event_roundtrip_witness:
  "unmarshalFeed (marshalFeed \<lparr>feID = 7, feT = -1, feType = ''LEAVE'', feRid = [CHR 0x22, CHR 0x0A]\<rparr>)
     = Some \<lparr>feID = 7, feT = -1, feType = ''LEAVE'', feRid = [CHR 0x22, CHR 0x0A]\<rparr>"
  using feed_event_roundtrip
    [of "\<lparr>feID = 7, feT = -1, feType = ''LEAVE'', feRid = [CHR 0x22, CHR 0x0A]\<rparr>"]
  by (simp add: in64_def ascii_valid)

subsection \<open>The feed of a movie\<close>

definition entry :: "FeedEvent \<Rightarrow> item" where
  "entry e = (marshalFeed e, feID e)"

text \<open>The feed holds the events \<open>es\<close>, numbered upwards, and the counter stands at \<open>n\<close>.\<close>

definition numbered :: "FeedEvent list \<Rightarrow> int \<Rightarrow> bool" where
  "numbered es n \<longleftrightarrow> sorted_wrt (<) (map feID es) \<and>
     (\<forall>e\<in>set es. feID e \<le> n \<and> in64 (feID e) \<and> in64 (feT e))"

definition feed_holds :: "'db redis \<Rightarrow> 'db \<Rightarrow> string \<Rightarrow> FeedEvent list \<Rightarrow> int \<Rightarrow> bool" where
  "feed_holds R db m es n \<longleftrightarrow>
     ZITEMS R db (EventsKey m) = map entry es \<and> counter_is R db (EventsIDKey m) n \<and> numbered es n"

fun new_events :: "int \<Rightarrow> string \<Rightarrow> int \<Rightarrow> string list \<Rightarrow> FeedEvent list" where
  "new_events n ty now [] = []"
| "new_events n ty now (rid # rids) =
     \<lparr>feID = n + 1, feT = now, feType = ty, feRid = rid\<rparr> # new_events (n + 1) ty now rids"

lemma length_new_events [simp]: "length (new_events n ty now rids) = length rids"
  by (induction rids arbitrary: n) auto

lemma new_events_enumerate:
  "map (\<lambda>(i, rid). entry \<lparr>feID = c + int i, feT = now, feType = ty, feRid = rid\<rparr>) (enumerate i0 rids)
     = map entry (new_events (c + int i0 - 1) ty now rids)"
proof (induction rids arbitrary: i0)
  case (Cons rid rids)
  show ?case using Cons.IH [of "Suc i0"] by (simp add: algebra_simps)
qed simp

lemma feed_members_new:
  "feed_members ty rids now (n + int (length rids)) = map entry (new_events n ty now rids)"
  using new_events_enumerate [of "n + 1" now ty 0 rids]
  by (simp add: feed_members_def Let_def entry_def algebra_simps split_def)

lemma numbered_new:
  assumes "numbered es n" and "in64 n" and "in64 (n + int (length rids))" and "in64 now"
  shows "numbered (es @ new_events n ty now rids) (n + int (length rids))"
  using assms
proof (induction rids arbitrary: es n)
  case (Cons rid rids)
  let ?e = "\<lparr>feID = n + 1, feT = now, feType = ty, feRid = rid\<rparr>"
  have "in64 (n + 1)" using Cons.prems(2,3) by (auto simp: in64_def)
  moreover have "numbered (es @ [?e]) (n + 1)"
    using Cons.prems \<open>in64 (n + 1)\<close> by (fastforce simp: numbered_def sorted_wrt_append)
  ultimately show ?case
    using Cons.IH [of "es @ [?e]" "n + 1"] Cons.prems(3,4) by (simp add: algebra_simps)
qed simp

lemma numbered_zwf: "numbered es n \<Longrightarrow> zwf (map entry es)"
proof -
  assume num: "numbered es n"
  then have "sorted_wrt (\<lambda>d e. feID d < feID e) es" by (simp add: numbered_def sorted_wrt_map)
  then have "sorted_wrt item_less (map entry es)"
    unfolding sorted_wrt_map by (rule sorted_wrt_mono_rel [rotated]) (simp add: entry_def item_less_def)
  moreover have "distinct (map feID es)" using num by (simp add: numbered_def strict_sorted_iff)
  then have "inj_on feID (set es)" "distinct es" by (simp_all add: distinct_map)
  then have "distinct (map marshalFeed es)"
    using num feed_event_inj unfolding distinct_map numbered_def inj_on_def by blast
  ultimately show ?thesis by (simp add: zwf_def entry_def comp_def)
qed

lemma numbered_appendD: "numbered (es @ fs) n \<Longrightarrow> numbered es n"
  by (auto simp: numbered_def sorted_wrt_append)

lemma numbered_drop: "numbered es n \<Longrightarrow> numbered (drop k es) n"
  by (auto simp: numbered_def drop_map [symmetric] sorted_wrt_drop dest: in_set_dropD)

lemma parse_feed_numbered: "numbered es n \<Longrightarrow> parse_feed (map marshalFeed es) = map clean es"
  by (induction es) (auto simp: parse_feed_def numbered_def)

context redis_service
begin

text \<open>Storing events with numbers above all others puts them at the end.\<close>

lemma store_items:
  assumes "ZITEMS R db k = map entry es" and "numbered (es @ fs) n"
  shows "ZITEMS R (fold (\<lambda>(v, s). ZADD R k s v) (map entry fs) db) k = map entry (es @ fs)"
  using assms
proof (induction fs arbitrary: es db)
  case (Cons f fs)
  have num: "numbered ((es @ [f]) @ fs) n" using Cons.prems(2) by simp
  then have wf: "zwf (map entry (es @ [f]))" by (rule numbered_zwf [OF numbered_appendD])
  have "zput (entry f) (map entry es) = map entry (es @ [f])"
  proof (rule zwf_eqI)
    have "\<forall>x\<in>set es. fst (entry x) \<noteq> fst (entry f)" using wf by (auto simp: zwf_def image_iff)
    then show "set (zput (entry f) (map entry es)) = set (map entry (es @ [f]))"
      by (auto simp: set_zput)
    show "zwf (zput (entry f) (map entry es))"
      using numbered_zwf [OF numbered_appendD [OF Cons.prems(2)]] by (rule zwf_zput)
  qed (rule wf)
  then have "ZITEMS R (ZADD R k (feID f) (marshalFeed f) db) k = map entry (es @ [f])"
    by (simp only: zitems_zadd Cons.prems(1) entry_def [of f, symmetric])
  from Cons.IH [OF this num] show ?case by (simp add: entry_def [of f])
qed simp

lemma trim_items:
  "ZITEMS R (ZREMRANGEBYRANK R k 0 (- eventCap - 1) db) k = drop (length (ZITEMS R db k) - 100) (ZITEMS R db k)"
proof (rule zwf_eqI)
  let ?xs = "ZITEMS R db k" and ?n = "length (ZITEMS R db k) - 100"
  have wf: "zwf ?xs" by simp
  then have "distinct (take ?n ?xs @ drop ?n ?xs)" by (simp add: zwf_def distinct_map)
  then have dj: "set (take ?n ?xs) \<inter> set (drop ?n ?xs) = {}" by (simp only: distinct_append)
  have "set ?xs = set (take ?n ?xs) \<union> set (drop ?n ?xs)" by (metis append_take_drop_id set_append)
  moreover have "index_range 0 (- eventCap - 1) ?xs = take ?n ?xs"
    by (auto simp: index_range_def eventCap_def Let_def nat_diff_distrib)
  ultimately show "set (ZITEMS R (ZREMRANGEBYRANK R k 0 (- eventCap - 1) db) k) = set (drop ?n ?xs)"
    using dj by (auto simp: zremrangebyrank_items)
  show "zwf (drop ?n ?xs)"
    using wf by (auto simp: zwf_def drop_map [symmetric] sorted_wrt_drop)
qed simp

lemma append_spec:
  assumes "fates w = []" and "rids \<noteq> []" and holds: "feed_holds R (rdb w) m es n"
    and fits: "in64 (n + int (length rids))" and "in64 now"
    and "(r, w') = AppendEvents R m ty rids now w" and all: "all = es @ new_events n ty now rids"
  shows "r = Inr () \<and> feed_holds R (rdb w') m (drop (length all - 100) all) (n + int (length rids))"
proof -
  let ?k = "EventsKey m" and ?i = "EventsIDKey m" and ?n = "n + int (length rids)"
  let ?db1 = "snd (INCRBY R ?i (int (length rids)) (rdb w))"
  let ?db2 = "fold (\<lambda>(v, s). ZADD R ?k s v) (map entry (new_events n ty now rids)) ?db1"
  let ?db3 = "ZREMRANGEBYRANK R ?k 0 (- eventCap - 1) ?db2"
  let ?db4 = "EXPIRE R ?i eventTTL (EXPIRE R ?k eventTTL ?db3)"
  have keys: "?k \<noteq> ?i" "?i \<noteq> ?k" by (simp_all add: key_simps)
  have c: "counter_is R (rdb w) ?i n" "ZITEMS R (rdb w) ?k = map entry es" "numbered es n"
    using holds by (simp_all add: feed_holds_def)
  have inc: "fst (INCRBY R ?i (int (length rids)) (rdb w)) = Some ?n"
    "GET R ?db1 ?i = Some (FormatInt ?n)" using incrby_value [OF c(1) fits] by simp_all
  have num: "numbered all ?n"
    unfolding all using numbered_new [OF c(3) _ fits assms(5)] c(1) by (simp add: counter_is_def)
  have run: "r = Inr ()" "rdb w' = ?db4"
    using assms(1,2,6) inc
    by (simp_all add: AppendEvents_def calm_call split_beta redis_pipe_def next_fate_def append_pipe_def
        pure_cmd_def gap_def feed_members_new)
  have "ZITEMS R ?db1 ?k = map entry es" using keys c(2) by simp
  from store_items [OF this num [unfolded all]] have "ZITEMS R ?db2 ?k = map entry all" by (simp add: all)
  then have "ZITEMS R ?db3 ?k = map entry (drop (length all - 100) all)"
    by (simp add: trim_items drop_map)
  then have "ZITEMS R ?db4 ?k = map entry (drop (length all - 100) all)"
    using keys expire_keeps [of eventTTL ?k ?db3] by (simp add: eventTTL_def)
  moreover have "GET R ?db2 ?i = GET R ?db1 ?i"
    using feed_store_frame [OF keys(2)] by (simp add: same_at_def)
  then have "counter_is R ?db4 ?i ?n"
    using keys inc(2) fits expire_keeps [of eventTTL ?i "EXPIRE R ?k eventTTL ?db3"]
    by (simp add: counter_is_def eventTTL_def)
  ultimately show ?thesis using run num numbered_drop by (simp add: feed_holds_def)
qed

lemma read_spec:
  assumes "fates w = []" and "feed_holds R (rdb w) m es n"
  shows "ReadEvents R m seen w =
    (Inr (map clean (if seen = 0 then drop (length es - 30) es else filter (\<lambda>e. seen < feID e) es),
          if es = [] then 0 else feID (last es)), w)"
proof -
  have items: "ZITEMS R (rdb w) (EventsKey m) = map entry es" and num: "numbered es n"
    using assms(2) by (simp_all add: feed_holds_def)
  have parse: "parse_feed (map marshalFeed fs) = map clean fs" if "set fs \<subseteq> set es" for fs
    using num that by (induction fs) (auto simp: parse_feed_def numbered_def)
  have newest: "ZREVRANGE R (rdb w) (EventsKey m) 0 0 =
      (if es = [] then [] else [entry (last es)])"
    by (simp add: zrevrange_items items index_range_def rev_map [symmetric] take_map take_Suc hd_rev last_map)
  have first: "map fst (ZREVRANGE R (rdb w) (EventsKey m) 0 29) =
      map marshalFeed (rev (drop (length es - 30) es))"
    by (simp add: zrevrange_items items index_range_def rev_map [symmetric] take_map take_rev drop_map
        entry_def comp_def)
  have later: "ZRANGEBYSCORE R (rdb w) (EventsKey m) (Excl seen) PosInf None =
      map marshalFeed (filter (\<lambda>e. seen < feID e) es)"
    by (simp add: zrangebyscore_items items limited_def filter_map entry_def comp_def)
  have sub: "set (rev (drop (length es - 30) es)) \<subseteq> set es" by (auto dest: in_set_dropD)
  show ?thesis
    by (simp add: ReadEvents_def calm_read [OF assms(1)] newest first later parse [OF sub] parse
        entry_def Let_def rev_map)
qed

end

text \<open>C33. Appending to a feed gives the new events the next numbers in the order of the request
  identifiers, whatever the feed holds, and keeps the newest hundred.\<close>

theorem feed_append_outcome:
  assumes "redis_service R" and "fates w = []" and "rids \<noteq> []" and "feed_holds R (rdb w) m es n"
    and "in64 (n + int (length rids))" and "in64 now"
    and "(r, w') = AppendEvents R m ty rids now w" and "all = es @ new_events n ty now rids"
  shows "r = Inr () \<and> feed_holds R (rdb w') m (drop (length all - 100) all) (n + int (length rids))"
  using assms by (rule redis_service.append_spec)

lemma empty_feed:
  "fresh R db \<Longrightarrow> feed_holds R db m [] 0"
  by (simp add: fresh_def gone_at_def feed_holds_def counter_is_def numbered_def in64_def)

lemma feed_append_outcome_witness:
  "feed_holds ref_redis (rdb (snd (AppendEvents ref_redis ''7'' ''PROMOTE'' [''ann'', ''bob''] 9 (calm ref_empty))))
     ''7'' (new_events 0 ''PROMOTE'' 9 [''ann'', ''bob'']) 2"
proof -
  obtain r w' where e: "AppendEvents ref_redis ''7'' ''PROMOTE'' [''ann'', ''bob''] 9 (calm ref_empty) = (r, w')"
    by fastforce
  have h: "feed_holds ref_redis (rdb (calm ref_empty)) ''7'' [] 0"
    using empty_feed [OF fresh_ref_empty] by simp
  show ?thesis
    using feed_append_outcome [OF ref_laws _ _ h _ _ e [symmetric] refl] by (simp add: e in64_def)
qed

text \<open>C34. Reading a feed after an event number gives exactly the events with larger numbers, oldest
  first, and the first reading the newest thirty, oldest first, each event as its JSON gives it
  back; with them the newest number, so that a client who hands it back next time misses none
  that the feed still holds and sees none twice.\<close>

theorem feed_read_outcome:
  assumes "redis_service R" and "fates w = []" and "feed_holds R (rdb w) m es n"
  shows "ReadEvents R m seen w =
    (Inr (map clean (if seen = 0 then drop (length es - 30) es else filter (\<lambda>e. seen < feID e) es),
          if es = [] then 0 else feID (last es)), w)"
  using assms by (rule redis_service.read_spec)

lemma feed_read_outcome_witness:
  "fst (ReadEvents ref_redis ''7'' 1
     (snd (AppendEvents ref_redis ''7'' ''PROMOTE'' [''ann'', ''bob''] 9 (calm ref_empty)))) =
   Inr ([\<lparr>feID = 2, feT = 9, feType = ''PROMOTE'', feRid = ''bob''\<rparr>], 2)"
proof -
  let ?w = "snd (AppendEvents ref_redis ''7'' ''PROMOTE'' [''ann'', ''bob''] 9 (calm ref_empty))"
  have h: "feed_holds ref_redis (rdb (calm ref_empty)) ''7'' [] 0"
    using empty_feed [OF fresh_ref_empty] by simp
  have "feed_holds ref_redis (rdb ?w) ''7'' (new_events 0 ''PROMOTE'' 9 [''ann'', ''bob'']) 2"
    using redis_service.append_spec [OF ref_laws _ _ h _ _ surjective_pairing [symmetric] refl,
        of "[''ann'', ''bob'']" 9 "''PROMOTE''"]
    by (simp add: in64_def)
  moreover have "fates ?w = []" by (simp add: append_fates)
  ultimately show ?thesis
    using feed_read_outcome [OF ref_laws, of ?w "''7''"] by (simp add: clean_id ascii_valid)
qed

subsection \<open>Two pods append at the same time\<close>

text \<open>What another pod does in one undisturbed append.\<close>

definition other_append :: "'db redis \<Rightarrow> string \<Rightarrow> string \<Rightarrow> string \<Rightarrow> int \<Rightarrow> 'db \<Rightarrow> 'db" where
  "other_append R m ty q t db = rdb (snd (AppendEvents R m ty [q] t (ideal_world db t)))"

context redis_service
begin

lemma overtaken_append_spec:
  assumes f: "fates w = [Fate [] [] True, Fate [] [other_append R m ty2 q2 t2] True]"
    and "feed_holds R (rdb w) m [] n" and "in64 (n + 2)" and "in64 t1" and "in64 t2"
    and run: "(r, w') = AppendEvents R m ty1 [q1] t1 w"
    and d: "d = \<lparr>feID = n + 1, feT = t1, feType = ty1, feRid = q1\<rparr>"
    and e: "e = \<lparr>feID = n + 2, feT = t2, feType = ty2, feRid = q2\<rparr>"
    and between: "w1 = ideal_world (other_append R m ty2 q2 t2 (snd (INCRBY R (EventsIDKey m) 1 (rdb w)))) t2"
  shows "ReadEvents R m 0 w1 = (Inr ([clean e], n + 2), w1) \<and> r = Inr () \<and> feed_holds R (rdb w') m [d, e] (n + 2) \<and>
    (n + 2 \<noteq> 0 \<longrightarrow> ReadEvents R m (n + 2) w' = (Inr ([], n + 2), w'))"
proof -
  let ?k = "EventsKey m" and ?i = "EventsIDKey m"
  have keys: "?k \<noteq> ?i" "?i \<noteq> ?k" by (simp_all add: key_simps)
  define db1 where "db1 = snd (INCRBY R ?i 1 (rdb w))"
  define db2 where "db2 = other_append R m ty2 q2 t2 db1"
  have n: "counter_is R (rdb w) ?i n" "ZITEMS R (rdb w) ?k = []" "in64 n" "in64 (n + 1)"
    using assms(2,3) by (auto simp: feed_holds_def counter_is_def in64_def)
  have inc: "fst (INCRBY R ?i 1 (rdb w)) = Some (n + 1)" "GET R db1 ?i = Some (FormatInt (n + 1))"
    using incrby_value [OF n(1,4)] by (simp_all add: db1_def)
  have 1: "feed_holds R db1 m [] (n + 1)"
    using keys n inc by (simp add: feed_holds_def counter_is_def numbered_def db1_def)
  have 2: "feed_holds R db2 m [e] (n + 2)"
    using append_spec [of "ideal_world db1 t2" "[q2]" m "[]" "n + 1" t2 _ _ ty2 , OF _ _ _ _ _ surjective_pairing [symmetric] refl]
      1 assms(3,5) by (simp add: db2_def other_append_def e add.commute [of n])
  then have items: "ZITEMS R db2 ?k = [entry e]" and c2: "counter_is R db2 ?i (n + 2)" and num: "in64 (feT e)"
    by (simp_all add: feed_holds_def numbered_def)
  have read: "ReadEvents R m 0 (ideal_world db2 t2) = (Inr ([clean e], n + 2), ideal_world db2 t2)"
    using read_spec [of "ideal_world db2 t2" m "[e]" "n + 2" 0] 2 by (simp add: e)
  have ms: "feed_members ty1 [q1] t1 (n + 1) = [entry d]"
    using feed_members_new [of ty1 "[q1]" t1 n] by (simp add: d)
  let ?db3 = "ZADD R ?k (feID d) (marshalFeed d) db2"
  let ?db4 = "EXPIRE R ?i eventTTL (EXPIRE R ?k eventTTL (ZREMRANGEBYRANK R ?k 0 (- eventCap - 1) ?db3))"
  have w': "r = Inr ()" "rdb w' = ?db4" "fates w' = []"
    using run f inc(1)
    by (simp_all add: AppendEvents_def redis_call_def redis_pipe_def next_fate_def gap_def append_pipe_def
        pure_cmd_def split_beta ms entry_def db1_def [symmetric] db2_def [symmetric])
  have "marshalFeed d \<noteq> marshalFeed e"
    using feed_event_inj [of d e] assms(3-5) n by (auto simp: d e)
  then have "zput (entry d) [entry e] = [entry d, entry e]"
    by (simp add: zput_def entry_def item_less_def d e)
  then have "ZITEMS R ?db3 ?k = [entry d, entry e]" by (simp add: items entry_def)
  then have "ZITEMS R ?db4 ?k = [entry d, entry e]"
    using keys expire_keeps [of eventTTL ?k] by (simp add: trim_items eventTTL_def)
  moreover have "counter_is R ?db4 ?i (n + 2)"
    using keys c2 expire_keeps [of eventTTL ?i] by (simp add: counter_is_def eventTTL_def)
  ultimately have 3: "feed_holds R (rdb w') m [d, e] (n + 2)"
    using w' assms(3-5) n by (simp add: feed_holds_def numbered_def d e)
  show ?thesis
    using read read_spec [OF w'(3) 3, of "n + 2"] w'(1) 3
    unfolding between db2_def db1_def by (simp add: d e)
qed

end

text \<open>C35. A number is taken in one round trip and its event stored in another, so events may appear out
  of the order of their numbers. If a client reads the feed between the other pod's append and
  the end of this one, it is handed the later number and never gets the earlier event, which the
  feed holds all the same.\<close>

theorem an_overtaken_event_is_never_read:
  assumes "redis_service R"
    and "fates w = [Fate [] [] True, Fate [] [other_append R m ty2 q2 t2] True]"
    and "feed_holds R (rdb w) m [] n" and "in64 (n + 2)" and "in64 t1" and "in64 t2"
    and "(r, w') = AppendEvents R m ty1 [q1] t1 w"
    and "d = \<lparr>feID = n + 1, feT = t1, feType = ty1, feRid = q1\<rparr>"
    and "e = \<lparr>feID = n + 2, feT = t2, feType = ty2, feRid = q2\<rparr>"
    and "w1 = ideal_world (other_append R m ty2 q2 t2 (snd (INCRBY R (EventsIDKey m) 1 (rdb w)))) t2"
  shows "ReadEvents R m 0 w1 = (Inr ([clean e], n + 2), w1) \<and> r = Inr () \<and> feed_holds R (rdb w') m [d, e] (n + 2) \<and>
    (n + 2 \<noteq> 0 \<longrightarrow> ReadEvents R m (n + 2) w' = (Inr ([], n + 2), w'))"
  using assms by (rule redis_service.overtaken_append_spec)

lemma an_overtaken_event_is_never_read_witness:
  "\<exists>w' :: ref_db world.
     feed_holds ref_redis (rdb w') ''7'' [\<lparr>feID = 1, feT = 5, feType = ''ADMIT'', feRid = ''ann''\<rparr>,
       \<lparr>feID = 2, feT = 6, feType = ''LEAVE'', feRid = ''bob''\<rparr>] 2 \<and>
     ReadEvents ref_redis ''7'' 2 w' = (Inr ([], 2), w')"
proof -
  let ?w = "(calm ref_empty)\<lparr>fates := [Fate [] [] True,
     Fate [] [other_append ref_redis ''7'' ''LEAVE'' ''bob'' 6] True]\<rparr>"
  obtain r w' where run: "AppendEvents ref_redis ''7'' ''ADMIT'' [''ann''] 5 ?w = (r, w')" by fastforce
  have h: "feed_holds ref_redis (rdb ?w) ''7'' [] 0" using empty_feed [OF fresh_ref_empty] by simp
  show ?thesis
    using an_overtaken_event_is_never_read [OF ref_laws _ h _ _ _ run [symmetric] refl refl refl,
        where ?ty2.0 = "''LEAVE''" and ?q2.0 = "''bob''" and ?t2.0 = 6]
    by (intro exI [of _ w']) (simp add: in64_def)
qed

end
