(* ===== verification/RateClaims.thy ===== *)
theory RateClaims
  imports Eta OutboxClaims
begin

section \<open>The rate of promotion and the waiting time shown to a visitor\<close>

text \<open>
  What the shared counters of \<open>redis/rate.go\<close> hold after a promotion was observed, and how close
  the estimate of \<open>metrics/rate.go\<close> comes to position over rate.
\<close>

definition bucket :: "'db redis \<Rightarrow> 'db \<Rightarrow> string \<Rightarrow> int \<Rightarrow> int" where
  "bucket R db m s =
     (case GET R db (RateBucketKey m s) of None \<Rightarrow> 0
      | Some v \<Rightarrow> (case ParseInt v of None \<Rightarrow> 0 | Some n \<Rightarrow> n))"

text \<open>The promotions of the seconds from \<open>sec - 89\<close> to \<open>sec\<close>, added up in an \<open>int64\<close>.\<close>

definition window_total :: "'db redis \<Rightarrow> 'db \<Rightarrow> string \<Rightarrow> int \<Rightarrow> int" where
  "window_total R db m sec = wrap64 (\<Sum>s\<in>{sec - 89..sec}. bucket R db m s)"

lemma sum_buckets_map:
  "in64 acc \<Longrightarrow> sum_buckets acc (map (\<lambda>s. GET R db (RateBucketKey m s)) ss) =
     wrap64 (acc + (\<Sum>s\<leftarrow>ss. bucket R db m s))"
  by (induction ss arbitrary: acc) (simp_all add: bucket_def add.assoc split: option.splits)

lemma f64_nonpos: "x \<le> 0 \<Longrightarrow> f64 x = 0"
proof -
  assume "x \<le> 0"
  obtain a b where q: "quotient_of x = (a, b)" by (cases "quotient_of x")
  then have "0 < b" "x = of_int a / of_int b"
    by (simp_all add: quotient_of_denom_pos quotient_of_div)
  with \<open>x \<le> 0\<close> have "a \<le> 0" by (simp add: divide_le_0_iff)
  with q show ?thesis by (simp add: f64_def)
qed

lemma upto_down: "bij_betw (\<lambda>i. sec - i) {0..89} {sec - 89..sec :: int}"
  by (rule bij_betw_byWitness [where f' = "\<lambda>s. sec - s"]) auto

context redis_service
begin

lemma total_calm:
  assumes "fates w = []"
  shows "PromotionTotal R m sec w = (Inr (window_total R (rdb w) m sec), w)"
proof -
  have "(\<Sum>s\<leftarrow>map (\<lambda>i. sec - i) [0..89]. bucket R (rdb w) m s) = (\<Sum>i\<in>{0..89}. bucket R (rdb w) m (sec - i))"
    by (simp add: sum_list_distinct_conv_sum_set comp_def)
  also have "\<dots> = (\<Sum>s\<in>{sec - 89..sec}. bucket R (rdb w) m s)"
    by (rule sum.reindex_bij_betw [OF upto_down])
  finally show ?thesis
    using sum_buckets_map [of 0 R "rdb w" m "map (\<lambda>i. sec - i) [0..89]"]
    by (simp add: window_total_def in64_def PromotionTotal_def calm_read [OF assms] mget_get window_keys_def rateWindowSec_def comp_def)
qed

lemma observe_run:
  assumes "fates w = []" and "0 < n" and "counter_is R (rdb w) (RateBucketKey m s) v" and "in64 (v + n)"
    and "(r, w') = ObservePromotion R m n s w"
  shows "r = Inr () \<and> fates w' = [] \<and>
    rdb w' = EXPIRE R (RateBucketKey m s) rateBucketTTL (snd (INCRBY R (RateBucketKey m s) n (rdb w)))"
  using incrby_value [OF assms(3,4)] assms
  by (auto simp: ObservePromotion_def redis_pipe_def next_fate_def observe_pipe_def pure_cmd_def gap_def
      split_beta Let_def split: option.splits)

lemma observe_bucket:
  assumes "counter_is R db (RateBucketKey m s) v" and "in64 (v + n)"
    and "db' = EXPIRE R (RateBucketKey m s) rateBucketTTL (snd (INCRBY R (RateBucketKey m s) n db))"
  shows "bucket R db' m t = bucket R db m t + (if t = s then n else 0)"
proof (cases "t = s")
  case True
  have "bucket R db m s = v"
    using assms(1) by (auto simp: bucket_def counter_is_def)
  moreover have "GET R db' (RateBucketKey m s) = Some (FormatInt (v + n))"
    using incrby_value [OF assms(1,2)] expire_keeps by (simp add: assms(3) rateBucketTTL_def rateWindowSec_def)
  ultimately show ?thesis using True assms(2) by (simp add: bucket_def)
next
  case False
  then have "RateBucketKey m t \<noteq> RateBucketKey m s" by (simp add: key_simps)
  then show ?thesis using False by (simp add: bucket_def assms(3))
qed

lemma observe_spec:
  assumes "fates w = []" and "0 < n" and "counter_is R (rdb w) (RateBucketKey m s) v" and "in64 (v + n)"
    and "(r, w') = ObservePromotion R m n s w"
  shows "PromotionTotal R m t w = (Inr (window_total R (rdb w) m t), w) \<and>
    PromotionTotal R m t w' =
      (Inr (wrap64 (window_total R (rdb w) m t + (if s \<le> t \<and> t < s + 90 then n else 0))), w') \<and>
    (\<forall>d. 0 \<le> d \<and> d < 120000 \<longrightarrow>
       bucket R (ELAPSE R d (rdb w')) m s = bucket R (rdb w') m s)"
proof -
  let ?k = "RateBucketKey m s"
  note run = observe_run [OF assms]
  have "(\<Sum>u\<in>{t - 89..t}. bucket R (rdb w') m u) =
      (\<Sum>u\<in>{t - 89..t}. bucket R (rdb w) m u) + (\<Sum>u\<in>{t - 89..t}. if u = s then n else 0)"
    using run by (simp add: observe_bucket [OF assms(3,4) refl] sum.distrib)
  also have "(\<Sum>u\<in>{t - 89..t}. if u = s then n else 0) = (if s \<le> t \<and> t < s + 90 then n else 0)"
    by (simp add: sum.delta)
  finally have total: "window_total R (rdb w') m t =
      wrap64 (window_total R (rdb w) m t + (if s \<le> t \<and> t < s + 90 then n else 0))"
    by (simp add: window_total_def)
  let ?db = "snd (INCRBY R ?k n (rdb w))"
  have "EXISTS R ?db ?k" using incrby_value [OF assms(3,4)] by (simp add: exists_iff)
  then have "PTTL R (rdb w') ?k = Some 120000"
    using run expire_ttl [of ?db ?k 120] by (simp add: rateBucketTTL_def rateWindowSec_def)
  from elapse_before [OF this] have "bucket R (ELAPSE R d (rdb w')) m s = bucket R (rdb w') m s"
    if "0 \<le> d" "d < 120000" for d
    using that by (simp add: bucket_def)
  then show ?thesis using total run by (simp add: total_calm assms(1))
qed

lemma eta_spec:
  assumes "fates w = []"
    and stale: "case c m of None \<Rightarrow> True | Some (v, t0) \<Rightarrow> t0 + rateCacheTTL \<le> clock w"
    and t: "t = window_total R (rdb w) m (clock w div 1000)" and "(eta, c', w') = ETASeconds R m p c w"
  shows "(t \<le> 0 \<longrightarrow> eta = - 1) \<and>
    (0 < t \<and> t < 2 ^ 31 \<and> 0 < p \<and> p < 2 ^ 31 \<longrightarrow> \<bar>eta - 90 * p div t\<bar> \<le> 1)"
proof -
  let ?w0 = "snd (now_ms w)"
  have calm: "fates ?w0 = []" using assms(1) by simp
  have "eta = eta_of (f64 (of_int t / of_int rateWindowSec)) p"
    using stale assms(4)
    by (auto simp: ETASeconds_def Rate_def split_beta PromotionRate_def unix_sec_def
        total_calm [OF calm] t split: option.splits)
  moreover have "f64 (of_int t / of_int rateWindowSec) = 0" if "t \<le> 0"
    using that by (intro f64_nonpos) (simp add: rateWindowSec_def)
  ultimately show ?thesis using eta_error [of t p] by (auto simp: eta_of_def)
qed

end

text \<open>C32. A promotion counts towards the rate for exactly ninety seconds: after \<open>n\<close> promotions were
  observed at second \<open>s\<close>, the total read at second \<open>t\<close> is the old one plus \<open>n\<close> (in \<open>int64\<close>) if
  \<open>s \<le> t < s + 90\<close>, and the old one else; and the bucket is kept for two minutes, longer than
  the window asks for it.\<close>

theorem promotions_count_for_ninety_seconds:
  assumes "redis_service R" and "fates w = []" and "0 < n"
    and "counter_is R (rdb w) (RateBucketKey m s) v" and "in64 (v + n)"
    and "(r, w') = ObservePromotion R m n s w"
  shows "PromotionTotal R m t w = (Inr (window_total R (rdb w) m t), w) \<and>
    PromotionTotal R m t w' =
      (Inr (wrap64 (window_total R (rdb w) m t + (if s \<le> t \<and> t < s + 90 then n else 0))), w') \<and>
    (\<forall>d. 0 \<le> d \<and> d < 120000 \<longrightarrow>
       bucket R (ELAPSE R d (rdb w')) m s = bucket R (rdb w') m s)"
  using assms by (rule redis_service.observe_spec)

lemma fresh_window: "fresh R db \<Longrightarrow> window_total R db m t = 0"
  by (simp add: fresh_def gone_at_def window_total_def bucket_def in64_def)

lemma fresh_counter: "fresh R db \<Longrightarrow> counter_is R db k 0"
  by (simp add: fresh_def gone_at_def counter_is_def in64_def)

definition after_promotions :: "ref_db world" where
  "after_promotions = snd (ObservePromotion ref_redis ''7'' 45 0 (calm ref_empty))"

lemma after_promotions_run:
  "(fst (ObservePromotion ref_redis ''7'' 45 0 (calm ref_empty)), after_promotions) =
   ObservePromotion ref_redis ''7'' 45 0 (calm ref_empty)"
  by (simp add: after_promotions_def)

lemma promotions_count_for_ninety_seconds_witness:
  "fst (PromotionTotal ref_redis ''7'' 89 after_promotions) = Inr 45 \<and>
   fst (PromotionTotal ref_redis ''7'' 90 after_promotions) = Inr 0"
  using promotions_count_for_ninety_seconds [OF ref_laws _ _ _ _ after_promotions_run, of 0]
    fresh_counter [OF fresh_ref_empty] fresh_window [OF fresh_ref_empty]
  by (simp add: in64_def)

text \<open>C31. The waiting time shown to a visitor, whenever the cached rate is not younger than two
  seconds: -1 if nobody was promoted in the last ninety seconds, and else within a second of
  ninety times the position divided by the promotions of that time, although Go divides twice
  in \<open>float64\<close>.\<close>

theorem eta_within_a_second:
  assumes "redis_service R" and "fates w = []"
    and "case c m of None \<Rightarrow> True | Some (v, t0) \<Rightarrow> t0 + rateCacheTTL \<le> clock w"
    and "t = window_total R (rdb w) m (clock w div 1000)" and "(eta, c', w') = ETASeconds R m p c w"
  shows "(t \<le> 0 \<longrightarrow> eta = - 1) \<and>
    (0 < t \<and> t < 2 ^ 31 \<and> 0 < p \<and> p < 2 ^ 31 \<longrightarrow> \<bar>eta - 90 * p div t\<bar> \<le> 1)"
  using assms by (rule redis_service.eta_spec)

lemma eta_within_a_second_witness:
  "\<bar>fst (ETASeconds ref_redis ''7'' 10 (\<lambda>_. None) after_promotions) - 20\<bar> \<le> 1"
proof -
  obtain eta c' w' where e: "ETASeconds ref_redis ''7'' 10 (\<lambda>_. None) after_promotions = (eta, c', w')"
    by (cases "ETASeconds ref_redis ''7'' 10 (\<lambda>_. None) after_promotions")
  have calm: "fates after_promotions = []" "clock after_promotions = 0"
    by (simp_all add: after_promotions_def ObservePromotion_def)
  have "PromotionTotal ref_redis ''7'' 0 after_promotions = (Inr 45, after_promotions)"
    using redis_service.observe_spec [OF ref_laws _ _ _ _ after_promotions_run, of 0 0]
      fresh_counter [OF fresh_ref_empty] fresh_window [OF fresh_ref_empty]
    by (simp add: in64_def)
  then have total: "window_total ref_redis (rdb after_promotions) ''7'' 0 = 45"
    using redis_service.total_calm [OF ref_laws calm(1), of "''7''" 0] by simp
  show ?thesis
    using eta_within_a_second [OF ref_laws calm(1) _ refl e [symmetric]] by (simp add: e calm total)
qed

end
