(* ===== verification/Metrics.thy ===== *)
theory Metrics
  imports RateClaims Gauges
begin

section \<open>What the gauges show\<close>

text \<open>
  The properties of the sampler: the gauge of the connection pool does not underflow, series exist
  only for tracked movies whatever fails, and an undisturbed sample shows the database.
\<close>

subsection \<open>The pool's gauge\<close>

lemma in_range64: "0 \<le> a \<Longrightarrow> a < 2 ^ 32 \<Longrightarrow> 0 \<le> b \<Longrightarrow> b < 2 ^ 32 \<Longrightarrow> - (2 ^ 63) \<le> a - b \<and> a - b < 2 ^ 63"
  for a b :: int
  by simp

lemma in_use_clamped: "in_use ps = max 0 (uint (TotalConns ps) - uint (IdleConns ps))"
proof -
  let ?a = "uint (TotalConns ps)" and ?b = "uint (IdleConns ps)"
  have r: "- (2 ^ 63) \<le> ?a - ?b \<and> ?a - ?b < 2 ^ 63"
    by (rule in_range64) (use unsigned_less [of "TotalConns ps"] unsigned_less [of "IdleConns ps"] in simp_all)
  have "(ucast (TotalConns ps) - ucast (IdleConns ps) :: 64 word) = word_of_int (?a - ?b)"
    by (simp only: ucast_eq wi_hom_sub)
  moreover have "sint (word_of_int (?a - ?b) :: 64 word) = ?a - ?b"
    using r by (simp only: sint_sbintrunc') (simp add: signed_take_bit_int_eq_self)
  ultimately show ?thesis by (simp only: in_use_def Let_def) simp
qed

subsection \<open>Which series exist\<close>

definition only_tracked :: "gauges \<Rightarrow> bool" where
  "only_tracked g \<longleftrightarrow>
     dom (waitingGauge g) \<union> dom (activeGauge g) \<union> dom (rateGauge g) \<subseteq> trackedMovies g"

definition grows :: "string set \<Rightarrow> gauges \<Rightarrow> gauges \<Rightarrow> bool" where
  "grows S g g' \<longleftrightarrow>
     dom (waitingGauge g') \<subseteq> S \<union> dom (waitingGauge g) \<and> dom (activeGauge g') \<subseteq> S \<union> dom (activeGauge g) \<and>
     dom (rateGauge g') \<subseteq> S \<union> dom (rateGauge g) \<and>
     trackedMovies g' = trackedMovies g \<and> poolGauge g' = poolGauge g"

lemma union_trans: "A \<subseteq> S \<union> B \<Longrightarrow> C \<subseteq> T \<union> A \<Longrightarrow> C \<subseteq> S \<union> T \<union> B"
  by blast

lemma grows_trans: "grows S g g1 \<Longrightarrow> grows T g1 g2 \<Longrightarrow> grows (S \<union> T) g g2"
  by (simp add: grows_def union_trans [where A = "dom (waitingGauge g1)"]
      union_trans [where A = "dom (activeGauge g1)"] union_trans [where A = "dom (rateGauge g1)"])

lemma sample_movie_grows:
  "sample_movie R m (c, g, w) = (c', g', w') \<Longrightarrow> grows {m} g g'"
  by (auto simp: sample_movie_def Let_def grows_def split: prod.splits sum.splits)

lemma fold_grows:
  "fold (sample_movie R) ms (c, g, w) = (c', g', w') \<Longrightarrow> grows (set ms) g g'"
proof (induction ms arbitrary: c g w)
  case Nil
  then show ?case by (simp add: grows_def)
next
  case (Cons m ms)
  obtain c1 g1 w1 where 1: "sample_movie R m (c, g, w) = (c1, g1, w1)"
    by (cases "sample_movie R m (c, g, w)")
  have "grows (set ms) g1 g'" using Cons.IH [of c1 g1 w1] Cons.prems 1 by simp
  from grows_trans [OF sample_movie_grows [OF 1] this] show ?case by simp
qed

lemma dom_drop: "dom (drop_series gone f) = dom f - gone"
  by (auto simp: drop_series_def dom_def)

lemma sample_only_tracked:
  assumes "sample R ps (c, g, w) = (c', g', w')" and "only_tracked g"
  shows "only_tracked g'"
proof (cases "fst (ActiveQueueMovies R w)")
  case (Inl err)
  then have "g' = pool_gauges ps g" using assms(1) by (auto simp: sample_def split_beta)
  then show ?thesis using assms(2) by (simp add: pool_gauges_def only_tracked_def)
next
  case (Inr ms)
  obtain c1 g1 w1 where f: "fold (sample_movie R) ms (c, pool_gauges ps g, snd (ActiveQueueMovies R w)) = (c1, g1, w1)"
    by (cases "fold (sample_movie R) ms (c, pool_gauges ps g, snd (ActiveQueueMovies R w))")
  have "g' = fst (untracked_series (set ms) g1 w1)"
    using assms(1) f Inr by (simp add: sample_def Let_def split: prod.splits)
  moreover have "grows (set ms) (pool_gauges ps g) g1" using fold_grows [OF f] .
  ultimately show ?thesis
    using assms(2) unfolding only_tracked_def grows_def
    by (simp add: untracked_series_def Let_def dom_drop pool_gauges_def) blast
qed

lemma sampler_only_tracked:
  "StartSampler R es (c, g, w) = (c', g', w') \<Longrightarrow> only_tracked g \<Longrightarrow> only_tracked g'"
proof (induction es arbitrary: c g w)
  case (Cons e es)
  show ?case
  proof (cases e)
    case (SampleTick ps)
    obtain c1 g1 w1 where 1: "sample R ps (c, g, w) = (c1, g1, w1)" by (cases "sample R ps (c, g, w)")
    with Cons SampleTick sample_only_tracked [OF 1 Cons.prems(2)] show ?thesis by simp
  qed (use Cons.prems in simp)
qed simp

subsection \<open>An undisturbed sample\<close>

definition listed :: "'db redis \<Rightarrow> 'db \<Rightarrow> string set" where
  "listed R db = set (SMEMBERS R db ActiveMoviesKey) \<union> set (SMEMBERS R db WaitingMoviesKey)"

definition set_all :: "string set \<Rightarrow> (string \<Rightarrow> 'a) \<Rightarrow> (string \<Rightarrow> 'a option) \<Rightarrow> string \<Rightarrow> 'a option" where
  "set_all S v gauge m = (if m \<in> S then Some (v m) else gauge m)"

context redis_service
begin

lemma Rate_calm:
  assumes "fates w = []"
  shows "fates (snd (snd (Rate R m c w))) = [] \<and> rdb (snd (snd (Rate R m c w))) = rdb w \<and>
    promotedTotal (snd (snd (Rate R m c w))) = promotedTotal w"
proof -
  have "fates (snd (now_ms w)) = []" "promotedTotal (snd (now_ms w)) = promotedTotal w"
    using assms by (simp_all add: now_ms_def)
  then show ?thesis by (simp add: Rate_def PromotionRate_def split_beta total_calm assms)
qed

lemma sample_movie_calm:
  assumes "fates w = []" and "sample_movie R m (c, g, w) = (c', g', w')"
  shows "waitingGauge g' = (waitingGauge g)(m \<mapsto> int (card (waits R (rdb w) m))) \<and>
    activeGauge g' = (activeGauge g)(m \<mapsto> int (card (acts R (rdb w) m))) \<and>
    dom (rateGauge g') = insert m (dom (rateGauge g)) \<and>
    fates w' = [] \<and> rdb w' = rdb w \<and> promotedTotal w' = promotedTotal w"
  using assms(2) Rate_calm [OF assms(1), of m c]
  by (auto simp: sample_movie_def WaitingCount_def ActiveCount_def calm_read [OF assms(1)] zcard_card
      split: prod.splits)

lemma sample_fold_calm:
  assumes "fates w = []" and "fold (sample_movie R) ms (c, g, w) = (c', g', w')"
  shows "waitingGauge g' = set_all (set ms) (\<lambda>m. int (card (waits R (rdb w) m))) (waitingGauge g) \<and>
    activeGauge g' = set_all (set ms) (\<lambda>m. int (card (acts R (rdb w) m))) (activeGauge g) \<and>
    dom (rateGauge g') = set ms \<union> dom (rateGauge g) \<and>
    fates w' = [] \<and> rdb w' = rdb w \<and> promotedTotal w' = promotedTotal w"
  using assms
proof (induction ms arbitrary: c g w)
  case Nil
  then show ?case by (auto simp: set_all_def)
next
  case (Cons m ms)
  obtain c1 g1 w1 where 1: "sample_movie R m (c, g, w) = (c1, g1, w1)"
    by (cases "sample_movie R m (c, g, w)")
  note one = sample_movie_calm [OF Cons.prems(1) 1]
  have "fold (sample_movie R) ms (c1, g1, w1) = (c', g', w')" using Cons.prems(2) 1 by simp
  with Cons.IH [of w1 c1 g1] one show ?case
    by (auto simp: set_all_def)
qed

lemma sample_spec:
  assumes "fates w = []" and "only_tracked g" and "sample R ps (c, g, w) = (c', g', w')"
  shows "waitingGauge g' = (\<lambda>m. if m \<in> listed R (rdb w) then Some (int (card (waits R (rdb w) m))) else None) \<and>
    activeGauge g' = (\<lambda>m. if m \<in> listed R (rdb w) then Some (int (card (acts R (rdb w) m))) else None) \<and>
    dom (rateGauge g') = listed R (rdb w) \<and>
    poolGauge g' ''in_use'' = Some (max 0 (uint (TotalConns ps) - uint (IdleConns ps))) \<and>
    promotedTotal w' = (\<lambda>m. if m \<in> trackedMovies g - listed R (rdb w) then 0 else promotedTotal w m)"
proof -
  define ms where "ms = remdups (SMEMBERS R (rdb w) ActiveMoviesKey @ SMEMBERS R (rdb w) WaitingMoviesKey)"
  have list: "ActiveQueueMovies R w = (Inr ms, w)"
    using assms(1) by (simp add: ActiveQueueMovies_def calm_read ms_def)
  have ms: "set ms = listed R (rdb w)" by (simp add: ms_def listed_def)
  obtain c1 g1 w1 where f: "fold (sample_movie R) ms (c, pool_gauges ps g, w) = (c1, g1, w1)"
    by (cases "fold (sample_movie R) ms (c, pool_gauges ps g, w)")
  have out: "(g', w') = untracked_series (set ms) g1 w1"
    using assms(3) f by (simp add: sample_def list Let_def)
  note all = sample_fold_calm [OF assms(1) f] fold_grows [OF f]
  have dom: "waitingGauge g m = None" "activeGauge g m = None" "m \<notin> dom (rateGauge g)"
    if "m \<notin> trackedMovies g" for m
    using assms(2) that by (auto simp: only_tracked_def)
  have "dom (rateGauge g') = listed R (rdb w)"
    using out all assms(2)
    by (auto simp: untracked_series_def Let_def dom_drop grows_def pool_gauges_def ms only_tracked_def)
  with out all show ?thesis
    by (auto simp: untracked_series_def Let_def grows_def pool_gauges_def ms drop_series_def set_all_def
        in_use_clamped dom fun_eq_iff)
qed

end

text \<open>The gauge of connections in use never underflows: although the pool's two counts are read
  one after the other and the idle one may be the larger, the gauge is their difference or 0,
  always within the range of a connection count.\<close>

lemma pool_gauge_never_underflows:
  "in_use ps = max 0 (uint (TotalConns ps) - uint (IdleConns ps)) \<and> 0 \<le> in_use ps \<and> in_use ps < 2 ^ 32"
proof -
  have "in_use ps = max 0 (uint (TotalConns ps) - uint (IdleConns ps))" by (rule in_use_clamped)
  moreover have "uint (TotalConns ps) < 2 ^ 32" using unsigned_less [of "TotalConns ps"] by simp
  moreover have "0 \<le> uint (IdleConns ps)" by simp
  ultimately have "in_use ps = max 0 (uint (TotalConns ps) - uint (IdleConns ps))"
    "uint (TotalConns ps) - uint (IdleConns ps) < 2 ^ 32" by linarith+
  then show ?thesis by (simp add: max_def)
qed

text \<open>C40. The gauges follow the tracked movies: whatever went wrong in the samples before, after one
  that nothing disturbs there is a series for exactly the movies that are tracked, with the
  number waiting and the number seated of each; the counter of promotions is dropped for the
  movies that were tracked at the sample before, and only for those, so that of a movie that came and
  went between two samples stays.\<close>

theorem gauges_follow_the_tracked_movies:
  assumes "redis_service R" and "StartSampler R es (c0, no_gauges, w0) = (c, g, w)"
    and "fates w = []" and "sample R ps (c, g, w) = (c', g', w')"
  shows "waitingGauge g' = (\<lambda>m. if m \<in> listed R (rdb w) then Some (int (card (waits R (rdb w) m))) else None) \<and>
    activeGauge g' = (\<lambda>m. if m \<in> listed R (rdb w) then Some (int (card (acts R (rdb w) m))) else None) \<and>
    dom (rateGauge g') = listed R (rdb w) \<and>
    poolGauge g' ''in_use'' = Some (max 0 (uint (TotalConns ps) - uint (IdleConns ps))) \<and>
    promotedTotal w' = (\<lambda>m. if m \<in> trackedMovies g - listed R (rdb w) then 0 else promotedTotal w m)"
proof -
  have "only_tracked no_gauges" by (simp add: only_tracked_def no_gauges_def)
  from sampler_only_tracked [OF assms(2) this] show ?thesis
    by (rule redis_service.sample_spec [OF assms(1,3) _ assms(4)])
qed

lemma gauges_follow_the_tracked_movies_witness:
  "\<exists>g'. waitingGauge g' ''7'' = Some 2 \<and> activeGauge g' ''7'' = Some 1 \<and> waitingGauge g' ''8'' = None \<and>
     g' = fst (snd (sample ref_redis \<lparr>TotalConns = 3, IdleConns = 5, PendingRequests = 0\<rparr>
       (\<lambda>_. None, no_gauges, calm demo_db)))"
proof -
  obtain c' g' w' where e: "sample ref_redis \<lparr>TotalConns = 3, IdleConns = 5, PendingRequests = 0\<rparr>
      (\<lambda>_. None, no_gauges, calm demo_db) = (c', g', w')"
    by (cases "sample ref_redis \<lparr>TotalConns = 3, IdleConns = 5, PendingRequests = 0\<rparr>
      (\<lambda>_. None, no_gauges, calm demo_db)")
  have "''7'' \<in> listed ref_redis demo_db" "''8'' \<notin> listed ref_redis demo_db" by code_simp+
  with gauges_follow_the_tracked_movies [OF ref_laws _ _ e, of "[]"] show ?thesis
    by (intro exI [of _ g']) (simp add: e demo_sets members_Cons)
qed

end
