(* ===== verification/Loops.thy ===== *)
theory Loops
  imports System Runtime
begin

section \<open>The loops as goroutines (processor/*.go, main.go)\<close>

text \<open>
  The four \<open>Start\<close> methods with their tickers, and the goroutines \<open>main\<close> makes of them: each
  under the guard that restarts it after a panic. \<open>time.NewTicker\<close> panics on an interval that is
  not positive; otherwise the loop runs its body at every tick until the context is done.
\<close>

definition on_ticker ::
  "int \<Rightarrow> string \<Rightarrow> ('db world \<Rightarrow> 'db world) \<Rightarrow> wakeup list \<Rightarrow> 'db world \<Rightarrow> 'db world run" where
  "on_ticker interval loop processAll es w =
     (if interval \<le> 0 then Panicked w else Returned (Start loop processAll es w))"

text \<open>The structs of the processor package, with their constructors; the publisher is an interface
  value, None for nil. Durations are in milliseconds but for the intervals, of which only the
  sign matters here.\<close>

record 'db QueueProcessor =
  qMaxSessions :: int
  qInterval :: int
  qBatchSize :: int
  qPublisher :: "'db publish option"

record 'db PendingSweeper =
  sPublisher :: "'db publish option"
  sInterval :: int
  sGrace :: int
  sBatch :: int

record SessionTimeoutProcessor =
  tTimeout :: int
  tInterval :: int

record WaitingTimeoutProcessor =
  wTimeout :: int
  wInterval :: int

definition NewQueueProcessor :: "int \<Rightarrow> int \<Rightarrow> int \<Rightarrow> 'db publish option \<Rightarrow> 'db QueueProcessor" where
  "NewQueueProcessor cap interval batchSize pub =
     \<lparr>qMaxSessions = cap, qInterval = interval, qBatchSize = batchSize, qPublisher = pub\<rparr>"

definition NewPendingSweeper :: "'db publish option \<Rightarrow> int \<Rightarrow> int \<Rightarrow> int \<Rightarrow> 'db PendingSweeper" where
  "NewPendingSweeper pub interval grace batch =
     \<lparr>sPublisher = pub, sInterval = interval, sGrace = grace, sBatch = batch\<rparr>"

definition NewSessionTimeoutProcessor :: "int \<Rightarrow> int \<Rightarrow> SessionTimeoutProcessor" where
  "NewSessionTimeoutProcessor timeout interval = \<lparr>tTimeout = timeout, tInterval = interval\<rparr>"

definition NewWaitingTimeoutProcessor :: "int \<Rightarrow> int \<Rightarrow> WaitingTimeoutProcessor" where
  "NewWaitingTimeoutProcessor timeout interval = \<lparr>wTimeout = timeout, wInterval = interval\<rparr>"

definition queue_Start ::
  "'db redis \<Rightarrow> 'db QueueProcessor \<Rightarrow> wakeup list \<Rightarrow> 'db world \<Rightarrow> 'db world run" where
  "queue_Start R p = on_ticker (qInterval p) ''promote''
     (queue_processAll R (qPublisher p) (qMaxSessions p) (qBatchSize p))"

definition sweep_Start ::
  "'db redis \<Rightarrow> 'db PendingSweeper \<Rightarrow> wakeup list \<Rightarrow> 'db world \<Rightarrow> 'db world run" where
  "sweep_Start R s = on_ticker (sInterval s) ''pending_sweep''
     (sweep_processAll R (sPublisher s) (sGrace s) (sBatch s))"

definition timeout_Start ::
  "'db redis \<Rightarrow> SessionTimeoutProcessor \<Rightarrow> wakeup list \<Rightarrow> 'db world \<Rightarrow> 'db world run" where
  "timeout_Start R p = on_ticker (tInterval p) ''session_timeout'' (timeout_processAll R (tTimeout p))"

definition waiting_Start ::
  "'db redis \<Rightarrow> WaitingTimeoutProcessor \<Rightarrow> wakeup list \<Rightarrow> 'db world \<Rightarrow> 'db world run" where
  "waiting_Start R p = on_ticker (wInterval p) ''waiting_timeout'' (waiting_processAll R (wTimeout p))"

text \<open>The loops \<open>main\<close> starts, under the names it gives them.\<close>

definition background ::
  "'db redis \<Rightarrow> Config \<Rightarrow> (string \<times> (wakeup list \<Rightarrow> 'db world \<Rightarrow> 'db world run)) list" where
  "background R cfg =
     [(''queue-processor'', queue_Start R
         (NewQueueProcessor (MaxSessions cfg) (QueueInterval cfg) (BatchSize cfg) (Some PublishEvents))),
      (''session-timeout'', timeout_Start R
         (NewSessionTimeoutProcessor (SessionTimeout cfg div Millisecond) (TimeoutInterval cfg))),
      (''waiting-timeout'', waiting_Start R
         (NewWaitingTimeoutProcessor (WaitingTimeout cfg div Millisecond) (WaitingInterval cfg))),
      (''pending-sweep'', sweep_Start R
         (NewPendingSweeper (Some PublishEvents) (SweepInterval cfg) sweepGrace sweepBatch))]"

text \<open>A goroutine over its life: \<open>rounds\<close> are the wake-ups of each start of the loop, up to the one
  that ends with the context done.\<close>

fun one_round ::
  "(wakeup list \<Rightarrow> 'db world \<Rightarrow> 'db world run) \<Rightarrow> wakeup list list \<times> 'db world \<Rightarrow>
   (wakeup list list \<times> 'db world) run" where
  "one_round loop ([], w) = Returned ([], w)"
| "one_round loop (es # rounds, w) =
     (case loop es w of Returned w \<Rightarrow> Returned (rounds, w) | Panicked w \<Rightarrow> Panicked (rounds, w))"

definition goroutine ::
  "(wakeup list \<Rightarrow> 'db world \<Rightarrow> 'db world run) \<Rightarrow> wakeup list list \<Rightarrow> 'db world \<Rightarrow> 'db world option" where
  "goroutine loop rounds w =
     map_option snd (runGuarded (length rounds) (one_round loop) (\<lambda>s. fst s = []) (rounds, w))"

lemma goroutine_rounds:
  assumes "rounds \<noteq> []" and "\<And>es w. run_state (loop es w) = f es w"
  shows "goroutine loop rounds w = Some (fold f rounds w)"
  using assms(1)
proof (induction rounds arbitrary: w)
  case (Cons es rounds)
  have r: "run_state (one_round loop (es # rounds, w)) = (rounds, f es w)"
    using assms(2) [of es w] by (auto simp: run_state_def split: run.splits)
  show ?case
  proof (cases rounds)
    case Nil
    then show ?thesis
      using r by (simp add: goroutine_def runGuarded_step del: runGuarded.simps one_round.simps)
  next
    case (Cons fs rounds')
    then have "goroutine loop (es # rounds) w = goroutine loop rounds (f es w)"
      using r by (simp add: goroutine_def runGuarded_step Let_def del: runGuarded.simps one_round.simps)
    then show ?thesis using Cons.IH Cons by simp
  qed
qed simp

lemma goroutine_on_ticker:
  assumes "rounds \<noteq> []"
  shows "goroutine (on_ticker interval loop processAll) rounds w =
    Some (if interval \<le> 0 then w else fold (Start loop processAll) rounds w)"
proof -
  have "run_state (on_ticker interval loop processAll es v) =
      (if interval \<le> 0 then v else Start loop processAll es v)" for es v
    by (simp add: on_ticker_def run_state_def)
  moreover have "fold (\<lambda>es v. v) rounds w = w" by (induction rounds) simp_all
  ultimately show ?thesis
    using goroutine_rounds [OF assms, of "on_ticker interval loop processAll"] by (cases "interval \<le> 0") simp_all
qed

lemma Load_QueueInterval:
  "QueueInterval (Load env) = wrap64 (getenvInt env ''QUEUE_PROCESS_INTERVAL'' 2000 * Millisecond)"
  by (simp add: Load_def Let_def)

text \<open>C37. The interval decides whether there is a queue at all. With a positive
  \<open>QUEUE_PROCESS_INTERVAL\<close> the promotion goroutine does the work of all its ticks in order; with
  zero or less every start of the loop panics at once, the guard starts it again every second,
  and over the whole life of the process nobody is promoted, because \<open>Load\<close> puts a lower bound on
  the capacity and the batch but none on the intervals.\<close>

theorem no_promotion_without_an_interval:
  assumes "n = getenvInt env ''QUEUE_PROCESS_INTERVAL'' 2000" and "\<bar>n\<bar> \<le> 9223372036854"
    and "rounds \<noteq> []" and "cfg = Load env"
    and "map_of (background R cfg) ''queue-processor'' = Some loop"
  shows "goroutine loop rounds w =
    Some (if n \<le> 0 then w
          else fold (Start ''promote'' (queue_processAll R (Some PublishEvents) (MaxSessions cfg) (BatchSize cfg)))
                 rounds w)"
proof -
  have "QueueInterval cfg = n * 1000000"
    using assms(2) unfolding assms(4) Load_QueueInterval assms(1) [symmetric] Millisecond_def
    by (intro wrap64_id) (auto simp: in64_def)
  with assms(5) show ?thesis
    by (auto simp: background_def queue_Start_def NewQueueProcessor_def goroutine_on_ticker [OF assms(3)] zero_less_mult_iff
        mult_le_0_iff)
qed

lemma no_promotion_without_an_interval_witness:
  "\<exists>loop. map_of (background ref_redis (Load (\<lambda>v. if v = ''QUEUE_PROCESS_INTERVAL'' then ''0'' else [])))
     ''queue-processor'' = Some loop \<and>
   goroutine loop [[Tick, Tick], [Tick, Done]] (ideal_world ref_empty 0) = Some (ideal_world ref_empty 0)"
proof -
  let ?env = "\<lambda>v. if v = ''QUEUE_PROCESS_INTERVAL'' then ''0'' else []"
  obtain loop where l: "map_of (background ref_redis (Load ?env)) ''queue-processor'' = Some loop"
    by (simp add: background_def)
  have "getenvInt ?env ''QUEUE_PROCESS_INTERVAL'' 2000 = 0" by code_simp
  from no_promotion_without_an_interval [OF this [symmetric] _ _ refl l] l show ?thesis by auto
qed

end
