(* ===== verification/Topics.thy ===== *)
theory Topics
  imports GoStd
begin

section \<open>Making sure that a topic exists (kafka/kafka.go)\<close>

text \<open>
  The producer and the consumer create their topics before they use them, and go on trying
  until the broker answers. kafka-go and the broker are not part of the repository: the calls
  the code makes are the fields of the record \<open>admin\<close> over an unknown state \<open>'k\<close> of the cluster,
  and the locale \<open>kafka_admin\<close> says what is documented of them. Errors are their messages.
\<close>

record ('c, 'k) admin =
  Dial :: "string \<Rightarrow> 'k \<Rightarrow> string + 'c"
  Controller :: "'c \<Rightarrow> 'k \<Rightarrow> string + (string \<times> int)"
  CreateTopics :: "'c \<Rightarrow> string \<Rightarrow> 'k \<Rightarrow> string option \<times> 'k"
  Existing :: "'k \<Rightarrow> string set"

text \<open>Go's \<open>net.JoinHostPort\<close> and \<open>strings.Contains\<close>.\<close>

definition JoinHostPort :: "string \<Rightarrow> string \<Rightarrow> string" where
  "JoinHostPort host port =
     (if CHR '':'' \<in> set host then ''['' @ host @ '']:'' @ port else host @ '':'' @ port)"

fun Contains :: "string \<Rightarrow> string \<Rightarrow> bool" where
  "Contains [] sub = (sub = [])"
| "Contains (c # cs) sub = (take (length sub) (c # cs) = sub \<or> Contains cs sub)"

definition tryCreateTopic ::
  "('c, 'k) admin \<Rightarrow> string \<Rightarrow> string \<Rightarrow> 'k \<Rightarrow> string option \<times> 'k" where
  "tryCreateTopic A broker topic k =
     (case Dial A broker k of
        Inl err \<Rightarrow> (Some err, k)
      | Inr conn \<Rightarrow>
          (case Controller A conn k of
             Inl err \<Rightarrow> (Some err, k)
           | Inr (host, port) \<Rightarrow>
               (case Dial A (JoinHostPort host (FormatInt port)) k of
                  Inl err \<Rightarrow> (Some err, k)
                | Inr cc \<Rightarrow>
                    (case CreateTopics A cc topic k of
                       (Some err, k) \<Rightarrow> (if \<not> Contains err ''exist'' then Some err else None, k)
                     | (None, k) \<Rightarrow> (None, k)))))"

text \<open>A round of the loop ends in the \<open>select\<close>: with the context done, or after two seconds in
  which the cluster may have changed. The list of what the rounds will find is the fuel, and
  None the loop that has used it up and is still trying; the result says whether the topic
  was made or the context ended.\<close>

datatype 'k waiting_end = CtxDone | After "'k \<Rightarrow> 'k"

datatype ensured = TopicReady | GaveUp

fun ensureTopic ::
  "('c, 'k) admin \<Rightarrow> string \<Rightarrow> string \<Rightarrow> 'k waiting_end list \<Rightarrow> 'k \<Rightarrow> (ensured \<times> 'k) option" where
  "ensureTopic A broker topic [] k = None"
| "ensureTopic A broker topic (e # es) k =
     (case tryCreateTopic A broker topic k of
        (None, k) \<Rightarrow> Some (TopicReady, k)
      | (Some err, k) \<Rightarrow>
          (case e of
             CtxDone \<Rightarrow> Some (GaveUp, k)
           | After change \<Rightarrow> ensureTopic A broker topic es (change k)))"

locale kafka_admin =
  fixes A :: "('c, 'k) admin"
  assumes created: "CreateTopics A c t k = (None, k') \<Longrightarrow> t \<in> Existing A k'"
    and already: "CreateTopics A c t k = (Some err, k') \<Longrightarrow> Contains err ''exist'' \<Longrightarrow> t \<in> Existing A k'"
    and kept: "CreateTopics A c t k = (r, k') \<Longrightarrow> Existing A k \<subseteq> Existing A k'"
begin

lemma try_creates:
  "tryCreateTopic A broker topic k = (None, k') \<Longrightarrow> topic \<in> Existing A k'"
  using created already
  by (auto simp: tryCreateTopic_def split: sum.splits prod.splits option.splits if_splits)

lemma try_keeps:
  "tryCreateTopic A broker topic k = (r, k') \<Longrightarrow> Existing A k \<subseteq> Existing A k'"
  by (auto simp: tryCreateTopic_def split: sum.splits prod.splits option.splits if_splits
      dest!: kept)

lemma ensure_ready:
  "ensureTopic A broker topic es k = Some (TopicReady, k') \<Longrightarrow> topic \<in> Existing A k'"
  by (induction es arbitrary: k) (auto split: prod.splits option.splits waiting_end.splits dest: try_creates)

text \<open>While the broker cannot be dialled, a round changes nothing.\<close>

lemma ensure_waits:
  assumes "\<forall>i<n. \<exists>err. Dial A broker (fold (\<lambda>c. c) (take i cs) k) = Inl err" and "n \<le> length cs"
  shows "ensureTopic A broker topic (map After (take n cs) @ es) k =
    ensureTopic A broker topic es (fold (\<lambda>c. c) (take n cs) k)"
  using assms
proof (induction n arbitrary: cs k)
  case (Suc n)
  then obtain c cs' where cs: "cs = c # cs'" by (cases cs) auto
  from Suc.prems(1) obtain err where "Dial A broker k = Inl err" by fastforce
  moreover have "\<forall>i<n. \<exists>err. Dial A broker (fold (\<lambda>c. c) (take i cs') (c k)) = Inl err"
    using Suc.prems(1) by (fastforce simp: cs)
  ultimately show ?case
    using Suc.IH [of cs' "c k"] Suc.prems(2) by (simp add: cs tryCreateTopic_def)
qed simp

lemma ensure_spec:
  assumes "\<forall>i<n. \<exists>err. Dial A broker (fold (\<lambda>c. c) (take i cs) k) = Inl err" and "n \<le> length cs"
    and "tryCreateTopic A broker topic (fold (\<lambda>c. c) (take n cs) k) = (None, k')"
  shows "(\<forall>m\<le>n. ensureTopic A broker topic (map After (take m cs)) k = None) \<and>
    ensureTopic A broker topic (map After (take n cs) @ e # es) k = Some (TopicReady, k') \<and>
    topic \<in> Existing A k'"
  using ensure_waits [OF assms(1,2)] ensure_waits [of _ broker cs k _ "[]"] assms try_creates [OF assms(3)]
  by simp

end

subsection \<open>A cluster that satisfies the laws\<close>

text \<open>Whether it is up, and its topics.\<close>

definition ref_admin :: "(string, bool \<times> string list) admin" where
  "ref_admin = \<lparr>
     Dial = (\<lambda>addr (up, ts). if up then Inr addr else Inl ''connection refused''),
     Controller = (\<lambda>c k. Inr (''kafka-0'', 9092)),
     CreateTopics = (\<lambda>c t (up, ts). if t \<in> set ts then (Some ''Topic Already exists'', (up, ts))
       else (None, (up, t # ts))),
     Existing = (\<lambda>(up, ts). set ts)\<rparr>"

interpretation refk: kafka_admin ref_admin
  by unfold_locales (auto simp: ref_admin_def split: if_splits)

lemma ref_admin_laws: "kafka_admin ref_admin" ..

text \<open>The consumer waits for its topic as long as it takes and no longer: while the broker
  cannot be reached the loop goes on, however many rounds there are, and in the first round in
  which the topic can be made, or is found to exist, it returns with the topic there.\<close>

lemma topic_is_there_once_reachable:
  assumes "kafka_admin A"
    and "\<forall>i<n. \<exists>err. Dial A broker (fold (\<lambda>c. c) (take i cs) k) = Inl err" and "n \<le> length cs"
    and "tryCreateTopic A broker topic (fold (\<lambda>c. c) (take n cs) k) = (None, k')"
  shows "(\<forall>m\<le>n. ensureTopic A broker topic (map After (take m cs)) k = None) \<and>
    ensureTopic A broker topic (map After (take n cs) @ e # es) k = Some (TopicReady, k') \<and>
    topic \<in> Existing A k'"
  using assms by (rule kafka_admin.ensure_spec)

text \<open>The broker comes up during the second wait.\<close>

lemma topic_is_there_once_reachable_witness:
  "ensureTopic ref_admin ''kafka:9092'' ''admissions''
     [After id, After (\<lambda>(up, ts). (True, ts)), CtxDone] (False, []) =
   Some (TopicReady, (True, [''admissions'']))"
  using topic_is_there_once_reachable [OF ref_admin_laws, of 2 "''kafka:9092''"
      "[id, \<lambda>(up, ts). (True, ts)]" "(False, [])" "''admissions''" "(True, [''admissions''])" CtxDone "[]"]
  by (simp add: ref_admin_def tryCreateTopic_def eval_nat_numeral less_Suc_eq)

end
