(* ===== verification/Shutdown.thy ===== *)
theory Shutdown
  imports Prelude
begin

section \<open>The end of the process (main.go, kafka/kafka.go, processor/*.go)\<close>

text \<open>
  What \<open>main\<close> does from the start of the server on. Until \<open>signal.Notify\<close> a SIGTERM ends the process
  at once; then it starts the shutdown: readiness goes down for three seconds, the HTTP server is
  drained for at most twenty seconds and else closed, the context is cancelled and the background
  goroutines are awaited, then the metrics server, the exporter, the Kafka writer and the Redis
  client are closed, in this order. The steps of \<open>main\<close> interleave with those of the server's
  connections, of the handlers, of the goroutines and of the clock. A listener that fails ends
  the process by \<open>os.Exit\<close>.

  The goroutines are control states of the loops they run, so that whether they end is for the loops
  to show: \<open>ticker_step\<close> is the \<open>Start\<close> of the four processors and of the sampler, \<open>topic_step\<close> is
  \<open>ensureTopic\<close>, \<open>consumer_step\<close> is \<open>ConsumeCompleted\<close>, \<open>guard_step\<close> the \<open>runGuarded\<close> around each of the
  six \<open>main\<close> awaits. The two \<open>ensureTopic\<close> goroutines of \<open>NewProducer\<close> are not awaited. What the
  loops do to the queue is in the theories of the processors; here a round is a step.

  The libraries enter by their documentation: \<open>http.Server.Shutdown\<close> closes the listener, lets no
  connection be used for another request, and returns without an error only when no connection
  is left; \<open>Close\<close> closes the connections but knows nothing of the handlers that are running; the
  exporter's \<open>Shutdown\<close> waits for the buffered spans no longer than its context lives; the calls to
  Redis and the writes to Kafka have deadlines; a \<open>select\<close> with several ready cases takes any of them.
\<close>

subsection \<open>The loops as goroutines\<close>

text \<open>What runs under \<open>runGuarded\<close>: the function itself at some point of it, the guard after the function
  returned or panicked, the guard in its sleep of a second, or nothing any more.\<close>

datatype 'a guarded = Run 'a | Returned | Resting | Ended

text \<open>\<open>finished\<close> says that the context is cancelled. \<open>NewTicker\<close> panics on an interval that is not positive.\<close>

datatype ticker = Entering | Selecting | Working

inductive ticker_step :: "bool \<Rightarrow> ticker \<Rightarrow> ticker guarded \<Rightarrow> bool" for finished :: bool where
  ticker_made: "ticker_step finished Entering (Run Selecting)"
| ticker_panics: "ticker_step finished Entering Returned"
| tick: "ticker_step finished Selecting (Run Working)"
| ctx_done: "finished \<Longrightarrow> ticker_step finished Selecting Returned"
| round_done: "ticker_step finished Working (Run Selecting)"
| round_panics: "ticker_step finished Working Returned"

text \<open>\<open>ensureTopic\<close>: \<open>Creating\<close> is the call of \<open>tryCreateTopic\<close>, which looks at no context and sets no
  deadline on its connections, so that it returns only if the broker answers; \<open>Retrying\<close> is the
  \<open>select\<close> between the context and two seconds; None is the return.\<close>

datatype topic = Creating | Retrying

inductive topic_step :: "bool \<Rightarrow> bool \<Rightarrow> topic \<Rightarrow> topic option \<Rightarrow> bool" for answers finished :: bool where
  topic_there: "answers \<Longrightarrow> topic_step answers finished Creating None"
| topic_failed: "answers \<Longrightarrow> topic_step answers finished Creating (Some Retrying)"
| two_seconds: "topic_step answers finished Retrying (Some Creating)"
| topic_given_up: "finished \<Longrightarrow> topic_step answers finished Retrying None"

text \<open>\<open>ConsumeCompleted\<close>: a fetch that fails ends the loop if the context is cancelled, and else is
  followed by a sleep of a second.\<close>

datatype consumer = Topic topic | Fetching | Handling | Pausing

inductive consumer_step :: "bool \<Rightarrow> bool \<Rightarrow> consumer \<Rightarrow> consumer guarded \<Rightarrow> bool"
  for answers finished :: bool where
  ensuring: "topic_step answers finished t (Some u) \<Longrightarrow>
    consumer_step answers finished (Topic t) (Run (Topic u))"
| subscribed: "topic_step answers finished t None \<Longrightarrow> consumer_step answers finished (Topic t) (Run Fetching)"
| fetched: "consumer_step answers finished Fetching (Run Handling)"
| fetch_failed: "\<not> finished \<Longrightarrow> consumer_step answers finished Fetching (Run Pausing)"
| fetch_cancelled: "finished \<Longrightarrow> consumer_step answers finished Fetching Returned"
| handled: "consumer_step answers finished Handling (Run Fetching)"
| handling_panics: "consumer_step answers finished Handling Returned"
| pause_over: "consumer_step answers finished Pausing (Run Fetching)"

inductive guard_step :: "bool \<Rightarrow> 'a \<Rightarrow> ('a \<Rightarrow> 'a guarded \<Rightarrow> bool) \<Rightarrow> 'a guarded \<Rightarrow> 'a guarded \<Rightarrow> bool"
  for finished :: bool and fn :: 'a and step :: "'a \<Rightarrow> 'a guarded \<Rightarrow> bool" where
  guard_runs: "step x y \<Longrightarrow> guard_step finished fn step (Run x) y"
| guard_ends: "finished \<Longrightarrow> guard_step finished fn step Returned Ended"
| guard_rests: "\<not> finished \<Longrightarrow> guard_step finished fn step Returned Resting"
| guard_restarts: "guard_step finished fn step Resting (Run fn)"

text \<open>The goroutines \<open>main\<close> starts with \<open>bg\<close>: the consumer, and five loops with a ticker.\<close>

datatype worker = Reader "consumer guarded" | Loop "ticker guarded"

inductive worker_step :: "bool \<Rightarrow> bool \<Rightarrow> worker \<Rightarrow> worker \<Rightarrow> bool" for answers finished :: bool where
  reader_step: "guard_step finished (Topic Creating) (consumer_step answers finished) x y \<Longrightarrow>
    worker_step answers finished (Reader x) (Reader y)"
| loop_step: "guard_step finished Entering (ticker_step finished) x y \<Longrightarrow>
    worker_step answers finished (Loop x) (Loop y)"

text \<open>The goroutines of \<open>NewProducer\<close>.\<close>

inductive creator_step :: "bool \<Rightarrow> bool \<Rightarrow> topic option \<Rightarrow> topic option \<Rightarrow> bool" for answers finished :: bool where
  creating: "topic_step answers finished t u \<Longrightarrow> creator_step answers finished (Some t) u"

inductive_cases ticker_stepE: "ticker_step finished x y"
inductive_cases topic_stepE: "topic_step answers finished x y"
inductive_cases consumer_stepE: "consumer_step answers finished x y"
inductive_cases worker_stepE: "worker_step answers finished x y"
inductive_cases creator_stepE: "creator_step answers finished x y"

inductive_simps guard_simps:
  "guard_step finished fn step Ended y" "guard_step finished fn step Returned y"
  "guard_step finished fn step Resting y" "guard_step finished fn step (Run x) y"
inductive_simps worker_simps:
  "worker_step answers finished (Reader x) y" "worker_step answers finished (Loop x) y"
inductive_simps creator_simps:
  "creator_step answers finished None y" "creator_step answers finished (Some t) y"

text \<open>A step of one of several.\<close>

inductive one_of :: "('a \<Rightarrow> 'a \<Rightarrow> bool) \<Rightarrow> 'a list \<Rightarrow> 'a list \<Rightarrow> bool" for step :: "'a \<Rightarrow> 'a \<Rightarrow> bool" where
  this_one: "step x y \<Longrightarrow> one_of step (x # xs) (y # xs)"
| another: "one_of step xs ys \<Longrightarrow> one_of step (x # xs) (x # ys)"

subsection \<open>The process\<close>

datatype phase =
  Starting | Serving | ReadinessDown | Draining | Cancelled | LoopsStopped | MetricsClosed | TracerShut
  | KafkaClosed | RedisClosed | Exited

text \<open>\<open>connections\<close> are those on which no request is being handled, \<open>requests\<close> the running handlers.
  \<open>timer\<close> is what is left, in milliseconds, of the sleep, then of the deadline of \<open>shutCtx\<close>, which is
  one for the drain, the metrics server and the exporter; \<open>forced\<close> says that draining ran out of
  time, \<open>flushed\<close> that the exporter was waited for.\<close>

record process =
  phase :: phase
  shuttingDown :: bool
  listening :: bool
  connections :: nat
  requests :: nat
  timer :: nat
  forced :: bool
  cancelled :: bool
  workers :: "worker list"
  creators :: "topic option list"
  flushed :: bool
  kafkaOpen :: bool
  redisOpen :: bool

text \<open>The server has been started, and the goroutines of \<open>NewProducer\<close> and of \<open>main\<close>.\<close>

definition started :: process where
  "started = \<lparr>phase = Starting, shuttingDown = False, listening = True, connections = 0,
     requests = 0, timer = 0, forced = False, cancelled = False,
     workers = Reader (Run (Topic Creating)) # replicate 5 (Loop (Run Entering)),
     creators = [Some Creating, Some Creating], flushed = False, kafkaOpen = True, redisOpen = True\<rparr>"

text \<open>The process ends with nothing closed and nothing awaited.\<close>

definition exit_now :: "process \<Rightarrow> process" where
  "exit_now p = p\<lparr>phase := Exited, listening := False, connections := 0, requests := 0, workers := [],
     creators := []\<rparr>"

fun ended :: "worker \<Rightarrow> bool" where
  "ended (Reader x) = (x = Ended)"
| "ended (Loop x) = (x = Ended)"

inductive proc_step :: "bool \<Rightarrow> process \<Rightarrow> process \<Rightarrow> bool" for answers :: bool where
  notify: "phase p = Starting \<Longrightarrow> proc_step answers p (p\<lparr>phase := Serving\<rparr>)"
| killed: "phase p = Starting \<Longrightarrow> proc_step answers p (exit_now p)"
| listen_fails: "listening p \<Longrightarrow> proc_step answers p (exit_now p)"
| signal: "phase p = Serving \<Longrightarrow>
    proc_step answers p (p\<lparr>phase := ReadinessDown, shuttingDown := True, timer := 3000\<rparr>)"
| drain: "phase p = ReadinessDown \<Longrightarrow> timer p = 0 \<Longrightarrow>
    proc_step answers p (p\<lparr>phase := Draining, listening := False, timer := 20000\<rparr>)"
| drained: "phase p = Draining \<Longrightarrow> connections p = 0 \<Longrightarrow> requests p = 0 \<Longrightarrow>
    proc_step answers p (p\<lparr>phase := Cancelled, cancelled := True\<rparr>)"
| drain_timeout: "phase p = Draining \<Longrightarrow> timer p = 0 \<Longrightarrow>
    proc_step answers p (p\<lparr>phase := Cancelled, cancelled := True, forced := True, connections := 0\<rparr>)"
| loops_stopped: "phase p = Cancelled \<Longrightarrow> list_all ended (workers p) \<Longrightarrow>
    proc_step answers p (p\<lparr>phase := LoopsStopped\<rparr>)"
| metrics_closed: "phase p = LoopsStopped \<Longrightarrow> proc_step answers p (p\<lparr>phase := MetricsClosed\<rparr>)"
| traces_flushed: "phase p = MetricsClosed \<Longrightarrow> 0 < timer p \<Longrightarrow>
    proc_step answers p (p\<lparr>phase := TracerShut, flushed := True\<rparr>)"
| traces_given_up: "phase p = MetricsClosed \<Longrightarrow> proc_step answers p (p\<lparr>phase := TracerShut\<rparr>)"
| kafka_closed: "phase p = TracerShut \<Longrightarrow>
    proc_step answers p (p\<lparr>phase := KafkaClosed, kafkaOpen := False\<rparr>)"
| redis_closed: "phase p = KafkaClosed \<Longrightarrow>
    proc_step answers p (p\<lparr>phase := RedisClosed, redisOpen := False\<rparr>)"
| time_passes: "phase p \<in> {ReadinessDown, Draining, Cancelled, LoopsStopped, MetricsClosed} \<Longrightarrow>
    timer p = Suc n \<Longrightarrow> proc_step answers p (p\<lparr>timer := n\<rparr>)"
| connects: "listening p \<Longrightarrow> proc_step answers p (p\<lparr>connections := Suc (connections p)\<rparr>)"
| hangs_up: "phase p \<noteq> RedisClosed \<Longrightarrow> connections p = Suc n \<Longrightarrow>
    proc_step answers p (p\<lparr>connections := n\<rparr>)"
| asks: "phase p \<noteq> RedisClosed \<Longrightarrow> connections p = Suc n \<Longrightarrow>
    proc_step answers p (p\<lparr>connections := n, requests := Suc (requests p)\<rparr>)"
| answered: "phase p \<noteq> RedisClosed \<Longrightarrow> requests p = Suc n \<Longrightarrow> proc_step answers p (p\<lparr>requests := n\<rparr>)"
| answered_kept: "listening p \<Longrightarrow> requests p = Suc n \<Longrightarrow>
    proc_step answers p (p\<lparr>requests := n, connections := Suc (connections p)\<rparr>)"
| works: "phase p \<noteq> RedisClosed \<Longrightarrow> one_of (worker_step answers (cancelled p)) (workers p) ws \<Longrightarrow>
    proc_step answers p (p\<lparr>workers := ws\<rparr>)"
| creates: "phase p \<noteq> RedisClosed \<Longrightarrow> one_of (creator_step answers (cancelled p)) (creators p) ts \<Longrightarrow>
    proc_step answers p (p\<lparr>creators := ts\<rparr>)"

inductive proc_runs :: "bool \<Rightarrow> process \<Rightarrow> process \<Rightarrow> bool" for answers :: bool where
  halt: "proc_runs answers p p"
| go: "proc_runs answers p q \<Longrightarrow> proc_step answers q r \<Longrightarrow> proc_runs answers p r"

subsection \<open>What holds in every phase\<close>

fun stage :: "phase \<Rightarrow> nat" where
  "stage Starting = 0"
| "stage Serving = 1"
| "stage ReadinessDown = 2"
| "stage Draining = 3"
| "stage Cancelled = 4"
| "stage LoopsStopped = 5"
| "stage MetricsClosed = 6"
| "stage TracerShut = 7"
| "stage KafkaClosed = 8"
| "stage RedisClosed = 9"
| "stage Exited = 0"

definition orderly :: "process \<Rightarrow> bool" where
  "orderly p \<longleftrightarrow>
     (listening p \<longleftrightarrow> stage (phase p) < 3 \<and> phase p \<noteq> Exited) \<and>
     (cancelled p \<longleftrightarrow> 4 \<le> stage (phase p)) \<and> (kafkaOpen p \<longleftrightarrow> stage (phase p) < 8) \<and>
     (redisOpen p \<longleftrightarrow> stage (phase p) < 9) \<and> (2 \<le> stage (phase p) \<longrightarrow> shuttingDown p) \<and>
     (4 \<le> stage (phase p) \<longrightarrow> connections p = 0 \<and> (requests p = 0 \<or> forced p)) \<and>
     (5 \<le> stage (phase p) \<or> phase p = Exited \<longrightarrow> list_all ended (workers p)) \<and>
     (forced p \<longrightarrow> timer p = 0 \<and> 4 \<le> stage (phase p) \<and> \<not> flushed p) \<and>
     (flushed p \<longrightarrow> 7 \<le> stage (phase p)) \<and>
     (phase p = Exited \<longrightarrow> connections p = 0 \<and> requests p = 0 \<and> creators p = [])"

lemma ended_stays: "worker_step answers c x y \<Longrightarrow> \<not> ended x"
  by (cases x) (auto simp: worker_simps guard_simps)

lemma all_ended_stay: "one_of (worker_step answers c) xs ys \<Longrightarrow> \<not> list_all ended xs"
  by (induction rule: one_of.induct) (auto dest: ended_stays)

lemma no_one: "\<not> one_of step [] ys"
  by (auto elim: one_of.cases)

lemma orderly_started: "orderly started"
  by (simp add: orderly_def started_def)

lemma orderly_step:
  assumes "proc_step answers p q" and "orderly p"
  shows "orderly q"
  using assms
proof (induction rule: proc_step.induct)
  case (works p ws)
  then show ?case using all_ended_stay [OF works(2)] by (simp add: orderly_def)
next
  case (creates p ts)
  then show ?case using no_one [of _ ts] by (auto simp: orderly_def)
qed (simp_all add: orderly_def exit_now_def, (elim conjE; (metis | linarith | blast))+)

lemma orderly_runs: "proc_runs answers p q \<Longrightarrow> orderly p \<Longrightarrow> orderly q"
  by (induction rule: proc_runs.induct) (auto intro: orderly_step)

text \<open>C38. At no moment of the shutdown does \<open>main\<close> pull a resource away from under one of the goroutines
  that use it: once the Kafka writer or the Redis client is closed, the context is cancelled and the
  consumer and the five loops, which \<open>main\<close> awaits, have ended; no request can arrive any more; and
  a handler is still running only if draining ran out of time, in which case the exporter has not
  been waited for either, because it is given what is left of the deadline of the drain. The two
  goroutines that create the producer's topics are not awaited; they use neither resource.\<close>

theorem resources_outlive_their_users:
  assumes "proc_runs answers started p" and "\<not> kafkaOpen p \<or> \<not> redisOpen p"
  shows "shuttingDown p \<and> \<not> listening p \<and> connections p = 0 \<and> cancelled p \<and> list_all ended (workers p) \<and>
    (requests p = 0 \<or> forced p) \<and> (forced p \<longrightarrow> \<not> flushed p)"
proof -
  have "orderly p" using orderly_runs [OF assms(1) orderly_started] .
  with assms(2) show ?thesis by (auto simp: orderly_def)
qed

subsection \<open>Every loop can end once the context is cancelled\<close>

fun final :: "worker \<Rightarrow> worker" where
  "final (Reader x) = Reader Ended"
| "final (Loop x) = Loop Ended"

lemma ended_final [simp]: "ended (final x)"
  by (cases x) simp_all

lemma guard_path:
  fixes rank :: "'a \<Rightarrow> nat"
  assumes "\<And>x. \<exists>y. step x y \<and> (y = Returned \<or> (\<exists>z. y = Run z \<and> rank z < rank x))" and "finished"
  shows "(guard_step finished fn step)\<^sup>*\<^sup>* x Ended"
proof -
  let ?r = "guard_step finished fn step"
  have R: "?r\<^sup>*\<^sup>* Returned Ended" using guard_ends [OF assms(2)] by (rule r_into_rtranclp)
  have run: "?r\<^sup>*\<^sup>* (Run z) Ended" for z
  proof (induction "rank z" arbitrary: z rule: less_induct)
    case less
    obtain y where y: "step z y" "y = Returned \<or> (\<exists>u. y = Run u \<and> rank u < rank z)" using assms(1) by blast
    have "?r\<^sup>*\<^sup>* y Ended" using y(2) less R by blast
    with guard_runs [of step, OF y(1)] show ?case by (rule converse_rtranclp_into_rtranclp)
  qed
  show ?thesis
  proof (cases x)
    case Resting
    show ?thesis unfolding Resting by (rule converse_rtranclp_into_rtranclp [OF guard_restarts run])
  qed (use run R in simp_all)
qed

fun ticker_rank :: "ticker \<Rightarrow> nat" where
  "ticker_rank Entering = 3"
| "ticker_rank Selecting = 2"
| "ticker_rank Working = 3"

fun topic_rank :: "topic \<Rightarrow> nat" where
  "topic_rank Creating = 2"
| "topic_rank Retrying = 1"

fun consumer_rank :: "consumer \<Rightarrow> nat" where
  "consumer_rank (Topic t) = 2 + topic_rank t"
| "consumer_rank Fetching = 2"
| "consumer_rank Handling = 3"
| "consumer_rank Pausing = 3"

text \<open>Out of each state of a loop one can get nearer to the return, the call of \<open>tryCreateTopic\<close> only if the
  broker answers.\<close>

lemma ticker_towards_end:
  "\<exists>y. ticker_step True x y \<and> (y = Returned \<or> (\<exists>z. y = Run z \<and> ticker_rank z < ticker_rank x))"
  by (cases x) (force intro: ticker_made ctx_done round_done)+

lemma consumer_towards_end:
  assumes "answers \<or> x \<noteq> Topic Creating"
  shows "\<exists>y. consumer_step answers True x y \<and>
    (y = Returned \<or> (\<exists>z. y = Run z \<and> consumer_rank z < consumer_rank x))"
proof (cases x)
  case (Topic t)
  with assms have "topic_step answers True t None" by (cases t) (auto intro: topic_there topic_given_up)
  then have "consumer_step answers True x (Run Fetching)" unfolding Topic by (rule subscribed)
  then show ?thesis by (intro exI conjI disjI2) (simp_all add: Topic, cases t, simp_all)
qed (force intro: fetch_cancelled handled pause_over)+

lemma worker_path: "(worker_step True True)\<^sup>*\<^sup>* x (final x)"
proof (cases x)
  case (Reader y)
  have "(guard_step True (Topic Creating) (consumer_step True True))\<^sup>*\<^sup>* y Ended"
    by (rule guard_path [of _ consumer_rank]) (use consumer_towards_end in simp_all)
  then have "(worker_step True True)\<^sup>*\<^sup>* (Reader y) (Reader Ended)"
    by (induction rule: rtranclp_induct) (auto intro: rtranclp.rtrancl_into_rtrancl reader_step)
  then show ?thesis by (simp add: Reader)
next
  case (Loop y)
  have "(guard_step True Entering (ticker_step True))\<^sup>*\<^sup>* y Ended"
    by (rule guard_path [of _ ticker_rank]) (use ticker_towards_end in simp_all)
  then have "(worker_step True True)\<^sup>*\<^sup>* (Loop y) (Loop Ended)"
    by (induction rule: rtranclp_induct) (auto intro: rtranclp.rtrancl_into_rtrancl loop_step)
  then show ?thesis by (simp add: Loop)
qed

lemma this_path: "step\<^sup>*\<^sup>* x y \<Longrightarrow> (one_of step)\<^sup>*\<^sup>* (x # xs) (y # xs)"
  by (induction rule: rtranclp_induct) (auto intro: rtranclp.rtrancl_into_rtrancl this_one)

lemma another_path: "(one_of step)\<^sup>*\<^sup>* xs ys \<Longrightarrow> (one_of step)\<^sup>*\<^sup>* (x # xs) (x # ys)"
  by (induction rule: rtranclp_induct) (auto intro: rtranclp.rtrancl_into_rtrancl another)

lemma workers_path: "(one_of (worker_step True True))\<^sup>*\<^sup>* xs (map final xs)"
proof (induction xs)
  case (Cons x xs)
  have "(one_of (worker_step True True))\<^sup>*\<^sup>* (x # xs) (final x # xs)" by (rule this_path [OF worker_path])
  also have "(one_of (worker_step True True))\<^sup>*\<^sup>* (final x # xs) (final x # map final xs)"
    by (rule another_path [OF Cons])
  finally show ?case by simp
qed simp

lemma loops_end:
  assumes "proc_runs True q p" and "phase p \<noteq> RedisClosed" and "cancelled p"
  shows "proc_runs True q (p\<lparr>workers := map final (workers p)\<rparr>)"
proof -
  have "proc_runs True q (p\<lparr>workers := ws\<rparr>)" if "(one_of (worker_step True True))\<^sup>*\<^sup>* (workers p) ws" for ws
    using that
  proof (induction rule: rtranclp_induct)
    case base
    have "p\<lparr>workers := workers p\<rparr> = p" by simp
    with assms(1) show ?case by (simp only:)
  next
    case (step ys zs)
    from go [OF step(3) works] assms(2,3) step(2) show ?case by simp
  qed
  then show ?thesis using workers_path by blast
qed

text \<open>A run without a request, from the signal to the end, in which the exporter is waited for.\<close>

definition calm_end :: process where
  "calm_end = started\<lparr>phase := RedisClosed, shuttingDown := True, listening := False, timer := 20000,
     cancelled := True, workers := map final (workers started), flushed := True, kafkaOpen := False,
     redisOpen := False\<rparr>"

lemma timer_runs_out:
  assumes "phase p \<in> {ReadinessDown, Draining, Cancelled, LoopsStopped, MetricsClosed}"
  shows "proc_runs answers q p \<Longrightarrow> timer p = n \<Longrightarrow> proc_runs answers q (p\<lparr>timer := 0\<rparr>)"
  using assms
proof (induction n arbitrary: p)
  case 0
  then have "p\<lparr>timer := 0\<rparr> = p" by (cases p) simp
  with 0(1) show ?case by (simp only:)
next
  case (Suc n)
  have "proc_runs answers q (p\<lparr>timer := n\<rparr>)"
    using Suc.prems by (blast intro: go time_passes)
  from Suc.IH [OF this] Suc.prems show ?case by simp
qed

text \<open>From the signal to the drain, whatever requests are being handled.\<close>

lemma drain_begins:
  assumes "proc_runs answers q p" and "phase p = Serving"
  shows "proc_runs answers q (p\<lparr>phase := Draining, shuttingDown := True, listening := False, timer := 20000\<rparr>)"
proof -
  let ?p1 = "p\<lparr>phase := ReadinessDown, shuttingDown := True, timer := 3000\<rparr>"
  have "proc_runs answers q ?p1" by (rule go [OF assms(1) signal [OF assms(2)]])
  from timer_runs_out [OF _ this refl] have "proc_runs answers q (?p1\<lparr>timer := 0\<rparr>)" by simp
  from go [OF this drain] show ?thesis by (cases p) simp
qed

lemma serving_run: "proc_runs answers started (started\<lparr>phase := Serving\<rparr>)"
  by (rule go [OF halt notify]) (simp add: started_def)

definition calm_cancelled :: process where
  "calm_cancelled = started\<lparr>phase := Cancelled, shuttingDown := True, listening := False, timer := 20000,
     cancelled := True\<rparr>"

lemma calm_cancelled_runs: "proc_runs answers started calm_cancelled"
proof -
  have "proc_runs answers started
      (started\<lparr>phase := Draining, shuttingDown := True, listening := False, timer := 20000\<rparr>)"
    using drain_begins [OF serving_run] by simp
  from go [OF this drained] show ?thesis by (simp add: calm_cancelled_def started_def)
qed

lemma calm_end_runs: "proc_runs True started calm_end"
proof -
  have 4: "proc_runs True started (calm_cancelled\<lparr>workers := map final (workers calm_cancelled)\<rparr>)"
    by (rule loops_end [OF calm_cancelled_runs]) (simp_all add: calm_cancelled_def)
  have 5: "proc_runs True started (calm_cancelled\<lparr>workers := map final (workers calm_cancelled), phase := LoopsStopped\<rparr>)"
    using go [OF 4 loops_stopped] by (simp add: calm_cancelled_def list_all_iff)
  note 6 = go [OF 5 metrics_closed, simplified]
  note 7 = go [OF 6 traces_flushed, simplified]
  have 8: "proc_runs True started (calm_cancelled\<lparr>workers := map final (workers calm_cancelled),
      phase := TracerShut, flushed := True\<rparr>)"
    using 7 by (simp add: calm_cancelled_def)
  note 9 = go [OF go [OF 8 kafka_closed, simplified] redis_closed, simplified]
  then show ?thesis by (simp add: calm_end_def calm_cancelled_def started_def)
qed

lemma resources_outlive_their_users_witness:
  "list_all ended (workers calm_end) \<and> requests calm_end = 0 \<and> Some Creating \<in> set (creators calm_end)"
  using resources_outlive_their_users [OF calm_end_runs] by (simp add: calm_end_def started_def)

subsection \<open>The shutdown comes to an end\<close>

text \<open>How many steps a goroutine has before it at most, if it takes up nothing more.\<close>

fun guard_rank :: "('a \<Rightarrow> nat) \<Rightarrow> 'a guarded \<Rightarrow> nat" where
  "guard_rank r (Run x) = r x"
| "guard_rank r Returned = 1"
| "guard_rank r Resting = 5"
| "guard_rank r Ended = 0"

fun worker_rank :: "worker \<Rightarrow> nat" where
  "worker_rank (Reader x) = guard_rank consumer_rank x"
| "worker_rank (Loop x) = guard_rank ticker_rank x"

fun creator_rank :: "topic option \<Rightarrow> nat" where
  "creator_rank None = 0"
| "creator_rank (Some t) = topic_rank t"

definition work_left :: "process \<Rightarrow> nat" where
  "work_left p = 2 * connections p + requests p + timer p + (9 - stage (phase p)) +
     sum_list (map worker_rank (workers p)) + sum_list (map creator_rank (creators p))"

text \<open>Goroutines in a round, a call or about to begin one. Once the context is cancelled a step that
  makes them more is one that takes up another round: a tick, a message or a further try at a topic
  that the \<open>select\<close> or the reader took although the context was done.\<close>

fun ticker_busy :: "ticker \<Rightarrow> nat" where
  "ticker_busy Selecting = 0"
| "ticker_busy _ = 1"

fun topic_busy :: "topic \<Rightarrow> nat" where
  "topic_busy Creating = 1"
| "topic_busy Retrying = 0"

fun consumer_busy :: "consumer \<Rightarrow> nat" where
  "consumer_busy (Topic t) = topic_busy t"
| "consumer_busy Handling = 1"
| "consumer_busy _ = 0"

fun guard_busy :: "('a \<Rightarrow> nat) \<Rightarrow> 'a guarded \<Rightarrow> nat" where
  "guard_busy b (Run x) = b x"
| "guard_busy b Resting = 1"
| "guard_busy b _ = 0"

fun worker_busy :: "worker \<Rightarrow> nat" where
  "worker_busy (Reader x) = guard_busy consumer_busy x"
| "worker_busy (Loop x) = guard_busy ticker_busy x"

fun creator_busy :: "topic option \<Rightarrow> nat" where
  "creator_busy None = 0"
| "creator_busy (Some t) = topic_busy t"

definition busy :: "process \<Rightarrow> nat" where
  "busy p = sum_list (map worker_busy (workers p)) + sum_list (map creator_busy (creators p))"

text \<open>The steps that need not come: whatever the goroutines do before the context is cancelled, and
  after it the taking up of another round.\<close>

definition extra :: "process \<Rightarrow> process \<Rightarrow> bool" where
  "extra p q \<longleftrightarrow>
     (if cancelled p then busy p < busy q else workers q \<noteq> workers p \<or> creators q \<noteq> creators p)"

lemma topic_towards_end:
  "topic_step answers c t u \<Longrightarrow>
     (c \<and> creator_busy u \<le> topic_busy t \<longrightarrow> creator_rank u < topic_rank t) \<and> creator_rank u \<le> topic_rank t + 1"
  by (auto elim!: topic_stepE)

lemma creator_down:
  "creator_step answers c x y \<Longrightarrow>
     (c \<and> creator_busy y \<le> creator_busy x \<longrightarrow> creator_rank y < creator_rank x) \<and>
     creator_rank y \<le> creator_rank x + 4 \<and> x \<noteq> y"
  by (cases x) (fastforce simp: creator_simps elim: topic_stepE)+

lemma worker_down:
  "worker_step answers c x y \<Longrightarrow>
     (c \<and> worker_busy y \<le> worker_busy x \<longrightarrow> worker_rank y < worker_rank x) \<and>
     worker_rank y \<le> worker_rank x + 4 \<and> x \<noteq> y"
  by (auto elim!: worker_stepE guard_step.cases ticker_stepE consumer_stepE topic_stepE)

lemma one_of_down:
  fixes r b :: "'a \<Rightarrow> nat"
  assumes "\<And>x y. step x y \<Longrightarrow> (c \<and> b y \<le> b x \<longrightarrow> r y < r x) \<and> r y \<le> r x + 4 \<and> x \<noteq> y"
  shows "one_of step xs ys \<Longrightarrow>
    (c \<and> sum_list (map b ys) \<le> sum_list (map b xs) \<longrightarrow> sum_list (map r ys) < sum_list (map r xs)) \<and>
    sum_list (map r ys) \<le> sum_list (map r xs) + 4 \<and> xs \<noteq> ys"
  by (induction rule: one_of.induct) (use assms in fastforce)+

lemma work_goes_down:
  assumes "proc_step answers p q" and "orderly p" and "\<not> listening p"
  shows "(\<not> extra p q \<longrightarrow> work_left q < work_left p) \<and> work_left q \<le> work_left p + 4"
  using assms
proof (induction rule: proc_step.induct)
  case (works p ws)
  from one_of_down [OF worker_down works(2)] show ?case
    by (auto simp: extra_def busy_def work_left_def not_less)
next
  case (creates p ts)
  from one_of_down [OF creator_down creates(2)] show ?case
    by (auto simp: extra_def busy_def work_left_def not_less)
qed (auto simp: orderly_def work_left_def)

lemma listener_stays_closed: "proc_step answers p q \<Longrightarrow> \<not> listening p \<Longrightarrow> \<not> listening q"
  by (induction rule: proc_step.induct) (simp_all add: exit_now_def)

lemma course_is_bounded:
  assumes "orderly (f 0)" and "\<not> listening (f 0)" and "\<forall>i<n. proc_step answers (f i) (f (Suc i))"
  shows "n + work_left (f n) \<le> work_left (f 0) + 5 * card {i. i < n \<and> extra (f i) (f (Suc i))}"
proof -
  have "k \<le> n \<Longrightarrow> orderly (f k) \<and> \<not> listening (f k) \<and>
    k + work_left (f k) \<le> work_left (f 0) + 5 * card {i. i < k \<and> extra (f i) (f (Suc i))}" for k
  proof (induction k)
    case 0
    with assms show ?case by simp
  next
    case (Suc k)
    then have step: "proc_step answers (f k) (f (Suc k))" and IH: "orderly (f k)" "\<not> listening (f k)"
      "k + work_left (f k) \<le> work_left (f 0) + 5 * card {i. i < k \<and> extra (f i) (f (Suc i))}"
      using assms(3) by simp_all
    have "{i. i < Suc k \<and> extra (f i) (f (Suc i))} =
        (if extra (f k) (f (Suc k)) then insert k else id) {i. i < k \<and> extra (f i) (f (Suc i))}"
      by (auto simp: less_Suc_eq)
    then have "card {i. i < Suc k \<and> extra (f i) (f (Suc i))} =
        card {i. i < k \<and> extra (f i) (f (Suc i))} + (if extra (f k) (f (Suc k)) then 1 else 0)"
      by simp
    with work_goes_down [OF step IH(1,2)] IH(3) orderly_step [OF step IH(1)]
      listener_stays_closed [OF step IH(2)]
    show ?case by (auto split: if_splits)
  qed
  then show ?thesis by simp
qed

text \<open>A goroutine that has not ended can go on without taking up anything, unless it waits for an
  answer of the broker.\<close>

lemma guard_goes_on:
  assumes "x \<noteq> Ended"
    and "\<And>z. x = Run z \<Longrightarrow> \<exists>y. step z y \<and> guard_busy b y \<le> b z" and "b fn \<le> 1" and "finished"
  shows "\<exists>y. guard_step finished fn step x y \<and> guard_busy b y \<le> guard_busy b x"
proof (cases x)
  case (Run z)
  with assms(2) show ?thesis using guard_runs [of step] by fastforce
qed (use assms in \<open>auto simp: guard_simps\<close>)

lemma worker_goes_on:
  assumes "\<not> ended x" and "answers \<or> x \<noteq> Reader (Run (Topic Creating))"
  shows "\<exists>y. worker_step answers True x y \<and> worker_busy y \<le> worker_busy x"
proof (cases x)
  case (Reader g)
  have "\<exists>y. consumer_step answers True z y \<and> guard_busy consumer_busy y \<le> consumer_busy z" if "g = Run z" for z
  proof (cases z)
    case (Topic t)
    with assms that Reader have "topic_step answers True t None"
      by (cases t) (auto intro: topic_there topic_given_up)
    from subscribed [OF this] show ?thesis by (intro exI [of _ "Run Fetching"]) (simp add: Topic)
  qed (force intro: fetch_cancelled handled pause_over)+
  with assms(1) have "\<exists>y. guard_step True (Topic Creating) (consumer_step answers True) g y \<and>
      guard_busy consumer_busy y \<le> guard_busy consumer_busy g"
    by (intro guard_goes_on) (simp_all add: Reader)
  then show ?thesis by (auto simp: Reader intro: reader_step)
next
  case (Loop g)
  have "\<exists>y. ticker_step True z y \<and> guard_busy ticker_busy y \<le> ticker_busy z" if "g = Run z" for z
    by (cases z) (force intro: ticker_made ctx_done round_done)+
  with assms(1) have "\<exists>y. guard_step True Entering (ticker_step True) g y \<and>
      guard_busy ticker_busy y \<le> guard_busy ticker_busy g"
    by (intro guard_goes_on) (simp_all add: Loop)
  then show ?thesis by (auto simp: Loop intro: loop_step)
qed

lemma one_goes_on:
  fixes b :: "'a \<Rightarrow> nat"
  assumes "step x y" and "b y \<le> b x"
  shows "x \<in> set xs \<Longrightarrow> \<exists>ys. one_of step xs ys \<and> sum_list (map b ys) \<le> sum_list (map b xs)"
proof (induction xs)
  case (Cons z xs)
  show ?case
  proof (cases "z = x")
    case True
    with this_one [of step, OF assms(1)] assms(2) show ?thesis by (intro exI [of _ "y # xs"]) simp
  next
    case False
    with Cons obtain ys where "one_of step xs ys" "sum_list (map b ys) \<le> sum_list (map b xs)" by auto
    then show ?thesis by (intro exI [of _ "z # ys"]) (simp add: another)
  qed
qed simp

lemma main_goes_on:
  assumes "orderly p" and "\<not> listening p" and "phase p \<notin> {RedisClosed, Exited}"
    and "answers \<or> Reader (Run (Topic Creating)) \<notin> set (workers p)"
  shows "\<exists>q. proc_step answers p q \<and> \<not> extra p q"
proof -
  have main: "\<exists>q. proc_step answers p q \<and> \<not> extra p q"
    if "proc_step answers p q" "workers q = workers p" "creators q = creators p" for q
    using that by (intro exI [of _ q]) (simp add: extra_def busy_def)
  show ?thesis
  proof (cases "phase p")
    case Draining
    show ?thesis
    proof (cases "timer p")
      case 0
      from main [OF drain_timeout [OF Draining this]] show ?thesis by simp
    next
      case (Suc n)
      from main [OF time_passes [OF _ Suc]] Draining show ?thesis by simp
    qed
  next
    case Cancelled
    show ?thesis
    proof (cases "list_all ended (workers p)")
      case True
      from main [OF loops_stopped [OF Cancelled this]] show ?thesis by simp
    next
      case False
      then obtain x where x: "x \<in> set (workers p)" "\<not> ended x" by (auto simp: list_all_iff)
      with assms(4) obtain y where "worker_step answers True x y" "worker_busy y \<le> worker_busy x"
        using worker_goes_on [of x answers] by blast
      from one_goes_on [of "worker_step answers True", OF this x(1)] obtain ws
        where ws: "one_of (worker_step answers True) (workers p) ws"
          "sum_list (map worker_busy ws) \<le> sum_list (map worker_busy (workers p))" by blast
      have "cancelled p" using assms(1) Cancelled by (simp add: orderly_def)
      with ws Cancelled works [of p answers ws] show ?thesis
        by (intro exI [of _ "p\<lparr>workers := ws\<rparr>"]) (simp add: extra_def busy_def)
    qed
  next
    case LoopsStopped
    from main [OF metrics_closed [OF this]] show ?thesis by simp
  next
    case MetricsClosed
    from main [OF traces_given_up [OF this]] show ?thesis by simp
  next
    case TracerShut
    from main [OF kafka_closed [OF this]] show ?thesis by simp
  next
    case KafkaClosed
    from main [OF redis_closed [OF this]] show ?thesis by simp
  qed (use assms in \<open>auto simp: orderly_def\<close>)
qed

text \<open>A consumer that waits for a broker that does not answer stays where it is.\<close>

lemma stuck_stays:
  "one_of step xs ys \<Longrightarrow> (\<And>y. \<not> step x y) \<Longrightarrow> x \<in> set xs \<Longrightarrow> x \<in> set ys"
  by (induction rule: one_of.induct) auto

lemma creating_is_stuck: "\<not> worker_step False c (Reader (Run (Topic Creating))) y"
  by (auto simp: worker_simps guard_simps elim!: consumer_stepE topic_stepE)

definition hangs :: "process \<Rightarrow> bool" where
  "hangs p \<longleftrightarrow> phase p = Cancelled \<and> Reader (Run (Topic Creating)) \<in> set (workers p)"

lemma hangs_step:
  assumes "proc_step False p q" and "hangs p" and "\<not> listening p"
  shows "hangs q \<and> \<not> listening q"
  using assms
proof (induction rule: proc_step.induct)
  case (works p ws)
  from stuck_stays [OF works(2) creating_is_stuck] works show ?case by (simp add: hangs_def)
next
  case (loops_stopped p)
  then have "ended (Reader (Run (Topic Creating)))" by (auto simp: hangs_def list_all_iff)
  then show ?case by simp
qed (simp_all add: hangs_def)

lemma hangs_runs: "proc_runs False p q \<Longrightarrow> hangs p \<Longrightarrow> \<not> listening p \<Longrightarrow> hangs q \<and> \<not> listening q"
  by (induction rule: proc_runs.induct) (auto dest: hangs_step)

text \<open>C39. Once draining has begun, and as long as the broker answers the calls that create topics, the
  process can always go on to its end without a loop taking up another round, and no course of
  events is longer than the work that is left and five steps for each round that was taken up
  all the same. If the broker takes the connection of the consumer's \<open>tryCreateTopic\<close> and does not
  answer, the shutdown stops at \<open>wg.Wait\<close>: neither Kafka nor Redis is closed.\<close>

theorem shutdown_terminates:
  assumes "proc_runs answers started p" and "\<not> listening p"
  shows "(answers \<and> phase p \<notin> {RedisClosed, Exited} \<longrightarrow> (\<exists>q. proc_step answers p q \<and> \<not> extra p q)) \<and>
    (\<forall>f n. f 0 = p \<and> (\<forall>i<n. proc_step answers (f i) (f (Suc i))) \<longrightarrow>
       n \<le> work_left p + 5 * card {i. i < n \<and> extra (f i) (f (Suc i))}) \<and>
    (\<not> answers \<and> hangs p \<longrightarrow> (\<forall>q. proc_runs answers p q \<longrightarrow> hangs q \<and> kafkaOpen q \<and> redisOpen q))"
proof (intro conjI impI allI)
  have ord: "orderly p" using orderly_runs [OF assms(1) orderly_started] .
  { assume "answers \<and> phase p \<notin> {RedisClosed, Exited}"
    then show "\<exists>q. proc_step answers p q \<and> \<not> extra p q" using main_goes_on [OF ord assms(2)] by blast }
  { fix f n
    assume "f 0 = p \<and> (\<forall>i<n. proc_step answers (f i) (f (Suc i)))"
    with course_is_bounded [of f n answers] ord assms(2)
    show "n \<le> work_left p + 5 * card {i. i < n \<and> extra (f i) (f (Suc i))}" by simp }
  fix q
  assume h: "\<not> answers \<and> hangs p" and run: "proc_runs answers p q"
  with hangs_runs [of p q] assms(2) show "hangs q" by simp
  with orderly_runs [OF run ord] show "kafkaOpen q" "redisOpen q" by (simp_all add: hangs_def orderly_def)
qed

lemma shutdown_terminates_witness:
  "(\<exists>q. proc_step True calm_cancelled q \<and> \<not> extra calm_cancelled q) \<and>
   \<not> (\<exists>q. proc_runs False calm_cancelled q \<and> \<not> redisOpen q)"
proof -
  have "\<not> listening calm_cancelled" "phase calm_cancelled \<notin> {RedisClosed, Exited}" "hangs calm_cancelled"
    by (simp_all add: calm_cancelled_def hangs_def started_def)
  then show ?thesis
    using shutdown_terminates [OF calm_cancelled_runs, of True] shutdown_terminates [OF calm_cancelled_runs, of False]
    by blast
qed

subsection \<open>When draining runs out of time\<close>

text \<open>Closing the server by force does not end its handlers: a request that outlasts the twenty
  seconds can still be running when Kafka and Redis are closed under it, and the spans of the end
  have not been waited for.\<close>

lemma forced_close_leaves_a_handler:
  "\<exists>p. proc_runs True started p \<and> forced p \<and> requests p = 1 \<and> \<not> kafkaOpen p \<and> \<not> redisOpen p \<and> \<not> flushed p"
proof -
  let ?p0 = "started\<lparr>phase := Serving, connections := 1\<rparr>"
  let ?p1 = "started\<lparr>phase := Serving, requests := 1\<rparr>"
  let ?p3 = "?p1\<lparr>phase := Draining, shuttingDown := True, listening := False, timer := 20000\<rparr>"
  let ?p4 = "?p3\<lparr>phase := Cancelled, cancelled := True, timer := 0, forced := True, connections := 0\<rparr>"
  have 0: "proc_runs True started ?p0"
    using go [OF serving_run connects] by (simp add: started_def)
  have 1: "proc_runs True started ?p1"
    using go [OF 0 asks, of 0] by (simp add: started_def)
  have 2: "proc_runs True started ?p3" using drain_begins [OF 1] by simp
  have 3: "proc_runs True started (?p3\<lparr>timer := 0\<rparr>)"
    by (rule timer_runs_out [OF _ 2 refl]) simp
  have 4: "proc_runs True started ?p4" using go [OF 3 drain_timeout] by (simp add: started_def)
  have 5: "proc_runs True started (?p4\<lparr>workers := map final (workers ?p4)\<rparr>)"
    by (rule loops_end [OF 4]) simp_all
  have 6: "proc_runs True started (?p4\<lparr>workers := map final (workers ?p4), phase := LoopsStopped\<rparr>)"
    using go [OF 5 loops_stopped] by (simp add: list_all_iff)
  note 7 = go [OF 6 metrics_closed, simplified]
  note 8 = go [OF 7 traces_given_up, simplified]
  note 9 = go [OF 8 kafka_closed, simplified]
  show ?thesis by (intro exI conjI, rule go [OF 9 redis_closed, simplified]) (simp_all add: started_def)
qed

text \<open>A listener that fails while requests are handled ends the process with none of this done.\<close>

lemma failed_listener_skips_the_shutdown:
  assumes "proc_runs answers started p" and "phase p = Exited"
  shows "kafkaOpen p \<and> redisOpen p \<and> \<not> cancelled p \<and> \<not> flushed p \<and> requests p = 0"
  using orderly_runs [OF assms(1) orderly_started] assms(2) by (auto simp: orderly_def)

end
