(* ===== verification/Http.thy ===== *)
theory Http
  imports System Runtime
begin

section \<open>A request through the server (main.go, handler/admission.go, metrics/prom.go)\<close>

text \<open>
  From the request as it arrives to the response: the chain of middleware \<open>main\<close> registers, the
  routes of the two \<open>Register\<close> methods, and the handlers behind them. gin and \<open>encoding/json\<close> are
  the record \<open>gin\<close>: the fields a body decodes to, and the statuses gin itself writes for a panic
  and for a path without a route; and the redirect gin answers by default when only the trailing
  slash keeps a path from a route (\<open>redirected\<close>). The middleware's stopwatch runs on the monotonic clock, in
  nanoseconds.
\<close>

record http_request =
  rqMethod :: string
  rqPath :: string
  rqQuery :: "string \<Rightarrow> string"
  rqHeader :: "string \<Rightarrow> string"
  rqBody :: string
  rqRemote :: string
  rqSampled :: bool
  rqTraceID :: string

record gin =
  decodeJSON :: "string \<Rightarrow> body"
  recoveredStatus :: int
  noRouteStatus :: int

text \<open>What a handler did: it answered, or it panicked.\<close>

datatype outcome = Wrote response | Panics

text \<open>The histogram of requests (path, status, seconds and exemplar of each observation), the request
  log (method, path, status, milliseconds, client), the monotonic clock and how far it moves
  after each reading; an exhausted list means that no time passes.\<close>

record observed =
  httpDuration :: "(string \<times> int \<times> rat \<times> string option) list"
  requestLog :: "(string \<times> string \<times> int \<times> int \<times> string) list"
  stopwatch :: int
  delays :: "nat list"

definition reading :: "observed \<Rightarrow> int \<times> observed" where
  "reading h = (stopwatch h,
     h\<lparr>stopwatch := stopwatch h + (case delays h of [] \<Rightarrow> 0 | d # _ \<Rightarrow> int d), delays := tl (delays h)\<rparr>)"

text \<open>\<open>time.Since\<close>, and \<open>Duration.Milliseconds\<close> of what it gives.\<close>

definition since :: "int \<Rightarrow> observed \<Rightarrow> int \<times> observed" where
  "since start h = (case reading h of (t, h) \<Rightarrow> (t - start, h))"

definition Milliseconds :: "int \<Rightarrow> int" where
  "Milliseconds d = sgn d * (\<bar>d\<bar> div 1000000)"

definition maxRequestBodyBytes :: nat where "maxRequestBodyBytes = 16 * 1024"

subsection \<open>The routes\<close>

text \<open>\<open>Health.Register\<close> and \<open>Admission.Register\<close>.\<close>

definition all_routes :: "Admission \<Rightarrow> (string \<times> string) list" where
  "all_routes a = [(''GET'', ''/health/live''), (''GET'', ''/health/ready'')] @ routes a"

definition FullPath :: "Admission \<Rightarrow> http_request \<Rightarrow> string" where
  "FullPath a rq = (if (rqMethod rq, rqPath rq) \<in> set (all_routes a) then rqPath rq else [])"

text \<open>\<open>gin.New\<close> leaves \<open>RedirectTrailingSlash\<close> on: a path that would have a route for this method with
  one slash more or less at its end is redirected there, by gin itself before any middleware, with
  301 for GET and 307 for other methods.\<close>

definition other_slash :: "string \<Rightarrow> string" where
  "other_slash path = (if path \<noteq> [] \<and> last path = CHR ''/'' then butlast path else path @ ''/'')"

definition redirected :: "Admission \<Rightarrow> http_request \<Rightarrow> int option" where
  "redirected a rq =
     (if (rqMethod rq, rqPath rq) \<in> set (all_routes a) \<or> rqMethod rq = ''CONNECT'' \<or> rqPath rq = ''/''
      then None
      else if (rqMethod rq, other_slash (rqPath rq)) \<in> set (all_routes a)
      then Some (if rqMethod rq = ''GET'' then 301 else 307)
      else None)"

text \<open>The handlers under their routes, on the rate cache and the world.\<close>

definition dispatch ::
  "'db redis \<Rightarrow> gin \<Rightarrow> Config \<Rightarrow> bool \<Rightarrow> http_request \<Rightarrow> rate_cache \<times> 'db world \<Rightarrow>
   response \<times> rate_cache \<times> 'db world"
where
  "dispatch R G cfg down rq s =
     (case s of (c, w) \<Rightarrow>
      let a = admission_of cfg; path = FullPath a rq; b = decodeJSON G (rqBody rq);
          keep = (\<lambda>(resp, w). (resp, c, w)) in
      if path = ''/health/live'' then (live, c, w)
      else if path = ''/health/ready'' then keep (ready down w)
      else if path = ''/api/admission/enter'' then keep (enter_handler R a (Some PublishAdmission) b w)
      else if path = ''/api/admission/position''
      then position_handler R a (rqQuery rq ''movieId'') (rqQuery rq ''requestId'') c w
      else if path = ''/api/admission/stats'' then stats_handler R a (rqQuery rq ''movieId'') c w
      else if path = ''/api/admission/events''
      then keep (events_handler R (rqQuery rq ''movieId'') (rqQuery rq ''after'') w)
      else if path = ''/api/admission/leave'' then keep (leave_handler R b w)
      else if path = ''/api/admission/complete'' then keep (complete_handler R b w)
      else if path = ''/api/admission/reset''
      then keep (reset_handler R a (rqHeader rq ''X-Admin-Token'') b w)
      else (JSON (noRouteStatus G) [], c, w))"

subsection \<open>The middleware\<close>

text \<open>The body limit: a reader that fails behind the first 16 KiB, so that only a value that ends
  within them can be decoded.\<close>

definition limit_body :: "http_request \<Rightarrow> http_request" where
  "limit_body rq = rq\<lparr>rqBody := take maxRequestBodyBytes (rqBody rq)\<rparr>"

definition log_request :: "Admission \<Rightarrow> http_request \<Rightarrow> int \<Rightarrow> outcome \<Rightarrow> observed \<Rightarrow> observed" where
  "log_request a rq start out h =
     (case out of
        Panics \<Rightarrow> h
      | Wrote resp \<Rightarrow>
          if FullPath a rq \<noteq> []
          then (case since start h of (d, h) \<Rightarrow>
                  h\<lparr>requestLog := requestLog h @ [(rqMethod rq, FullPath a rq, rsStatus resp, Milliseconds d,
                      clientIP (rqHeader rq ''CF-Connecting-IP'') (rqRemote rq))]\<rparr>)
          else h)"

text \<open>\<open>gin.Recovery\<close>.\<close>

definition recover :: "gin \<Rightarrow> outcome \<Rightarrow> response" where
  "recover G out = (case out of Wrote resp \<Rightarrow> resp | Panics \<Rightarrow> JSON (recoveredStatus G) [])"

definition GinMiddleware :: "Admission \<Rightarrow> http_request \<Rightarrow> int \<Rightarrow> response \<Rightarrow> observed \<Rightarrow> observed" where
  "GinMiddleware a rq start resp h =
     (let path = (if FullPath a rq = [] then ''unmatched'' else FullPath a rq) in
      case since start h of (d, h) \<Rightarrow>
        h\<lparr>httpDuration := httpDuration h @
            [(path, rsStatus resp, Seconds d, if rqSampled rq then Some (rqTraceID rq) else None)]\<rparr>)"

text \<open>The chain around a handler \<open>next\<close>, in the order of the calls of \<open>Use\<close>: the metrics, the
  recovery, the body limit, the log. The metrics and the log start their stopwatches on the way in.\<close>

definition chain ::
  "gin \<Rightarrow> Admission \<Rightarrow> (http_request \<Rightarrow> 's \<Rightarrow> outcome \<times> 's) \<Rightarrow> http_request \<Rightarrow> 's \<times> observed \<Rightarrow>
   response \<times> 's \<times> observed"
where
  "chain G a nxt rq sh =
     (case sh of (s, h) \<Rightarrow>
      case reading h of (metricsStart, h) \<Rightarrow>
      case reading h of (logStart, h) \<Rightarrow>
      case nxt (limit_body rq) s of (out, s) \<Rightarrow>
      let h = log_request a rq logStart out h; resp = recover G out
      in (resp, s, GinMiddleware a rq metricsStart resp h))"

definition serve ::
  "'db redis \<Rightarrow> gin \<Rightarrow> Config \<Rightarrow> bool \<Rightarrow> http_request \<Rightarrow> (rate_cache \<times> 'db world) \<times> observed \<Rightarrow>
   response \<times> (rate_cache \<times> 'db world) \<times> observed"
where
  "serve R G cfg down rq s =
     (case redirected (admission_of cfg) rq of
        Some code \<Rightarrow> (JSON code [], s)
      | None \<Rightarrow>
          chain G (admission_of cfg) (\<lambda>rq s. apfst Wrote (dispatch R G cfg down rq s)) rq s)"

text \<open>A session: requests one after the other.\<close>

fun serve_all ::
  "'db redis \<Rightarrow> gin \<Rightarrow> Config \<Rightarrow> bool \<Rightarrow> http_request list \<Rightarrow> (rate_cache \<times> 'db world) \<times> observed \<Rightarrow>
   response list \<times> (rate_cache \<times> 'db world) \<times> observed"
where
  "serve_all R G cfg down [] s = ([], s)"
| "serve_all R G cfg down (rq # rqs) s =
     (case serve R G cfg down rq s of (resp, s) \<Rightarrow>
      case serve_all R G cfg down rqs s of (resps, s) \<Rightarrow> (resp # resps, s))"

subsection \<open>Every request is a step of the pod\<close>

lemmas request_steps = on_enter on_position on_stats on_events on_leave on_complete on_reset on_ready

lemma dispatch_step:
  "snd (snd (dispatch R G cfg down rq (c, w))) = w \<or>
   pod_step R cfg w (snd (snd (dispatch R G cfg down rq (c, w))))"
  by (simp add: dispatch_def Let_def split_beta request_steps)

lemma serve_fields:
  "redirected (admission_of cfg) rq = None \<Longrightarrow> snd (fst (snd (serve R G cfg down rq s))) =
   snd (snd (dispatch R G cfg down (limit_body rq) (fst s)))"
  by (simp add: serve_def chain_def split_beta Let_def apfst_def map_prod_def)

lemma serve_run:
  assumes "pod_runs R cfg w0 (snd (fst s))"
  shows "pod_runs R cfg w0 (snd (fst (snd (serve R G cfg down rq s))))"
proof (cases "redirected (admission_of cfg) rq")
  case None
  then show ?thesis
    using dispatch_step [of R G cfg down "limit_body rq" "fst (fst s)" "snd (fst s)"] pod_next [OF assms] assms
    by (auto simp: serve_fields)
next
  case (Some code)
  with assms show ?thesis by (simp add: serve_def)
qed

lemma serve_all_run:
  "pod_runs R cfg w0 (snd (fst s)) \<Longrightarrow> pod_runs R cfg w0 (snd (fst (snd (serve_all R G cfg down rqs s))))"
  by (induction rqs arbitrary: s) (simp_all add: split_beta serve_run)

subsection \<open>Every request is counted, under a bounded set of labels\<close>

definition path_labels :: "Admission \<Rightarrow> string set" where
  "path_labels a = insert ''unmatched'' (snd ` set (all_routes a))"

lemma FullPath_label: "FullPath a rq \<noteq> [] \<Longrightarrow> FullPath a rq \<in> path_labels a"
  by (auto simp: FullPath_def path_labels_def image_iff intro: rev_bexI split: if_splits)

lemma reading_fields [simp]:
  "fst (reading h) = stopwatch h" "httpDuration (snd (reading h)) = httpDuration h"
  "requestLog (snd (reading h)) = requestLog h"
  by (simp_all add: reading_def)

lemma reading_mono: "stopwatch h \<le> stopwatch (snd (reading h))"
  by (simp add: reading_def split: list.splits)

lemma since_fields:
  "fst (since start h) = stopwatch h - start" "snd (since start h) = snd (reading h)"
  by (simp_all add: since_def split_beta)

text \<open>A panic is answered and counted with the status of the recovery, outside the log; any other
  outcome is logged if the path has a route, with a duration that lies within the one counted.\<close>

lemma chain_outcome:
  assumes "chain G a nxt rq (s, h) = (resp, s', h')"
  shows "\<exists>d. 0 \<le> d \<and> httpDuration h' = httpDuration h @
      [(if FullPath a rq = [] then ''unmatched'' else FullPath a rq, rsStatus resp, Seconds d,
        if rqSampled rq then Some (rqTraceID rq) else None)] \<and>
    (case fst (nxt (limit_body rq) s) of
       Panics \<Rightarrow> rsStatus resp = recoveredStatus G \<and> requestLog h' = requestLog h
     | Wrote r \<Rightarrow> resp = r \<and>
         (\<exists>n. 0 \<le> n \<and> n \<le> d \<and> requestLog h' = requestLog h @
            (if FullPath a rq = [] then []
             else [(rqMethod rq, FullPath a rq, rsStatus resp, Milliseconds n,
                    clientIP (rqHeader rq ''CF-Connecting-IP'') (rqRemote rq))])))"
proof -
  obtain out u where nxt: "nxt (limit_body rq) s = (out, u)" by (cases "nxt (limit_body rq) s")
  let ?h1 = "snd (reading h)" and ?h2 = "snd (reading (snd (reading h)))"
  let ?h3 = "log_request a rq (stopwatch ?h1) out ?h2"
  have up: "stopwatch h \<le> stopwatch ?h1" "stopwatch ?h1 \<le> stopwatch ?h2" "stopwatch ?h2 \<le> stopwatch ?h3"
    by (simp_all add: reading_mono log_request_def split_beta since_fields split: outcome.splits)
  have h': "h' = GinMiddleware a rq (stopwatch h) resp ?h3" "resp = recover G out"
    using assms nxt by (auto simp: chain_def split_beta Let_def)
  show ?thesis
    using up nxt reading_mono [of ?h2]
    by (intro exI [of _ "stopwatch ?h3 - stopwatch h"])
      (auto simp: h' GinMiddleware_def log_request_def recover_def Let_def split_beta since_fields
        split: outcome.splits intro!: exI [of _ "stopwatch ?h2 - stopwatch ?h1"])
qed

lemma serve_counts:
  assumes "serve R G cfg down rq (s, h) = (resp, s', h')" and "redirected (admission_of cfg) rq = None"
  shows "\<exists>p x. httpDuration h' = httpDuration h @ [(p, rsStatus resp, x)] \<and> p \<in> path_labels (admission_of cfg)"
proof -
  let ?a = "admission_of cfg"
  from assms have "chain G ?a (\<lambda>rq s. apfst Wrote (dispatch R G cfg down rq s)) rq (s, h) = (resp, s', h')"
    by (simp add: serve_def)
  from chain_outcome [OF this] FullPath_label [of ?a rq] show ?thesis
    by (auto simp: path_labels_def)
qed

text \<open>The requests with their responses, and those of them that pass the middleware.\<close>

definition passed :: "Admission \<Rightarrow> (http_request \<times> response) list \<Rightarrow> (http_request \<times> response) list" where
  "passed a xs = filter (\<lambda>(rq, resp). redirected a rq = None) xs"

definition redirects_answered :: "Admission \<Rightarrow> (http_request \<times> response) list \<Rightarrow> bool" where
  "redirects_answered a xs =
     list_all (\<lambda>(rq, resp). case redirected a rq of None \<Rightarrow> True | Some code \<Rightarrow> resp = JSON code []) xs"

lemma serve_all_counts:
  assumes "serve_all R G cfg down rqs (s, h) = (resps, s', h')"
  shows "length resps = length rqs \<and> redirects_answered (admission_of cfg) (zip rqs resps) \<and>
    map (\<lambda>x. fst (snd x)) (httpDuration h') = map (\<lambda>x. fst (snd x)) (httpDuration h) @
      map (\<lambda>x. rsStatus (snd x)) (passed (admission_of cfg) (zip rqs resps)) \<and>
    fst ` set (httpDuration h') \<subseteq> fst ` set (httpDuration h) \<union> path_labels (admission_of cfg)"
  using assms
proof (induction rqs arbitrary: s h resps)
  case (Cons rq rqs)
  obtain r s1 h1 where 1: "serve R G cfg down rq (s, h) = (r, s1, h1)" by (cases "serve R G cfg down rq (s, h)")
  obtain rs s2 h2 where 2: "serve_all R G cfg down rqs (s1, h1) = (rs, s2, h2)"
    by (cases "serve_all R G cfg down rqs (s1, h1)")
  have eq: "s2 = s'" "h2 = h'" "resps = r # rs" using Cons.prems 1 2 by simp_all
  note IH = Cons.IH [OF 2 [unfolded eq(1,2)]]
  show ?case
  proof (cases "redirected (admission_of cfg) rq")
    case None
    obtain p x where "httpDuration h1 = httpDuration h @ [(p, rsStatus r, x)]" "p \<in> path_labels (admission_of cfg)"
      using serve_counts [OF 1 None] by blast
    with IH show ?thesis by (auto simp: eq passed_def redirects_answered_def None)
  next
    case (Some code)
    then have "r = JSON code []" "h1 = h" using 1 by (simp_all add: serve_def)
    with IH show ?thesis by (simp add: eq passed_def redirects_answered_def Some)
  qed
qed (simp add: passed_def redirects_answered_def)

end
