(* ===== verification/Logging.thy ===== *)
theory Logging
  imports Prelude
begin

section \<open>Log lines that name their trace (logging.go)\<close>

text \<open>
  \<open>slog.Handler\<close> is an interface: what a value of it does is how it answers its four methods, two
  of which return another handler. So handlers are a codatatype, and the decorator of the
  program, which wraps whatever the methods return, is defined by corecursion. The JSON handler
  of the standard library is one such value; a log is the list of lines it has written.
\<close>

datatype attr_value = VString string | VInt int | VGroup "(string \<times> attr_value) list"

type_synonym attr = "string \<times> attr_value"

record log_record =
  rLevel :: int
  rMessage :: string
  rAttrs :: "attr list"

text \<open>What the code reads of the span in a context: OpenTelemetry's \<open>SpanContext\<close>.\<close>

record span_context =
  IsValid :: bool
  TraceID :: string
  SpanID :: string
  IsSampled :: bool

codatatype 'o handler = Handler
  (Enabled: "int \<Rightarrow> bool")
  (Handle: "span_context \<Rightarrow> log_record \<Rightarrow> 'o \<Rightarrow> 'o")
  (WithAttrs: "attr list \<Rightarrow> 'o handler")
  (WithGroup: "string \<Rightarrow> 'o handler")

subsection \<open>The decorator\<close>

definition AddAttrs :: "attr list \<Rightarrow> log_record \<Rightarrow> log_record" where
  "AddAttrs as r = r\<lparr>rAttrs := rAttrs r @ as\<rparr>"

definition trace_attrs :: "span_context \<Rightarrow> attr list" where
  "trace_attrs sc = [(''trace_id'', VString (TraceID sc)), (''span_id'', VString (SpanID sc))]"

definition traceHandler_Handle ::
  "(span_context \<Rightarrow> log_record \<Rightarrow> 'o \<Rightarrow> 'o) \<Rightarrow> span_context \<Rightarrow> log_record \<Rightarrow> 'o \<Rightarrow> 'o" where
  "traceHandler_Handle handle sc r =
     handle sc (if IsValid sc then AddAttrs (trace_attrs sc) r else r)"

text \<open>\<open>Enabled\<close> is the method of the embedded handler.\<close>

primcorec traceHandler :: "'o handler \<Rightarrow> 'o handler" where
  "Enabled (traceHandler h) = Enabled h"
| "Handle (traceHandler h) = traceHandler_Handle (Handle h)"
| "WithAttrs (traceHandler h) = (\<lambda>as. traceHandler (WithAttrs h as))"
| "WithGroup (traceHandler h) = (\<lambda>name. traceHandler (WithGroup h name))"

subsection \<open>The JSON handler and the default logger\<close>

datatype derivation = Attrs "attr list" | Group string

text \<open>Attributes go into the innermost open group; a group without any is left out.\<close>

fun placed :: "derivation list \<Rightarrow> attr list \<Rightarrow> attr list" where
  "placed [] as = as"
| "placed (Attrs bs # ds) as = bs @ placed ds as"
| "placed (Group name # ds) as =
     (let inner = placed ds as in if inner = [] then [] else [(name, VGroup inner)])"

definition level_name :: "int \<Rightarrow> string" where
  "level_name l = (if l < 0 then ''DEBUG'' else if l < 4 then ''INFO'' else if l < 8 then ''WARN'' else ''ERROR'')"

definition json_line :: "derivation list \<Rightarrow> log_record \<Rightarrow> attr list" where
  "json_line ds r =
     [(''level'', VString (level_name (rLevel r))), (''msg'', VString (rMessage r))] @ placed ds (rAttrs r)"

primcorec json_handler :: "int \<Rightarrow> derivation list \<Rightarrow> attr list list handler" where
  "Enabled (json_handler lo ds) = (\<lambda>l. lo \<le> l)"
| "Handle (json_handler lo ds) = (\<lambda>sc r out. out @ [json_line ds r])"
| "WithAttrs (json_handler lo ds) = (\<lambda>as. json_handler lo (ds @ [Attrs as]))"
| "WithGroup (json_handler lo ds) =
     (\<lambda>name. json_handler lo (if name = [] then ds else ds @ [Group name]))"

definition LevelInfo :: int where "LevelInfo = 0"

definition setupLogging :: "attr list list handler" where
  "setupLogging = traceHandler (json_handler LevelInfo [])"

text \<open>A call of \<open>slog.InfoContext\<close> and its kin through a logger.\<close>

definition log_with :: "'o handler \<Rightarrow> span_context \<Rightarrow> log_record \<Rightarrow> 'o \<Rightarrow> 'o" where
  "log_with h sc r out = (if Enabled h (rLevel r) then Handle h sc r out else out)"

fun derived :: "'o handler \<Rightarrow> derivation list \<Rightarrow> 'o handler" where
  "derived h [] = h"
| "derived h (Attrs as # ds) = derived (WithAttrs h as) ds"
| "derived h (Group name # ds) = derived (WithGroup h name) ds"

subsection \<open>Whatever is derived from a decorated handler is decorated\<close>

lemma derived_traceHandler: "derived (traceHandler h) ds = traceHandler (derived h ds)"
  by (induction h ds rule: derived.induct) simp_all

lemma derived_json:
  "list_all (\<lambda>d. d \<noteq> Group []) ds \<Longrightarrow> derived (json_handler lo es) ds = json_handler lo (es @ ds)"
  by (induction "json_handler lo es" ds arbitrary: es rule: derived.induct) auto

text \<open>Every logger derived from the default one, by any sequence of \<open>With\<close> and \<open>WithGroup\<close>,
  writes what the plain JSON logger would have written for the record with the ids of the span
  added, if there is one, and writes nothing below Info.\<close>

lemma derived_loggers_name_the_trace:
  assumes "list_all (\<lambda>d. d \<noteq> Group []) ds"
  shows "log_with (derived setupLogging ds) sc r out =
    (if rLevel r < LevelInfo then out
     else out @ [json_line ds (if IsValid sc then AddAttrs (trace_attrs sc) r else r)])"
  using assms
  by (simp add: log_with_def setupLogging_def derived_traceHandler derived_json traceHandler_Handle_def)

lemma derived_loggers_name_the_trace_witness:
  "log_with (derived setupLogging [Attrs [(''pod'', VInt 1)]]) \<lparr>IsValid = True, TraceID = ''4bf9'', SpanID = ''00f0'', IsSampled = True\<rparr>
     \<lparr>rLevel = 0, rMessage = ''request'', rAttrs = []\<rparr> [] =
   [[(''level'', VString ''INFO''), (''msg'', VString ''request''), (''pod'', VInt 1),
     (''trace_id'', VString ''4bf9''), (''span_id'', VString ''00f0'')]]"
  using derived_loggers_name_the_trace [of "[Attrs [(''pod'', VInt 1)]]" "\<lparr>IsValid = True, TraceID = ''4bf9'', SpanID = ''00f0'', IsSampled = True\<rparr>"
      "\<lparr>rLevel = 0, rMessage = ''request'', rAttrs = []\<rparr>" "[]"]
  by (simp add: json_line_def AddAttrs_def trace_attrs_def level_name_def LevelInfo_def)

text \<open>The ids are attributes of the record, so under an open group they are inside it, not at the
  top of the line where a query for \<open>trace_id\<close> looks; the program opens no group.\<close>

lemma trace_inside_the_group:
  assumes "IsValid sc" and "name \<noteq> []"
  shows "log_with (derived setupLogging [Group name]) sc \<lparr>rLevel = LevelInfo, rMessage = msg, rAttrs = as\<rparr> out =
    out @ [[(''level'', VString ''INFO''), (''msg'', VString msg), (name, VGroup (as @ trace_attrs sc))]]"
  using assms
  by (simp add: log_with_def setupLogging_def derived_traceHandler derived_json traceHandler_Handle_def
      json_line_def AddAttrs_def level_name_def LevelInfo_def trace_attrs_def Let_def)

end
