(* ===== verification/Prom.thy ===== *)
theory Prom
  imports Http Logging Floats
begin

section \<open>The collectors and their exposition (metrics/prom.go)\<close>

text \<open>
  What the metrics package registers, records and serves: the options of every collector, the
  two observations that carry exemplars, the counters read when Prometheus scrapes, and the
  server of the metrics port. The client library is not part of the repository: a histogram is
  the list of what it was given, a gauge or counter the value it was set to. The gauges of the
  sampler are in \<open>Gauges\<close>, the histogram of the requests in \<open>Http\<close>.
\<close>

subsection \<open>What is registered\<close>

record collector_opts =
  optName :: string
  optLabels :: "string list"
  optBuckets :: "rat list"

definition latency_buckets :: "rat list" where
  "latency_buckets = [1 / 1000, 25 / 10000, 5 / 1000, 1 / 100, 25 / 1000, 5 / 100,
     1 / 10, 25 / 100, 5 / 10, 1, 25 / 10, 5, 10]"

definition plain :: "string \<Rightarrow> string list \<Rightarrow> collector_opts" where
  "plain name labels = \<lparr>optName = name, optLabels = labels, optBuckets = []\<rparr>"

definition httpDuration_opts :: collector_opts where
  "httpDuration_opts = \<lparr>optName = ''queue_http_request_duration_seconds'',
     optLabels = [''path'', ''status''], optBuckets = latency_buckets\<rparr>"

definition gauge_opts :: "collector_opts list" where
  "gauge_opts = [plain ''queue_waiting'' [''movie''], plain ''queue_active'' [''movie''],
     plain ''queue_promotion_rate'' [''movie''], plain ''queue_promoted_total'' [''movie''],
     plain ''queue_capacity'' []]"

definition loopLastTick_opts :: collector_opts where
  "loopLastTick_opts = plain ''queue_loop_last_tick_timestamp_seconds'' [''loop'']"

definition kafkaPublished_opts :: collector_opts where
  "kafkaPublished_opts = plain ''queue_kafka_published_total'' [''topic'']"

definition kafkaPublishDuration_opts :: collector_opts where
  "kafkaPublishDuration_opts = \<lparr>optName = ''queue_kafka_publish_duration_seconds'',
     optLabels = [''topic''], optBuckets = latency_buckets\<rparr>"

definition completedLag_opts :: collector_opts where
  "completedLag_opts = \<lparr>optName = ''queue_completed_lag_seconds'', optLabels = [],
     optBuckets = latency_buckets\<rparr>"

definition completedTotal_opts :: collector_opts where
  "completedTotal_opts = plain ''queue_completed_total'' []"

definition poolGauge_opts :: collector_opts where
  "poolGauge_opts = plain ''queue_redis_pool'' [''state'']"

text \<open>\<open>CounterFunc\<close>s are called at every scrape, here with the state they read.\<close>

definition RegisterFailureCounters :: "('s \<Rightarrow> rat) \<Rightarrow> ('s \<Rightarrow> rat) \<Rightarrow> (string \<times> ('s \<Rightarrow> rat)) list" where
  "RegisterFailureCounters publish consume =
     [(''queue_kafka_publish_failures_total'', publish), (''queue_kafka_consume_failures_total'', consume)]"

record PoolCounters =
  WaitCount :: "32 word"
  WaitDurationNs :: "64 word"
  Timeouts :: "32 word"

definition signed64 :: "rat \<Rightarrow> rat" where
  "signed64 x = (if x < 0 then - f64 (- x) else f64 x)"

definition RegisterPoolCounters :: "('s \<Rightarrow> PoolCounters) \<Rightarrow> (string \<times> ('s \<Rightarrow> rat)) list" where
  "RegisterPoolCounters PoolStats =
     [(''queue_redis_pool_wait_count_total'', \<lambda>s. of_int (uint (WaitCount (PoolStats s)))),
      (''queue_redis_pool_wait_seconds_total'',
         \<lambda>s. signed64 (signed64 (of_int (sint (WaitDurationNs (PoolStats s)))) / 1000000000)),
      (''queue_redis_pool_timeouts_total'', \<lambda>s. of_int (uint (Timeouts (PoolStats s))))]"

text \<open>The names of all collectors: those of the package's variables, then those \<open>main\<close> registers.\<close>

definition collector_names :: "string list" where
  "collector_names =
     map optName ([httpDuration_opts] @ gauge_opts @ [loopLastTick_opts, kafkaPublished_opts,
       kafkaPublishDuration_opts, completedLag_opts, completedTotal_opts, poolGauge_opts])"

subsection \<open>Observations with exemplars\<close>

record collectors =
  kafkaPublished :: "string \<Rightarrow> int"
  kafkaPublishDuration :: "string \<Rightarrow> (rat \<times> string option) list"
  completedCount :: int
  completedLag :: "(rat \<times> string option) list"
  capacityGauge :: rat

text \<open>Only a span that is kept is referred to.\<close>

definition exemplar :: "span_context \<Rightarrow> string option" where
  "exemplar sc = (if IsSampled sc then Some (TraceID sc) else None)"

definition ObservePublish :: "span_context \<Rightarrow> string \<Rightarrow> int \<Rightarrow> int \<Rightarrow> collectors \<Rightarrow> collectors" where
  "ObservePublish sc topic n d c =
     (let c = c\<lparr>kafkaPublished := (kafkaPublished c)(topic := kafkaPublished c topic + n)\<rparr>
      in c\<lparr>kafkaPublishDuration := (kafkaPublishDuration c)
             (topic := kafkaPublishDuration c topic @ [(Seconds d, exemplar sc)])\<rparr>)"

definition observe_completed :: "span_context \<Rightarrow> int \<Rightarrow> collectors \<Rightarrow> collectors" where
  "observe_completed sc d c =
     (let c = c\<lparr>completedCount := completedCount c + 1\<rparr> in
      if d < 0 then c else c\<lparr>completedLag := completedLag c @ [(Seconds d, exemplar sc)]\<rparr>)"

definition SetCapacity :: "int \<Rightarrow> collectors \<Rightarrow> collectors" where
  "SetCapacity n c = c\<lparr>capacityGauge := signed64 (of_int n)\<rparr>"

subsection \<open>The metrics server\<close>

datatype metrics_page = MetricsPage | PprofIndex | PprofCmdline | PprofProfile | PprofSymbol | PprofTrace

definition metrics_mux :: "(string \<times> metrics_page) list" where
  "metrics_mux = [(''/metrics'', MetricsPage), (''/debug/pprof/'', PprofIndex),
     (''/debug/pprof/cmdline'', PprofCmdline), (''/debug/pprof/profile'', PprofProfile),
     (''/debug/pprof/symbol'', PprofSymbol), (''/debug/pprof/trace'', PprofTrace)]"

text \<open>\<open>http.ServeMux\<close> on a clean path: the pattern that is the path, else the longest one that ends
  in a slash and begins the path.\<close>

definition subtree :: "string \<Rightarrow> string \<Rightarrow> bool" where
  "subtree pat path \<longleftrightarrow> pat \<noteq> [] \<and> last pat = CHR ''/'' \<and> take (length pat) path = pat"

definition mux_handler :: "(string \<times> 'h) list \<Rightarrow> string \<Rightarrow> 'h option" where
  "mux_handler mux path =
     (case map_of mux path of
        Some h \<Rightarrow> Some h
      | None \<Rightarrow>
          (case sort_key (\<lambda>(pat, h). length pat) (filter (\<lambda>(pat, h). subtree pat path) mux) of
             [] \<Rightarrow> None
           | xs \<Rightarrow> Some (snd (last xs))))"

record 'h server =
  Addr :: string
  pages :: "string \<Rightarrow> 'h option"
  ReadHeaderTimeout :: int

definition ServeMetrics :: "string \<Rightarrow> metrics_page server" where
  "ServeMetrics port = \<lparr>Addr = '':'' @ port, pages = mux_handler metrics_mux,
     ReadHeaderTimeout = 3 * Second\<rparr>"

subsection \<open>Facts\<close>

text \<open>\<open>promauto\<close> panics on a name that is taken, at the start of the process; all of them differ.\<close>

lemma names_distinct:
  "distinct (collector_names @ map fst (RegisterFailureCounters p q) @ map fst (RegisterPoolCounters ps))"
  by (simp add: collector_names_def httpDuration_opts_def gauge_opts_def plain_def loopLastTick_opts_def
      kafkaPublished_opts_def kafkaPublishDuration_opts_def completedLag_opts_def completedTotal_opts_def
      poolGauge_opts_def RegisterFailureCounters_def RegisterPoolCounters_def)

lemma buckets_increase: "sorted_wrt (<) latency_buckets"
  by (simp add: latency_buckets_def)

text \<open>The count of finished bookings rises with every one of them, the histogram only when the clock
  difference is not negative; the two fields of the world are these two numbers.\<close>

lemma completed_observed:
  "completedCount (fold (observe_completed sc) ds c) = completedCount c + int (length ds) \<and>
   length (completedLag (fold (observe_completed sc) ds c)) =
     length (completedLag c) + length (filter (\<lambda>d. 0 \<le> d) ds)"
  by (induction ds arbitrary: c) (auto simp: observe_completed_def Let_def)

lemma completed_refines:
  assumes "completedTotal w = completedCount c" and "completedLagCount w = int (length (completedLag c))"
  shows "completedTotal (Kafka.ObserveCompletedLag d w) = completedCount (observe_completed sc d c) \<and>
    completedLagCount (Kafka.ObserveCompletedLag d w) = int (length (completedLag (observe_completed sc d c)))"
  using assms by (simp add: Kafka.ObserveCompletedLag_def observe_completed_def Let_def)

lemma published_observed:
  "kafkaPublished (ObservePublish sc topic n d c) t = kafkaPublished c t + (if t = topic then n else 0) \<and>
   map snd (kafkaPublishDuration (ObservePublish sc topic n d c) t) =
     map snd (kafkaPublishDuration c t) @ (if t = topic then [exemplar sc] else [])"
  by (simp add: ObservePublish_def Let_def)

text \<open>No page of the metrics port, the profiles of the process among them, is a route of the port
  that users reach, and no route of the service is a page of the metrics port.\<close>

lemma service_paths: "(verb, path) \<in> set (all_routes a) \<Longrightarrow> path \<in>
  {''/health/live'', ''/health/ready'', ''/api/admission/enter'', ''/api/admission/position'',
   ''/api/admission/stats'', ''/api/admission/events'', ''/api/admission/leave'',
   ''/api/admission/complete'', ''/api/admission/reset''}"
  by (auto simp: all_routes_def routes_def split: if_splits)

lemma service_not_metrics: "(verb, path) \<in> set (all_routes a) \<Longrightarrow> mux_handler metrics_mux path = None"
  using service_paths [of verb path a]
  by (auto simp: mux_handler_def metrics_mux_def subtree_def)

lemma metrics_stay_off_the_service_port:
  assumes "pages (ServeMetrics port) (rqPath rq) \<noteq> None"
  shows "dispatch R G cfg down rq (c, w) = (JSON (noRouteStatus G) [], c, w)"
proof -
  have "FullPath (admission_of cfg) rq = []"
    using assms service_not_metrics [of "rqMethod rq" "rqPath rq" "admission_of cfg"]
    by (auto simp: FullPath_def ServeMetrics_def)
  then show ?thesis by (simp add: dispatch_def Let_def)
qed

end
