(* ===== verification/Tracing.thy ===== *)
theory Tracing
  imports Floats
begin

section \<open>Which traces are kept (tracing.go)\<close>

text \<open>
  The sampler by route, the ratio read from the environment, and \<open>initTracer\<close>, which puts them
  into OpenTelemetry's SDK. The SDK is not part of the repository: its constructors are the
  fields of the record \<open>sdk\<close>, and the locale \<open>otel_sdk\<close> names what is documented of its samplers. A trace
  is a tree of spans; a request that arrives with a trace header has a parent already.
\<close>

datatype span_kind = Internal | Server | Client | ProducerKind | ConsumerKind

datatype decision = Drop | RecordAndSample

text \<open>The parameters of a decision: \<open>pParent\<close> is the sampled flag of the parent, None at a root.\<close>

record params =
  pName :: string
  spanKind :: span_kind
  pTraceID :: string
  pParent :: "bool option"

record sampler =
  decide :: "params \<Rightarrow> decision"
  Description :: string

subsection \<open>The sampler by route\<close>

definition neverSampled :: "string set" where
  "neverSampled = {''/health/live'', ''/health/ready''}"

definition pollingSpans :: "string set" where
  "pollingSpans = {''/api/admission/position'', ''/api/admission/stats'', ''/api/admission/events''}"

record byRoute =
  polling :: sampler
  rest :: sampler
  never :: sampler

definition routeOf :: "string \<Rightarrow> string" where
  "routeOf spanName = (if CHR '' '' \<in> set spanName then after_last (CHR '' '') spanName else spanName)"

definition ShouldSample :: "byRoute \<Rightarrow> params \<Rightarrow> decision" where
  "ShouldSample s p =
     (let route = routeOf (pName p) in
      if route \<in> neverSampled then decide (never s) p
      else if route \<in> pollingSpans then decide (polling s) p
      else if spanKind p = Client then decide (polling s) p
      else decide (rest s) p)"

definition byRoute_Description :: "byRoute \<Rightarrow> string" where
  "byRoute_Description s = ''ByRoute{polling='' @ Description (polling s) @ '',rest='' @ Description (rest s) @
     '',never='' @ Description (never s) @ ''}''"

text \<open>A \<open>byRoute\<close> as the interface \<open>Sampler\<close>.\<close>

definition route_sampler :: "byRoute \<Rightarrow> sampler" where
  "route_sampler s = \<lparr>decide = ShouldSample s, Description = byRoute_Description s\<rparr>"

lemma after_last_sep: "c \<notin> set r \<Longrightarrow> after_last c (p @ c # r) = r"
  using takeWhile_sep [of c "rev r" "rev p"] by (simp add: after_last_def)

lemma routeOf_method: "CHR '' '' \<notin> set path \<Longrightarrow> routeOf (verb @ '' '' @ path) = path"
  using after_last_sep [of "CHR '' ''" path verb] by (simp add: routeOf_def)

subsection \<open>initTracer\<close>

record ('e, 'r, 'p) sdk =
  ParentBased :: "sampler \<Rightarrow> sampler"
  TraceIDRatioBased :: "rat \<Rightarrow> sampler"
  AlwaysSample :: sampler
  NeverSample :: sampler
  otlpNew :: "string \<Rightarrow> string + 'e"
  resourceNew :: "(string \<times> string) list \<Rightarrow> string + 'r"
  NewTracerProvider :: "'e \<Rightarrow> 'r \<Rightarrow> sampler \<Rightarrow> 'p"

datatype propagator = TraceContext | Baggage

record 'p tracing =
  provider :: 'p
  propagators :: "propagator list"

definition TrimPrefix :: "string \<Rightarrow> string \<Rightarrow> string" where
  "TrimPrefix s prefix = (if take (length prefix) s = prefix then drop (length prefix) s else s)"

definition otlp_endpoint :: "(string \<Rightarrow> string) \<Rightarrow> string" where
  "otlp_endpoint env =
     (let endpoint = env ''OTLP_GRPC_ENDPOINT'';
          endpoint = (if endpoint = [] then ''localhost:4317'' else endpoint);
          endpoint = TrimPrefix endpoint ''http://''
      in TrimPrefix endpoint ''https://'')"

definition sampling_ratio :: "(string \<Rightarrow> string) \<Rightarrow> rat" where
  "sampling_ratio env =
     (let ratio = float64 (1 / 100); v = env ''OTEL_TRACES_SAMPLER_ARG'' in
      if v \<noteq> [] then
        (case ParseFloat v of Some f \<Rightarrow> if f \<ge> 0 \<and> f \<le> 1 then f else ratio | None \<Rightarrow> ratio)
      else ratio)"

definition trace_sampler :: "('e, 'r, 'p) sdk \<Rightarrow> rat \<Rightarrow> sampler" where
  "trace_sampler K ratio = ParentBased K (route_sampler
     \<lparr>polling = TraceIDRatioBased K ratio, rest = AlwaysSample K, never = NeverSample K\<rparr>)"

definition initTracer :: "('e, 'r, 'p) sdk \<Rightarrow> (string \<Rightarrow> string) \<Rightarrow> string + 'p tracing" where
  "initTracer K env =
     (case otlpNew K (otlp_endpoint env) of
        Inl err \<Rightarrow> Inl err
      | Inr exporter \<Rightarrow>
          (case resourceNew K [(''service.name'', ''queue-go'')] of
             Inl err \<Rightarrow> Inl err
           | Inr res \<Rightarrow>
               Inr \<lparr>provider = NewTracerProvider K exporter res (trace_sampler K (sampling_ratio env)),
                    propagators = [TraceContext, Baggage]\<rparr>))"

lemma sampling_ratio_bounds: "0 \<le> sampling_ratio env \<and> sampling_ratio env \<le> 1"
proof -
  have "\<bar>f64 (1 / 100) - 1 / 100\<bar> \<le> 1 / 100 / 2 ^ 53" by (rule f64_error) simp
  moreover have "(1 / 100 / 2 ^ 53 :: rat) \<le> 1 / 100" by simp
  ultimately have "\<bar>f64 (1 / 100) - 1 / 100\<bar> \<le> 1 / 100" by (rule order_trans)
  then have "0 \<le> f64 (1 / 100) \<and> f64 (1 / 100) \<le> 1" unfolding abs_le_iff by linarith
  moreover have "float64 (1 / 100) = f64 (1 / 100)" by (simp add: float64_def)
  ultimately show ?thesis by (auto simp: sampling_ratio_def Let_def split: option.splits)
qed

subsection \<open>A trace and its spans\<close>

datatype span_tree = Span string span_kind "span_tree list"

text \<open>What becomes of the spans of a tree, each created under the one above it.\<close>

fun decisions :: "sampler \<Rightarrow> string \<Rightarrow> bool option \<Rightarrow> span_tree \<Rightarrow> decision list" where
  "decisions s tid parent (Span name kind children) =
     (let d = decide s \<lparr>pName = name, spanKind = kind, pTraceID = tid, pParent = parent\<rparr>
      in d # concat (map (decisions s tid (Some (d = RecordAndSample))) children))"

locale otel_sdk =
  fixes K :: "('e, 'r, 'p) sdk"
  assumes parent_root: "pParent p = None \<Longrightarrow> decide (ParentBased K s) p = decide s p"
    and parent_follows: "pParent p = Some b \<Longrightarrow>
      decide (ParentBased K s) p = (if b then RecordAndSample else Drop)"
    and always: "decide (AlwaysSample K) p = RecordAndSample"
    and never_kept: "decide (NeverSample K) p = Drop"
    and ratio_by_trace: "pTraceID p = pTraceID p' \<Longrightarrow>
      decide (TraceIDRatioBased K x) p = decide (TraceIDRatioBased K x) p'"
    and ratio_one: "1 \<le> x \<Longrightarrow> decide (TraceIDRatioBased K x) p = RecordAndSample"
    and ratio_zero: "x \<le> 0 \<Longrightarrow> decide (TraceIDRatioBased K x) p = Drop"
begin

lemma children_follow: "set (decisions (ParentBased K s) tid (Some b) t) = {if b then RecordAndSample else Drop}"
proof (induction t arbitrary: b)
  case (Span name kind children)
  then show ?case by (auto simp: parent_follows Let_def)
qed

lemma trace_whole:
  "set (decisions (ParentBased K s) tid parent (Span name kind children)) =
     {decide (ParentBased K s) \<lparr>pName = name, spanKind = kind, pTraceID = tid, pParent = parent\<rparr>}"
proof -
  let ?d = "decide (ParentBased K s) \<lparr>pName = name, spanKind = kind, pTraceID = tid, pParent = parent\<rparr>"
  have "?d = (if ?d = RecordAndSample then RecordAndSample else Drop)" by (cases ?d) simp_all
  then show ?thesis by (auto simp: Let_def children_follow)
qed

end

text \<open>An SDK that satisfies the documentation, its ratio sampler keeping everything or nothing.\<close>

definition constant_sampler :: "decision \<Rightarrow> sampler" where
  "constant_sampler d = \<lparr>decide = (\<lambda>p. d), Description = []\<rparr>"

definition ref_sdk :: "(string, (string \<times> string) list, sampler) sdk" where
  "ref_sdk =
     \<lparr>ParentBased = (\<lambda>s. \<lparr>decide = (\<lambda>p. case pParent p of None \<Rightarrow> decide s p
          | Some b \<Rightarrow> if b then RecordAndSample else Drop), Description = ''ParentBased''\<rparr>),
      TraceIDRatioBased = (\<lambda>x. constant_sampler (if 1 \<le> x then RecordAndSample else Drop)),
      AlwaysSample = constant_sampler RecordAndSample, NeverSample = constant_sampler Drop,
      otlpNew = Inr, resourceNew = Inr, NewTracerProvider = (\<lambda>e r s. s)\<rparr>"

interpretation ref_otel: otel_sdk ref_sdk
  by unfold_locales (simp_all add: ref_sdk_def constant_sampler_def)

text \<open>Sampling by route: the trace of a request that arrives without a trace header is kept or
  dropped as a whole, the server's span with every Redis and Kafka call under it, and which of the
  two depends on the path alone: the probes are never kept, the three polled paths by the ratio of
  their trace identifier, everything else always.\<close>

lemma traces_are_kept_whole_by_route:
  assumes "otel_sdk K" and "CHR '' '' \<notin> set path"
    and "d \<in> set (decisions (trace_sampler K x) tid None (Span (verb @ '' '' @ path) Server calls))"
  shows "d = (if path \<in> neverSampled then Drop
    else if path \<in> pollingSpans
    then decide (TraceIDRatioBased K x) \<lparr>pName = [], spanKind = Server, pTraceID = tid, pParent = None\<rparr>
    else RecordAndSample)"
proof -
  let ?p = "\<lparr>pName = verb @ '' '' @ path, spanKind = Server, pTraceID = tid, pParent = None\<rparr>"
  have r: "routeOf (verb @ '' '' @ path) = path" by (rule routeOf_method [OF assms(2)])
  have "d = decide (trace_sampler K x) ?p"
    using assms(3) unfolding trace_sampler_def otel_sdk.trace_whole [OF assms(1)] by simp
  also have "\<dots> = ShouldSample \<lparr>polling = TraceIDRatioBased K x, rest = AlwaysSample K, never = NeverSample K\<rparr> ?p"
    by (simp add: trace_sampler_def route_sampler_def otel_sdk.parent_root [OF assms(1)])
  finally show ?thesis
    using otel_sdk.ratio_by_trace [OF assms(1), of ?p "\<lparr>pName = [], spanKind = Server, pTraceID = tid, pParent = None\<rparr>" x]
    by (simp add: ShouldSample_def r [simplified] otel_sdk.always [OF assms(1)] otel_sdk.never_kept [OF assms(1)])
qed

lemma traces_are_kept_whole_by_route_witness:
  "decisions (trace_sampler ref_sdk 1) ''4bf9'' None
     (Span (''GET'' @ '' '' @ ''/health/ready'') Server [Span ''ping'' Client []]) = [Drop, Drop]"
proof -
  let ?ds = "decisions (trace_sampler ref_sdk 1) ''4bf9'' None
     (Span (''GET'' @ '' '' @ ''/health/ready'') Server [Span ''ping'' Client []])"
  have "length ?ds = 2" by (simp add: Let_def)
  moreover have "d = Drop" if "d \<in> set ?ds" for d
    using traces_are_kept_whole_by_route [OF ref_otel.otel_sdk_axioms _ that] by (simp add: neverSampled_def)
  ultimately have "replicate (length ?ds) Drop = ?ds" by (intro replicate_eqI [symmetric]) simp_all
  with \<open>length ?ds = 2\<close> show ?thesis by (simp add: numeral_2_eq_2)
qed

text \<open>Where the route does not decide: a request that brings a sampled trace header is kept, probe
  or poll, whatever the ratio.\<close>

lemma header_overrides_the_route:
  assumes "otel_sdk K" and "d \<in> set (decisions (trace_sampler K x) tid (Some True) t)"
  shows "d = RecordAndSample"
  using assms(2) otel_sdk.children_follow [OF assms(1)] by (auto simp: trace_sampler_def)

text \<open>Without the variable, or with one that is not a number between 0 and 1, one poll in a hundred
  is kept; \<open>initTracer\<close> returns exactly the errors of the exporter and the resource.\<close>

lemma initTracer_outcome:
  "(\<exists>err. initTracer K env = Inl err) \<longleftrightarrow>
     (\<exists>err. otlpNew K (otlp_endpoint env) = Inl err) \<or>
     (\<exists>err. resourceNew K [(''service.name'', ''queue-go'')] = Inl err)"
  by (auto simp: initTracer_def split: sum.splits)

end
