(* ===== verification/Wiring.thy ===== *)
theory Wiring
  imports Prom Tracing Loops Topics
begin

section \<open>The start of the process (main.go, kafka/kafka.go, handler/health.go)\<close>

text \<open>
  What \<open>main\<close> puts together before it waits for the signal: the mode of gin, the tracer, the
  Redis client, the Kafka writer and reader with their options, the health flag, the goroutines
  and the two servers with their timeouts. Durations are nanoseconds.
\<close>

subsection \<open>Kafka's writer and reader\<close>

datatype balancer = Hash

datatype required_acks = RequireNone | RequireOne | RequireAll

record writer =
  Broker :: string
  Balancer :: balancer
  AllowAutoTopicCreation :: bool
  RequiredAcks :: required_acks
  MaxAttempts :: int
  WriteTimeout :: int
  BatchTimeout :: int

text \<open>\<open>NewProducer\<close>: the topics it has created in the background, and the writer.\<close>

definition NewProducer :: "string \<Rightarrow> string list \<times> writer" where
  "NewProducer addr =
     ([TopicAdmissions, TopicRevoked],
      \<lparr>Broker = addr, Balancer = Hash, AllowAutoTopicCreation = True, RequiredAcks = RequireOne,
       MaxAttempts = 3, WriteTimeout = Second, BatchTimeout = 10 * Millisecond\<rparr>)"

record reader =
  Brokers :: "string list"
  Topic :: string
  GroupID :: string

definition completed_reader :: "string \<Rightarrow> reader" where
  "completed_reader addr = \<lparr>Brokers = [addr], Topic = TopicCompleted, GroupID = ''queue''\<rparr>"

text \<open>The consumer's goroutine: it makes sure of the topic, then reads; None is the loop that still
  tries to reach the broker. If the context is done first, the first fetch fails and it returns.\<close>

definition consumer_start ::
  "('c, 'k) admin \<Rightarrow> 'db redis \<Rightarrow> string \<Rightarrow> 'k waiting_end list \<Rightarrow> 'k \<Rightarrow>
   (nat \<times> delivery) option list \<Rightarrow> nat \<times> 'db world \<Rightarrow> ('k \<times> nat \<times> 'db world) option"
where
  "consumer_start A R addr es k fetched cw =
     (case ensureTopic A addr TopicCompleted es k of
        None \<Rightarrow> None
      | Some (TopicReady, k) \<Rightarrow> Some (k, ConsumeCompleted R fetched cw)
      | Some (GaveUp, k) \<Rightarrow> Some (k, cw))"

subsection \<open>The health flag\<close>

record Health =
  shuttingDown :: bool

definition NewHealth :: Health where "NewHealth = \<lparr>shuttingDown = False\<rparr>"

definition BeginShutdown :: "Health \<Rightarrow> Health" where
  "BeginShutdown h = h\<lparr>shuttingDown := True\<rparr>"

subsection \<open>main\<close>

text \<open>The rate provider starts with an empty cache.\<close>

definition NewRateProvider :: rate_cache where "NewRateProvider = (\<lambda>_. None)"

definition publishTimeout :: int where "publishTimeout = 6 * Second"
definition drainTimeout :: int where "drainTimeout = 20 * Second"

record http_server =
  srvAddr :: string
  srvReadHeaderTimeout :: int
  srvReadTimeout :: int
  srvWriteTimeout :: int
  srvIdleTimeout :: int

definition service_server :: "Config \<Rightarrow> http_server" where
  "service_server cfg = \<lparr>srvAddr = '':'' @ Port cfg, srvReadHeaderTimeout = 3 * Second,
     srvReadTimeout = 5 * Second, srvWriteTimeout = 10 * Second, srvIdleTimeout = 60 * Second\<rparr>"

definition gin_mode :: "(string \<Rightarrow> string) \<Rightarrow> string" where
  "gin_mode env = (if env ''GIN_MODE'' = [] then ''release'' else env ''GIN_MODE'')"

text \<open>A tracer that cannot be set up is logged and done without: None.\<close>

definition tracer_of :: "('e, 'r, 'p) sdk \<Rightarrow> (string \<Rightarrow> string) \<Rightarrow> 'p tracing option" where
  "tracer_of K env = (case initTracer K env of Inl err \<Rightarrow> None | Inr t \<Rightarrow> Some t)"

text \<open>\<open>mBackground\<close> are the four loops whose intervals come from the environment; the other two
  goroutines are the consumer, here its reader (its work is \<open>consumer_start\<close>), and the sampler of
  \<open>Gauges\<close>, here its interval.\<close>

record ('p, 'db) main_state =
  mLogger :: "attr list list handler"
  mConfig :: Config
  mGinMode :: string
  mTracer :: "'p tracing option"
  mRedis :: client
  mProducer :: "string list \<times> writer"
  mRate :: rate_cache
  mCounters :: "(string \<times> ('db world \<times> PoolCounters \<Rightarrow> rat)) list"
  mCollectors :: collectors
  mBackground :: "(string \<times> (wakeup list \<Rightarrow> 'db world \<Rightarrow> 'db world run)) list"
  mConsumer :: reader
  mSampleInterval :: int
  mHealth :: Health
  mServer :: http_server
  mMetricsServer :: "metrics_page server"

definition main_start ::
  "('e, 'r, 'p) sdk \<Rightarrow> string option \<Rightarrow> 'db redis \<Rightarrow> (string \<Rightarrow> string) \<Rightarrow> collectors \<Rightarrow>
   ('p, 'db) main_state"
where
  "main_start K hooked R env c =
     (let cfg = Load env in
      \<lparr>mLogger = setupLogging, mConfig = cfg, mGinMode = gin_mode env, mTracer = tracer_of K env,
       mRedis = New hooked (RedisAddr cfg) (RedisPassword cfg) (RedisPoolSize cfg) (RedisMasterName cfg)
         (RedisSentinelAddrs cfg),
       mProducer = NewProducer (KafkaBroker cfg), mRate = NewRateProvider,
       mCounters =
         RegisterFailureCounters (\<lambda>(w, ps). signed64 (of_int (PublishFailures w)))
                                 (\<lambda>(w, ps). signed64 (of_int (ConsumeFailures w)))
         @ RegisterPoolCounters snd,
       mCollectors = SetCapacity (MaxSessions cfg) c,
       mBackground = background R cfg, mConsumer = completed_reader (KafkaBroker cfg),
       mSampleInterval = 5 * Second, mHealth = NewHealth, mServer = service_server cfg,
       mMetricsServer = ServeMetrics (MetricsPort cfg)\<rparr>)"

subsection \<open>The timeouts fit into each other\<close>

text \<open>The longest a write to Kafka takes by kafka-go's documentation: \<open>MaxAttempts\<close> attempts of at most
  \<open>WriteTimeout\<close>, a backoff between two of them, and the wait for the batch.\<close>

definition longest_write :: "writer \<Rightarrow> int \<Rightarrow> int" where
  "longest_write w backoff =
     MaxAttempts w * WriteTimeout w + (MaxAttempts w - 1) * backoff + BatchTimeout w"

text \<open>With the default bound of one second on the backoff, a publication ends before the timeout that
  \<open>enter\<close> sets for it and before the sweep may take the entry up; a publication that takes its whole
  timeout still leaves \<open>enter\<close> time to answer, and a drain lasts longer than any answer.\<close>

lemma timeouts_are_nested:
  assumes "backoff \<le> Second" and "w = snd (NewProducer addr)"
  shows "longest_write w backoff < publishTimeout \<and>
    longest_write w backoff < sweepGrace * Millisecond \<and>
    publishTimeout < srvWriteTimeout (service_server cfg) \<and>
    srvWriteTimeout (service_server cfg) < drainTimeout"
  using assms
  by (simp add: longest_write_def NewProducer_def publishTimeout_def drainTimeout_def sweepGrace_def
      service_server_def Second_def Millisecond_def)

lemma timeouts_are_nested_witness:
  "longest_write (snd (NewProducer ''kafka:9092'')) Second < publishTimeout"
  using timeouts_are_nested [of Second _ "''kafka:9092''"] by simp

text \<open>Whatever the environment, no collector is registered twice, which would panic; the process starts with the capacity on its gauge and in its handlers
  equal, at least one, and with readiness up; without a tracer exactly if \<open>initTracer\<close> failed.\<close>

lemma main_starts:
  assumes "s = main_start K hooked R env c"
  shows "capacityGauge (mCollectors s) = signed64 (of_int (maxSessions (admission_of (mConfig s)))) \<and>
    1 \<le> maxSessions (admission_of (mConfig s)) \<and> \<not> shuttingDown (mHealth s) \<and>
    (mTracer s = None \<longleftrightarrow> (\<exists>err. initTracer K env = Inl err)) \<and>
    distinct (collector_names @ map fst (mCounters s)) \<and>
    map fst (mBackground s) = [''queue-processor'', ''session-timeout'', ''waiting-timeout'', ''pending-sweep'']"
proof (intro conjI)
  show "distinct (collector_names @ map fst (mCounters s))"
    unfolding assms main_start_def Let_def main_state.simps map_append by (rule names_distinct)
qed (use loaded_bounds [of env] in \<open>simp_all add: assms main_start_def Let_def SetCapacity_def NewHealth_def
      tracer_of_def background_def split: sum.splits\<close>)

end
