(* ===== verification/Delivery.thy ===== *)
theory Delivery
  imports PromotionClaims
begin

section \<open>A sweep that nothing disturbs takes up what is old enough\<close>

text \<open>
  The sweep over all movies when no call fails, whatever the journals hold: members that do not
  parse and kinds that are unknown are removed, the rest is published, and in every movie the loops visit
  none of the entries the sweep reads stays in the journal. The seats are untouched.
\<close>

definition quiet :: "'db world \<Rightarrow> bool" where
  "quiet w \<longleftrightarrow> fates w = [] \<and> kfates w = []"

text \<open>The entries of a movie a sweep reads.\<close>

definition due :: "'db redis \<Rightarrow> int \<Rightarrow> int \<Rightarrow> string \<Rightarrow> 'db \<Rightarrow> string list" where
  "due R batch cutoff m db =
     map fst (take (nat batch) (filter (\<lambda>x. snd x \<le> cutoff) (ZITEMS R db (PendingKey m))))"

definition in_step :: "sorted_events \<Rightarrow> bool" where
  "in_step s \<longleftrightarrow> length (admits_of s) = length (admitMembers s) \<and>
     length (revokes_of s) = length (revokeMembers s)"

context redis_service
begin

lemma clear_quiet:
  assumes "quiet w" and "w' = snd (ClearPending R m ms w)"
  shows "quiet w' \<and> pends R (rdb w') m = pends R (rdb w) m - set ms \<and> acts R (rdb w') m = acts R (rdb w) m"
  using assms by (auto simp: quiet_def ClearPending_def calm_write key_simps)

lemma remove_quiet:
  assumes "quiet w" and "w' = snd (redis_call (ZREM R (PendingKey m) [x]) w)"
  shows "quiet w' \<and> pends R (rdb w') m = pends R (rdb w) m - {x} \<and> acts R (rdb w') m = acts R (rdb w) m"
  using assms by (auto simp: quiet_def calm_call key_simps)

lemma collect_quiet:
  assumes "quiet w" and "pending_collect R m raw w = (es, w')"
  shows "quiet w' \<and> pends R (rdb w') m \<subseteq> pends R (rdb w) m \<and> acts R (rdb w') m = acts R (rdb w) m \<and>
    (\<forall>x\<in>set raw. x \<notin> pends R (rdb w') m \<or> x \<in> pMember ` set es)"
  using assms
proof (induction raw arbitrary: w es)
  case (Cons x raw)
  show ?case
  proof (cases "ParsePendingMember x")
    case None
    let ?v = "snd (redis_call (ZREM R (PendingKey m) [x]) w)"
    have v: "quiet ?v \<and> pends R (rdb ?v) m = pends R (rdb w) m - {x} \<and> acts R (rdb ?v) m = acts R (rdb w) m"
      by (rule remove_quiet [OF Cons.prems(1) refl])
    have "pending_collect R m raw ?v = (es, w')"
      using Cons.prems(2) None by (simp add: split_beta)
    from Cons.IH [OF _ this] v show ?thesis by auto
  next
    case (Some e)
    then obtain es1 where "pending_collect R m raw w = (es1, w')" "es = e # es1"
      using Cons.prems(2) by (auto split: prod.splits)
    with Cons.IH [OF Cons.prems(1) this(1)] print_parse [OF Some] show ?thesis by auto
  qed
qed simp

lemma sort_quiet:
  assumes "quiet w" and "in_step s" and "sweep_sort R m es (s, w) = (s', w')"
  shows "quiet w' \<and> in_step s' \<and> pends R (rdb w') m \<subseteq> pends R (rdb w) m \<and>
    acts R (rdb w') m = acts R (rdb w) m \<and>
    set (admitMembers s) \<subseteq> set (admitMembers s') \<and> set (revokeMembers s) \<subseteq> set (revokeMembers s') \<and>
    (\<forall>e\<in>set es. pMember e \<notin> pends R (rdb w') m \<or>
       pMember e \<in> set (admitMembers s') \<union> set (revokeMembers s'))"
  using assms
proof (induction es arbitrary: s w)
  case (Cons e es)
  show ?case
  proof (cases "pKind e = KindAdmit \<or> pKind e = KindRevoke")
    case True
    have "\<exists>s1. sweep_sort R m es (s1, w) = (s', w') \<and> in_step s1 \<and>
        set (admitMembers s) \<subseteq> set (admitMembers s1) \<and> set (revokeMembers s) \<subseteq> set (revokeMembers s1) \<and>
        pMember e \<in> set (admitMembers s1) \<union> set (revokeMembers s1)"
    proof (cases "pKind e = KindAdmit")
      case True
      with Cons.prems(2,3) show ?thesis
        by (intro exI [of _ "s\<lparr>admits_of := admits_of s @ [admission (pRequestID e) m],
             admitMembers := admitMembers s @ [pMember e]\<rparr>"]) (auto simp: in_step_def)
    next
      case False
      with True Cons.prems(2,3) show ?thesis
        by (intro exI [of _ "s\<lparr>revokes_of := revokes_of s @ [revocation (pRequestID e) m (pReason e)],
             revokeMembers := revokeMembers s @ [pMember e]\<rparr>"]) (auto simp: in_step_def)
    qed
    then obtain s1 where s1: "sweep_sort R m es (s1, w) = (s', w')" "in_step s1"
      "set (admitMembers s) \<subseteq> set (admitMembers s1)" "set (revokeMembers s) \<subseteq> set (revokeMembers s1)"
      "pMember e \<in> set (admitMembers s1) \<union> set (revokeMembers s1)"
      by blast
    from Cons.IH [OF Cons.prems(1) s1(2,1)] s1(3-5) show ?thesis by auto
  next
    case False
    let ?v = "snd (ClearPending R m [pMember e] w)"
    have v: "quiet ?v \<and> pends R (rdb ?v) m = pends R (rdb w) m - {pMember e} \<and>
        acts R (rdb ?v) m = acts R (rdb w) m"
      using clear_quiet [OF Cons.prems(1) refl, of m "[pMember e]"] by simp
    have "sweep_sort R m es (s, ?v) = (s', w')" using Cons.prems(3) False by simp
    from Cons.IH [OF _ Cons.prems(2) this] v show ?thesis by auto
  qed
qed simp

lemma publishAndClear_quiet:
  assumes "quiet w" and "evs \<noteq> [] \<or> ms = []" and "w' = publishAndClear R PublishEvents m topic evs ms w"
  shows "quiet w' \<and> pends R (rdb w') m = pends R (rdb w) m - set ms \<and> acts R (rdb w') m = acts R (rdb w) m"
  using publishAndClear_calm [of w evs ms m topic] assms by (simp add: quiet_def)

lemma sweepMovie_quiet:
  assumes "quiet w" and "0 < batch" and w': "w' = sweepMovie R PublishEvents batch cutoff m w"
  shows "quiet w' \<and> pends R (rdb w') m \<subseteq> pends R (rdb w) m \<and> acts R (rdb w') m = acts R (rdb w) m \<and>
    set (due R batch cutoff m (rdb w)) \<inter> pends R (rdb w') m = {}"
proof -
  let ?raw = "due R batch cutoff m (rdb w)"
  obtain es v where col: "pending_collect R m ?raw w = (es, v)" by (cases "pending_collect R m ?raw w")
  have before: "PendingBefore R m cutoff batch w = (Inr es, v)"
    using assms(1,2) col
    by (simp add: PendingBefore_def calm_read quiet_def zrangebyscore_items limited_def due_def)
  note v = collect_quiet [OF assms(1) col]
  let ?s0 = "\<lparr>admits_of = [], admitMembers = [], revokes_of = [], revokeMembers = []\<rparr>"
  obtain s u where srt: "sweep_sort R m es (?s0, v) = (s, u)" by (cases "sweep_sort R m es (?s0, v)")
  have u: "quiet u \<and> in_step s \<and> pends R (rdb u) m \<subseteq> pends R (rdb v) m \<and>
      acts R (rdb u) m = acts R (rdb v) m \<and>
      (\<forall>e\<in>set es. pMember e \<notin> pends R (rdb u) m \<or> pMember e \<in> set (admitMembers s) \<union> set (revokeMembers s))"
    using sort_quiet [OF _ _ srt] v by (simp add: in_step_def)
  let ?u1 = "publishAndClear R PublishEvents m TopicAdmissions (admits_of s) (admitMembers s) u"
  let ?u2 = "publishAndClear R PublishEvents m TopicRevoked (revokes_of s) (revokeMembers s) ?u1"
  have ne: "admits_of s \<noteq> [] \<or> admitMembers s = []" "revokes_of s \<noteq> [] \<or> revokeMembers s = []"
    using u by (auto simp: in_step_def)
  have u1: "quiet ?u1 \<and> pends R (rdb ?u1) m = pends R (rdb u) m - set (admitMembers s) \<and>
      acts R (rdb ?u1) m = acts R (rdb u) m"
    using publishAndClear_quiet [OF _ ne(1) refl] u by blast
  have u2: "quiet ?u2 \<and> pends R (rdb ?u2) m = pends R (rdb ?u1) m - set (revokeMembers s) \<and>
      acts R (rdb ?u2) m = acts R (rdb ?u1) m"
    using publishAndClear_quiet [OF _ ne(2) refl] u1 by blast
  have "w' = (if es = [] then v else ?u2)"
    by (simp add: w' sweepMovie_def before srt Let_def)
  then show ?thesis
    using v u u1 u2 by (cases "es = []") auto
qed

lemma sweepMovie_frame:
  assumes "quiet w" and "m' \<noteq> m" and "k \<in> queue_of m"
  shows "same_at R (rdb (sweepMovie R PublishEvents batch cutoff m' w)) (rdb w) k"
proof -
  let ?P = "\<lambda>db. same_at R db (rdb w) k"
  have "keeps R cap (loop_cmds m') ?P" for cap
    unfolding keeps_def using loop_frame [OF _ assms(2,3)] same_at_trans by blast
  moreover have "good ?P w" using assms(1) by (simp add: good_calm same_at_def quiet_def)
  ultimately show ?thesis using producer.sweepMovie_good [of R 0 "loop_cmds m'" ?P m'] goodD by fastforce
qed

text \<open>What the rest of a tick does with one movie: nothing if it has been dealt with or is still to come.\<close>

lemma sweep_fold_quiet:
  assumes "quiet w" and "0 < batch" and "distinct ms" and "w' = fold (sweepMovie R PublishEvents batch cutoff) ms w"
  shows "quiet w' \<and> acts R (rdb w') m = acts R (rdb w) m \<and> pends R (rdb w') m \<subseteq> pends R (rdb w) m \<and>
    (m \<in> set ms \<longrightarrow> set (due R batch cutoff m (rdb w)) \<inter> pends R (rdb w') m = {})"
  using assms
proof (induction ms arbitrary: w)
  case (Cons m' ms)
  let ?v = "sweepMovie R PublishEvents batch cutoff m' w"
  have v: "quiet ?v" using sweepMovie_quiet [OF Cons.prems(1,2) refl] by blast
  have rest: "quiet w' \<and> acts R (rdb w') m = acts R (rdb ?v) m \<and> pends R (rdb w') m \<subseteq> pends R (rdb ?v) m \<and>
      (m \<in> set ms \<longrightarrow> set (due R batch cutoff m (rdb ?v)) \<inter> pends R (rdb w') m = {})"
    using Cons.IH [OF v Cons.prems(2)] Cons.prems(3,4) by simp
  show ?case
  proof (cases "m' = m")
    case True
    then show ?thesis using rest sweepMovie_quiet [OF Cons.prems(1,2) refl, where m = m and cutoff = cutoff] by auto
  next
    case False
    have "ZITEMS R (rdb ?v) k = ZITEMS R (rdb w) k" if "k \<in> queue_of m" for k
      using sweepMovie_frame [OF Cons.prems(1) False that, of batch cutoff] by (simp add: same_at_def)
    with False rest show ?thesis by (auto simp: due_def)
  qed
qed simp

lemma sweep_tick_quiet:
  assumes "quiet w" and "0 < batch" and "m \<in> tracked R (rdb w)"
    and "w' = sweep_processAll R (Some PublishEvents) grace batch w"
  shows "acts R (rdb w') m = acts R (rdb w) m \<and> pends R (rdb w') m \<subseteq> pends R (rdb w) m \<and>
    set (due R batch (clock w - grace) m (rdb w)) \<inter> pends R (rdb w') m = {}"
proof -
  define ms where "ms = remdups (SMEMBERS R (rdb w) ActiveMoviesKey @ SMEMBERS R (rdb w) WaitingMoviesKey)"
  let ?v = "snd (now_ms w)"
  have "ActiveQueueMovies R w = (Inr ms, w)"
    using assms(1) by (simp add: ActiveQueueMovies_def calm_read ms_def quiet_def)
  then have w': "w' = fold (sweepMovie R PublishEvents batch (clock w - grace)) ms ?v"
    by (simp add: assms(4) sweep_processAll_def now_ms_def)
  have v: "quiet ?v" "rdb ?v = rdb w" using assms(1) by (simp_all add: quiet_def now_ms_def)
  have "distinct ms" "m \<in> set ms" using assms(3) by (simp_all add: ms_def)
  then show ?thesis
    using sweep_fold_quiet [OF v(1) assms(2) _ w', of m] v(2) by simp
qed

end

end
