(* ===== verification/Tests.thy ===== *)
theory Tests
  imports LineClaims FeedClaims Tracing
begin

section \<open>The repository's tests as theorems\<close>

text \<open>
  What the tests under src/queue-go check on one run (redis/enter\_test.go, redis/events\_test.go,
  tracing\_test.go), proved of the model: for any capacity and any crowd instead of three seats
  and fifty callers, for any feed instead of four events. A script is atomic, so that
  callers who start at the same moment are callers in some order.
\<close>

subsection \<open>enter\_test.go\<close>

text \<open>Callers one after the other, each a visitor and the time of the pod that serves the call.\<close>

fun enter_all ::
  "'db redis \<Rightarrow> string \<Rightarrow> int \<Rightarrow> (string \<times> int) list \<Rightarrow> 'db world \<Rightarrow>
   (go_error + EnterResult) list \<times> 'db world"
where
  "enter_all R m cap [] w = ([], w)"
| "enter_all R m cap ((q, now) # qs) w =
     (case Enter R m q cap now w of (r, w) \<Rightarrow>
      case enter_all R m cap qs w of (rs, w) \<Rightarrow> (r # rs, w))"

definition code_of :: "go_error + EnterResult \<Rightarrow> string" where
  "code_of r = (case r of Inl err \<Rightarrow> ''error'' | Inr res \<Rightarrow> resCode res)"

context redis_service
begin

lemma newcomer_calm:
  assumes "fates w = []" and "q \<notin> acts R (rdb w) m \<union> waits R (rdb w) m" and "Enter R m q cap now w = (r, w')"
  shows "fates w' = [] \<and>
    (if int (card (acts R (rdb w) m)) < cap
     then acts R (rdb w') m = insert q (acts R (rdb w) m) \<and> waits R (rdb w') m = waits R (rdb w) m \<and>
       code_of r = ''ADMITTED''
     else acts R (rdb w') m = acts R (rdb w) m \<and> waits R (rdb w') m = insert q (waits R (rdb w) m) \<and>
       code_of r = ''WAITING'')"
  using assms
  by (auto simp: Enter_calm [OF assms(1)] enter_items seats_def queues_def zcard_card code_of_def)

lemma crowd_spec:
  assumes "fates w = []" and "distinct (map fst qs)"
    and "set (map fst qs) \<inter> (acts R (rdb w) m \<union> waits R (rdb w) m) = {}"
    and "enter_all R m cap qs w = (rs, w')"
  shows "let k = nat (cap - int (card (acts R (rdb w) m))); us = map fst qs
    in acts R (rdb w') m = acts R (rdb w) m \<union> set (take k us) \<and>
       waits R (rdb w') m = waits R (rdb w) m \<union> set (drop k us) \<and>
       map code_of rs = map (\<lambda>_. ''ADMITTED'') (take k us) @ map (\<lambda>_. ''WAITING'') (drop k us)"
  using assms
proof (induction qs arbitrary: w rs)
  case (Cons p qs)
  obtain q now where p: "p = (q, now)" by (cases p)
  obtain r v where e: "Enter R m q cap now w = (r, v)" by (cases "Enter R m q cap now w")
  obtain rs1 where rest: "enter_all R m cap qs v = (rs1, w')" "rs = r # rs1"
    using Cons.prems(4) p e by (auto split: prod.splits)
  have new: "q \<notin> acts R (rdb w) m \<union> waits R (rdb w) m" using Cons.prems(3) p by auto
  note first = newcomer_calm [OF Cons.prems(1) new e]
  have others: "set (map fst qs) \<inter> (acts R (rdb v) m \<union> waits R (rdb v) m) = {}"
    using first Cons.prems(2,3) p by (auto split: if_splits)
  have "distinct (map fst qs)" using Cons.prems(2) by simp
  note IH = Cons.IH [OF conjunct1 [OF first] this others rest(1)]
  show ?case
  proof (cases "int (card (acts R (rdb w) m)) < cap")
    case True
    moreover from this first new have "acts R (rdb v) m = insert q (acts R (rdb w) m)"
      "card (acts R (rdb v) m) = Suc (card (acts R (rdb w) m))" by simp_all
    moreover from True have "nat (cap - int (card (acts R (rdb w) m))) =
        Suc (nat (cap - int (card (acts R (rdb w) m)) - 1))" by simp
    ultimately show ?thesis
      using IH first rest(2) p by (auto simp: Let_def algebra_simps)
  next
    case False
    then have "nat (cap - int (card (acts R (rdb w) m))) = 0" by simp
    with False show ?thesis
      using IH first rest(2) p by (auto simp: Let_def)
  qed
qed simp

end

text \<open>C9. A crowd fills exactly the free seats: of any number of different newcomers, in whatever order
  their calls reach Redis and whatever the clocks of the pods, the first are admitted until the
  capacity is reached and all others wait; the answers say so, and the stored sets agree.\<close>

theorem a_crowd_fills_exactly_the_seats:
  assumes "redis_service R" and "fates w = []" and "distinct (map fst qs)"
    and "set (map fst qs) \<inter> (acts R (rdb w) m \<union> waits R (rdb w) m) = {}"
    and "enter_all R m cap qs w = (rs, w')"
  shows "let k = nat (cap - int (card (acts R (rdb w) m))); us = map fst qs
    in acts R (rdb w') m = acts R (rdb w) m \<union> set (take k us) \<and>
       waits R (rdb w') m = waits R (rdb w) m \<union> set (drop k us) \<and>
       map code_of rs = map (\<lambda>_. ''ADMITTED'') (take k us) @ map (\<lambda>_. ''WAITING'') (drop k us)"
  using assms by (rule redis_service.crowd_spec)

lemma a_crowd_fills_exactly_the_seats_witness:
  "\<exists>rs w'. enter_all ref_redis ''7'' 2 [(''ann'', 9), (''bob'', 3), (''cid'', 5)] (ideal_world ref_empty 0) = (rs, w') \<and>
     map code_of rs = [''ADMITTED'', ''ADMITTED'', ''WAITING''] \<and>
     acts ref_redis (rdb w') ''7'' = {''ann'', ''bob''} \<and> waits ref_redis (rdb w') ''7'' = {''cid''}"
proof -
  let ?qs = "[(''ann'', 9), (''bob'', 3), (''cid'', 5)] :: (string \<times> int) list"
  have empty: "acts ref_redis ref_empty ''7'' = {}" "waits ref_redis ref_empty ''7'' = {}"
    using fresh_ref_empty by (simp_all add: fresh_def gone_at_def)
  obtain rs w' where e: "enter_all ref_redis ''7'' 2 ?qs (ideal_world ref_empty 0) = (rs, w')"
    by (metis prod.exhaust)
  have crowd: "map code_of rs = [''ADMITTED'', ''ADMITTED'', ''WAITING''] \<and>
     acts ref_redis (rdb w') ''7'' = {''ann'', ''bob''} \<and> waits ref_redis (rdb w') ''7'' = {''cid''}"
    using a_crowd_fills_exactly_the_seats [OF ref_laws _ _ _ e] empty
    by (simp add: Let_def numeral_2_eq_2 insert_commute)
  show ?thesis by (intro exI, rule conjI [OF e crowd])
qed

text \<open>The same identity again takes no second seat.\<close>

lemma entering_twice_takes_one_seat:
  assumes "redis_service R" and "fates w = []" and "q \<notin> acts R (rdb w) m \<union> waits R (rdb w) m"
    and "int (card (acts R (rdb w) m)) < cap"
    and "Enter R m q cap t1 w = (r1, w1)" and "Enter R m q cap t2 w1 = (r2, w2)"
  shows "code_of r1 = ''ADMITTED'' \<and> code_of r2 = ''ALREADY_ACTIVE'' \<and>
    acts R (rdb w2) m = acts R (rdb w1) m"
proof -
  note first = redis_service.newcomer_calm [OF assms(1-3,5)]
  then have "fates w1 = []" "q \<in> acts R (rdb w1) m" using assms(4) by simp_all
  with first assms(4,6) show ?thesis
    by (auto simp: redis_service.Enter_calm [OF assms(1)] redis_service.enter_items [OF assms(1)]
        seats_def code_of_def)
qed

subsection \<open>events\_test.go\<close>

context redis_service
begin

lemma last_numbered: "numbered es n \<Longrightarrow> es \<noteq> [] \<Longrightarrow> e \<in> set es \<Longrightarrow> feID e \<le> feID (last es) \<and> feID (last es) \<le> n"
  by (cases es rule: rev_cases) (auto simp: numbered_def sorted_wrt_append)

lemma new_events_ids: "e \<in> set (new_events n ty now rids) \<Longrightarrow> n < feID e"
  by (induction n ty now rids rule: new_events.induct) fastforce+

lemma last_new_event: "rids \<noteq> [] \<Longrightarrow> feID (last (new_events n ty now rids)) = n + int (length rids)"
proof (induction rids arbitrary: n)
  case (Cons rid rids)
  have "new_events (n + 1) ty now rids = [] \<longleftrightarrow> rids = []" by (cases rids) simp_all
  then show ?case using Cons.IH [of "n + 1"] by (cases "rids = []") simp_all
qed simp

end

text \<open>Nothing new gives no events and the same number; then exactly what was appended since.\<close>

lemma reading_gives_only_what_is_new:
  assumes "redis_service R" and "fates w = []" and "feed_holds R (rdb w) m es n" and "es \<noteq> []"
    and "rids \<noteq> []" and "length rids \<le> 100" and "in64 (n + int (length rids))" and "in64 now"
    and "AppendEvents R m ty rids now w = (r, w')" and "seen = feID (last es)" and "seen \<noteq> 0"
  shows "fst (ReadEvents R m seen w) = Inr ([], seen) \<and>
    fst (ReadEvents R m seen w') = Inr (map clean (new_events n ty now rids), n + int (length rids))"
proof -
  let ?new = "new_events n ty now rids"
  let ?all = "drop (length (es @ ?new) - 100) (es @ ?new)"
  have num: "numbered es n" using assms(3) by (simp add: feed_holds_def)
  have old: "filter (\<lambda>e. seen < feID e) fs = []" if "set fs \<subseteq> set es" for fs
    using redis_service.last_numbered [OF assms(1) num assms(4)] that assms(10)
    by (fastforce simp: filter_empty_conv)
  have "seen \<le> n" using redis_service.last_numbered [OF assms(1) num assms(4)] assms(4,10) last_in_set by blast
  then have new: "filter (\<lambda>e. seen < feID e) ?new = ?new"
    using redis_service.new_events_ids [OF assms(1)] by (fastforce simp: filter_id_conv)
  have "fates w' = []" using append_fates [of w R m ty rids now] assms(2,9) by simp
  moreover have "feed_holds R (rdb w') m ?all (n + int (length rids))"
    using redis_service.append_spec [OF assms(1,2,5,3,7,8) assms(9) [symmetric] refl] by blast
  moreover have all: "?all = drop (length (es @ ?new) - 100) es @ ?new" using assms(6) by simp
  moreover have "?new \<noteq> []" using assms(5) by (cases rids) simp_all
  ultimately have "fst (ReadEvents R m seen w') = Inr (map clean (filter (\<lambda>e. seen < feID e) ?all), feID (last ?new))"
    using redis_service.read_spec [OF assms(1), of w' m ?all] assms(11) by simp
  moreover have "filter (\<lambda>e. seen < feID e) ?all = ?new"
    unfolding all filter_append using old [OF set_drop_subset] new by simp
  ultimately have "fst (ReadEvents R m seen w') = Inr (map clean ?new, feID (last ?new))" by (simp only:)
  then show ?thesis
    using redis_service.read_spec [OF assms(1-3)] old [of es] assms(4,10,11)
      redis_service.last_new_event [OF assms(1,5)] by simp
qed

text \<open>Over the cap the newest hundred stay, the oldest of them numbered behind those that went.\<close>

lemma the_newest_hundred_stay:
  assumes "redis_service R" and "fates w = []" and "fresh R (rdb w)" and "100 \<le> length rids"
    and "in64 (int (length rids))" and "in64 now" and "AppendEvents R m ty rids now w = (r, w')"
  shows "ZCARD R (rdb w') (EventsKey m) = eventCap \<and>
    ZITEMS R (rdb w') (EventsKey m) = map entry (drop (length rids - 100) (new_events 0 ty now rids))"
proof -
  have "rids \<noteq> []" using assms(4) by auto
  from redis_service.append_spec [OF assms(1,2) this empty_feed [OF assms(3)] _ assms(6) assms(7) [symmetric] refl]
  have "ZITEMS R (rdb w') (EventsKey m) = map entry (drop (length rids - 100) (new_events 0 ty now rids))"
    using assms(5) by (simp add: feed_holds_def)
  then show ?thesis using assms(4) by (simp add: redis_service.zcard_items [OF assms(1)] eventCap_def)
qed

subsection \<open>tracing\_test.go\<close>

text \<open>\<open>sdktrace.NeverSample\<close> and \<open>AlwaysSample\<close>, and the names otelgin gives to spans.\<close>

definition always :: "decision \<Rightarrow> sampler" where
  "always d = \<lparr>decide = (\<lambda>_. d), Description = []\<rparr>"

definition named :: "span_kind \<Rightarrow> string \<Rightarrow> params" where
  "named k name = \<lparr>pName = name, spanKind = k, pTraceID = [], pParent = None\<rparr>"

definition polling_dropped :: byRoute where
  "polling_dropped = \<lparr>polling = always Drop, rest = always RecordAndSample, never = always Drop\<rparr>"

definition polling_kept :: byRoute where
  "polling_kept = \<lparr>polling = always RecordAndSample, rest = always RecordAndSample, never = always Drop\<rparr>"

lemma sampler_uses_real_span_names:
  "map (\<lambda>name. ShouldSample polling_dropped (named Server name))
     [''GET /api/admission/position'', ''GET /api/admission/stats'', ''GET /api/admission/events'',
      ''GET /health/ready'', ''POST /api/admission/enter'', ''POST /api/admission/complete''] =
   [Drop, Drop, Drop, Drop, RecordAndSample, RecordAndSample]"
  by code_simp

lemma health_probes_never_sampled:
  "map (\<lambda>name. ShouldSample polling_kept (named Server name))
     [''GET /health/live'', ''GET /health/ready'', ''GET /api/admission/position''] =
   [Drop, Drop, RecordAndSample]"
  by code_simp

lemma background_spans_always_sampled:
  "\<forall>name\<in>{''promote cycle'', ''publish admissions'', ''publish admissions-revoked'',
     ''consume bookings-completed'', ''HTTP GET route not found''}.
     ShouldSample polling_dropped (named Internal name) = RecordAndSample"
  by code_simp

lemma orphan_client_spans_sampled_down:
  "(\<forall>name\<in>{''evalsha'', ''zcard'', ''get'', ''pipeline''}.
     ShouldSample polling_dropped (named Client name) = Drop) \<and>
   ShouldSample polling_dropped (named Internal ''promote cycle'') = RecordAndSample"
  by code_simp

end
