(* ===== verification/Spec2Isabelle.thy ===== *)
theory Spec2Isabelle
  imports Waiting Batch Typing Races Visitors CleanupClaims LineClaims HandlerClaims PromotionClaims FeedClaims
    Metrics Loops Topics Shutdown Http Wiring Delivery Tests
begin

text \<open>
  \<^bold>\<open>The queue service of cgv-onprem (src/queue-go)\<close>

  The service seats visitors of a booking page, up to a capacity per movie, and keeps the others
  in a waiting line. Several pods run the same program and share one Redis database; a seat
  given or taken back is told to the booking service through Kafka. This development models the
  Go program with the Lua scripts it sends, and proves what makes the queue correct.

  \<^bold>\<open>Parts and theories\<close>

  \<^item> \<open>Prelude\<close>, \<open>GoStd\<close>, \<open>Json\<close>, \<open>Floats\<close>: listings of sorted sets; the pieces of Go's library the
    code uses (\<open>strconv\<close>, \<open>strings\<close>, \<open>int64\<close> wrap-around, the strings of \<open>encoding/json\<close> with their
    UTF-8, \<open>float64\<close> rounding and \<open>ParseFloat\<close>).
  \<^item> \<open>RedisService\<close>: the locale \<open>redis_service\<close>, the commands the code sends (fields of the
    record \<open>redis\<close>) with their documented laws. \<open>RefRedis\<close>: an executable database on
    association lists that satisfies them (\<open>interpretation ref\<close>), on which all witnesses run.
  \<^item> \<open>World\<close>: the state \<open>world\<close> that all code is a function on: the database, the broker's
    log, the clock, the process-wide counters, and how the coming calls end.
  \<^item> \<open>Keys\<close> (redis/keys.go), \<open>Journal\<close> (pending.go), \<open>Admission\<close> (enter.go, promote.go,
    position.go), \<open>Release\<close> (leave.go, timeout.go), \<open>Tracking\<close> (untrack.go, query.go, stats.go,
    reset.go), \<open>Feed\<close> (events.go), \<open>Rate\<close> (rate.go): the redis package. Every Lua script is a
    function of its KEYS and ARGV that makes the calls of the script in their order; the Go
    wrapper around it carries the wrapper's name.
  \<^item> \<open>Kafka\<close> (kafka/kafka.go), \<open>Processors\<close> (processor/*.go), \<open>Eta\<close> (metrics/rate.go),
    \<open>Handlers\<close> (handler/*.go), \<open>Config\<close> (config/config.go, redis/client.go), \<open>Runtime\<close> (the guard
    of main.go), \<open>Tracing\<close> (tracing.go), \<open>Logging\<close> (logging.go): the rest of the program.
  \<^item> \<open>Gauges\<close> and \<open>Metrics\<close> (the sampler of metrics/prom.go, and what its gauges show), \<open>Loops\<close>
    (the \<open>Start\<close> methods with their tickers and the goroutines \<open>main\<close> makes of them), \<open>Topics\<close>
    (the creation of topics in kafka/kafka.go), \<open>Shutdown\<close> (the life of the process from the
    start of its server to its end, as a step relation with the clock, with the loops of
    processor/*.go and kafka/kafka.go and the guard around them as control states),
    \<open>Http\<close> (the middleware of \<open>main\<close> and metrics/prom.go, the routes with gin's redirect for a
    trailing slash, a session of requests),
    \<open>Prom\<close> (the collectors, the exemplars and the server of metrics/prom.go), \<open>Wiring\<close> (what \<open>main\<close>
    puts together, with the options of kafka/kafka.go and the timeouts): the process around the
    queue. These theories hold their properties themselves.
  \<^item> \<open>QueueState\<close>, \<open>Invariant\<close>: the effect of every script on the sets of one movie; the
    invariant \<open>safe\<close> and the tracking invariant \<open>all_visited\<close>.
  \<^item> \<open>Commands\<close>: everything the pods send that writes, one constructor of \<open>cmd\<close> each; \<open>runs\<close>
    and \<open>reachable\<close> are the databases that any interleaving leads to. \<open>Operations\<close>: each Go
    function is a list of such commands, whatever fails (\<open>keeps\<close>, \<open>after\<close>, the \<open>_good\<close> lemmas).
  \<^item> \<open>Line\<close>, \<open>Lifecycle\<close>: the abstract waiting line and the state machine of a visitor, and the
    simulation of the commands by them. \<open>System\<close>: a pod as a step relation over its handlers,
    loop ticks and messages. \<open>Outbox\<close>: the journal as an outbox. \<open>Delivery\<close>: a sweep that nothing
    disturbs, over all movies and whatever the journals hold.
  \<^item> \<open>QueueClaims\<close> (the scripts), \<open>CleanupClaims\<close> (timeouts, tracking, reset), \<open>LineClaims\<close> (order
    and life cycle), \<open>OutboxClaims\<close> (publication), \<open>PromotionClaims\<close> (a whole promotion tick),
    \<open>Tests\<close> (what the repository's own tests check, for every crowd and feed),
    \<open>Waiting\<close> (how long a visitor waits), \<open>Batch\<close> (a batch against one visitor at a time), \<open>Typing\<close>
    (every key at one type), \<open>HandlerClaims\<close> (requests and answers), \<open>Visitors\<close> (what one
    visitor's requests can change), \<open>FeedClaims\<close> (the event feed), \<open>RateClaims\<close> (the rate and the
    waiting time), \<open>Races\<close> (finished bookings that are skipped) and this theory hold the properties.

  \<^bold>\<open>Failures and interleaving\<close>

  Only one command, script or MULTI block is atomic. A \<open>fate\<close> says of a Redis call how often it
  was sent without a reply, how much of it the server ran each time, what the other pods did
  before each of its commands, and whether a last attempt was answered; a \<open>kfate\<close> says the same
  of a Kafka write. An exhausted list of fates is the undisturbed case, so a theorem about all
  worlds covers every finite course of failures. \<open>good P w\<close> says that the database has \<open>P\<close> and
  that what the other pods are going to do keeps it.

  \<^bold>\<open>Locales\<close>

  \<open>redis_service\<close> (laws of the commands), \<open>publisher\<close> and \<open>admission_publisher\<close> (what the loops
  and the enter handler rely on of a publisher, interpreted on \<open>PublishEvents\<close> and
  \<open>PublishAdmission\<close>), \<open>outbox\<close> (both together), \<open>typed_redis\<close> (\<open>redis_service\<close> and that a command
  creates keys of its own type only), \<open>kafka_admin\<close> (what is documented of creating topics),
  \<open>otel_sdk\<close> (of the samplers of OpenTelemetry). A property takes \<open>redis_service R\<close> as a
  hypothesis: Redis is not part of the repository, and its witnesses discharge it on \<open>ref_redis\<close>.

  \<^bold>\<open>Bounds\<close>

  \<open>runGuarded\<close> has fuel, the number of starts, and \<open>ensureTopic\<close> the list of its rounds; their
  theorems say for which fuel they return.
  The deadlines of the shutdown are a timer in milliseconds that counts down step by step; a
  course of its steps is bounded by the work that is left and the rounds the loops take up although
  the context is done, of which a \<open>select\<close> with several ready cases allows any number. Whether the
  broker answers the calls that create topics is a parameter of that relation.
  Every other loop of the code runs over a list, and its function recurs on that list; a loop
  that ends with its context runs over the list of its wake-ups. Scores and counters are \<open>int\<close>;
  \<open>INCRBY\<close> fails outside \<open>int64\<close> as Redis does, and \<open>Config\<close> and \<open>Rate\<close> write the wrap-around out.

  \<^bold>\<open>Not modelled\<close>

  The calls that write log lines and open spans (the logger, the sampler and the exporter's
  construction are); the listening sockets and the HTTP protocol below the handlers; connection pools and timeouts, which show in the model as calls
  that fail; \<open>PoolStats\<close>, \<open>Close\<close> and the instance of gin, which only pass on to libraries.
  Of the Go tests, connecting to a test server and the place of a span in gin's context. The
  booking service (Java) and the pages (JavaScript) are outside this development.
\<close>

section \<open>Properties of the whole program\<close>

context redis_service
begin

lemma pod_runs_announced:
  assumes "pod_runs R cfg w w'" and "q \<noteq> []" and "announced R m q n w"
  shows "announced R m q n w'"
  using assms by (induction rule: pod_runs.induct) (auto intro: pod_step_announced)

text \<open>The other pods take this visitor's admission off the journal only by commands other than
  clearing it.\<close>

lemma others_owed:
  assumes "\<forall>f\<in>set (fates w). \<forall>g\<in>gaps_of f. \<exists>cs. set cs \<subseteq> spares m q \<and> g = runs R cap cs"
    and "owed R m q (rdb w)"
  shows "good (owed R m q) w"
proof -
  have step: "owed R m q (runs R cap cs db)" if "set cs \<subseteq> spares m q" "owed R m q db" for cs db
    using that owed_keeps [of "spares m q" m q cap]
    by (induction cs arbitrary: db) (auto simp: keeps_def)
  have "owed R m q (g db)" if "f \<in> set (fates w)" "g \<in> gaps_of f" "owed R m q db" for f g db
    using assms(1) that step by metis
  with assms(2) show ?thesis
    by (auto simp: good_def keeps_fate_def gaps_of_def split: fate.splits)
qed

lemma fresh_owed: "fresh R db \<Longrightarrow> owed R m q db"
  by (simp add: fresh_def gone_at_def owed_def no_ttl_def)

lemma announced_spec:
  assumes "pod_runs R cfg w w'" and "fresh R (rdb w)" and "q \<noteq> []"
    and "\<forall>f\<in>set (fates w). \<forall>g\<in>gaps_of f. \<exists>cs. set cs \<subseteq> spares m q \<and> g = runs R cap cs"
    and "q \<in> acts R (rdb w') m"
  shows "admit_enter q \<in> pends R (rdb w') m \<or> admit_promote q \<in> pends R (rdb w') m \<or>
    announcement m q \<in> set (drop (length (broker w)) (broker w'))"
proof -
  have "announced R m q (length (broker w)) w"
    using kept_good [OF others_owed [OF assms(4) fresh_owed [OF assms(2)]]] .
  from pod_runs_announced [OF assms(1,3) this] assms(5) show ?thesis
    by (auto simp: kept_def owed_def dest: goodD)
qed

text \<open>An undisturbed sweep of a pod, once every entry of the movie is old enough.\<close>

lemma delivered_spec:
  assumes "pod_runs R cfg w w'" and "fresh R (rdb w)" and "q \<noteq> []"
    and "\<forall>f\<in>set (fates w). \<forall>g\<in>gaps_of f. \<exists>cs. set cs \<subseteq> spares m q \<and> g = runs R cap cs"
    and "q \<in> acts R (rdb w') m" and "quiet w'" and "m \<in> tracked R (rdb w')"
    and "length (ZITEMS R (rdb w') (PendingKey m)) \<le> nat sweepBatch"
    and "\<forall>(x, s)\<in>set (ZITEMS R (rdb w') (PendingKey m)). s \<le> clock w' - sweepGrace"
    and w'': "w'' = LoopTick ''pending_sweep'' (sweep_processAll R (Some PublishEvents) sweepGrace sweepBatch w')"
  shows "q \<in> acts R (rdb w'') m \<and> pends R (rdb w'') m = {} \<and>
    announcement m q \<in> set (drop (length (broker w)) (broker w''))"
proof -
  have "set (due R sweepBatch (clock w' - sweepGrace) m (rdb w')) = pends R (rdb w') m"
    using assms(8,9) by (simp add: due_def members_def split_beta)
  moreover have "0 < sweepBatch" by (simp add: sweepBatch_def)
  moreover have "rdb w'' = rdb (sweep_processAll R (Some PublishEvents) sweepGrace sweepBatch w')"
    by (simp add: w'' LoopTick_def split_beta)
  ultimately have "acts R (rdb w'') m = acts R (rdb w') m \<and> pends R (rdb w'') m \<subseteq> pends R (rdb w') m \<and>
      pends R (rdb w') m \<inter> pends R (rdb w'') m = {}"
    using sweep_tick_quiet [OF assms(6) _ assms(7) refl, of sweepBatch sweepGrace] by simp
  then have swept: "acts R (rdb w'') m = acts R (rdb w') m" "pends R (rdb w'') m = {}" by blast+
  have "pod_runs R cfg w w''"
    unfolding w'' by (rule pod_next [OF assms(1) sweep_tick])
  from announced_spec [OF this assms(2-4)] swept assms(5) show ?thesis by simp
qed

lemma seats_spec:
  assumes "pod_runs R (Load env) w w'" and "fresh R (rdb w)"
    and "others_run_commands R (MaxSessions (Load env)) w"
  shows "int (card (acts R (rdb w') m)) \<le> MaxSessions (Load env) \<and>
    acts R (rdb w') m \<inter> waits R (rdb w') m = {} \<and> lasts R (rdb w') m = waits R (rdb w') m \<and>
    (\<forall>q. admit_enter q \<in> pends R (rdb w') m \<or> admit_promote q \<in> pends R (rdb w') m \<longrightarrow>
      q \<in> acts R (rdb w') m)"
proof -
  have "0 \<le> MaxSessions (Load env)" using MaxSessions_pos [of env] by simp
  then have "queue_ok R (MaxSessions (Load env)) (rdb w') m"
    using pod_runs_inv [OF assms] by (simp add: safe_def)
  then show ?thesis by (simp add: queue_ok_def)
qed

end

text \<open>A pod as a client of the database: the commands of both sides, in the order the server runs
  them.\<close>

lemma commands_spec:
  assumes "pod_runs R cfg w w'" and "others_run_commands R (MaxSessions cfg) w"
  shows "\<exists>cs. rdb w' = runs R (MaxSessions cfg) cs (rdb w)"
proof -
  let ?P = "after R (MaxSessions cfg) UNIV (rdb w)"
  have closed: "?P (runs R (MaxSessions cfg) cs db)" if "?P db" for cs db
    using that after_keeps [of R "MaxSessions cfg" UNIV "rdb w"]
    by (induction cs arbitrary: db) (auto simp: keeps_def)
  have "?P (g db)" if "f \<in> set (fates w)" "g \<in> gaps_of f" "?P db" for f g db
    using assms(2) that closed unfolding others_run_commands_def by metis
  then have "good ?P w"
    by (auto simp: good_def after_refl keeps_fate_def gaps_of_def split: fate.splits)
  from goodD [OF pod_runs_good [OF assms(1) after_keeps this]] show ?thesis
    by (auto simp: after_def)
qed

text \<open>C1. No overbooking: from an empty database, whatever requests, ticks and messages a pod
  handles under whatever environment, with calls failing anywhere and the other pods running
  their commands in between, no movie ever has more visitors seated than \<open>MAX_SESSIONS\<close>; nobody
  is both seated and waiting, the polls are kept of exactly the waiting, and an admission is
  journalled only for a visitor who is seated.\<close>

theorem no_overbooking:
  assumes "redis_service R" and "pod_runs R (Load env) w w'" and "fresh R (rdb w)"
    and "others_run_commands R (MaxSessions (Load env)) w"
  shows "int (card (acts R (rdb w') m)) \<le> MaxSessions (Load env) \<and>
    acts R (rdb w') m \<inter> waits R (rdb w') m = {} \<and> lasts R (rdb w') m = waits R (rdb w') m \<and>
    (\<forall>q. admit_enter q \<in> pends R (rdb w') m \<or> admit_promote q \<in> pends R (rdb w') m \<longrightarrow>
      q \<in> acts R (rdb w') m)"
  using assms by (rule redis_service.seats_spec)

text \<open>A course of events for the witnesses: another pod seats \<open>ann\<close> during this pod's request.\<close>

definition busy_world :: "ref_db world" where
  "busy_world = (ideal_world ref_empty 0)
     \<lparr>fates := [Fate [] [runs ref_redis 2 [CEnter ''7'' ''ann'' 10]] True]\<rparr>"

definition bob_enters :: "ref_db world" where
  "bob_enters = snd (enter_handler ref_redis (admission_of (Load (\<lambda>_. []))) (Some PublishAdmission)
     (Some (\<lambda>name. Some ''bob'')) busy_world)"

lemma bob_enters_run: "pod_runs ref_redis (Load (\<lambda>_. [])) busy_world bob_enters"
  unfolding bob_enters_def by (rule pod_next [OF pod_start on_enter])

lemma default_capacity: "MaxSessions (Load (\<lambda>_. [])) = 2"
  by (simp add: Load_MaxSessions getenvInt_def)

lemma no_overbooking_witness:
  "card (acts ref_redis (rdb bob_enters) ''bob'') \<le> 2"
proof -
  have "others_run_commands ref_redis 2 busy_world"
    by (auto simp: others_run_commands_def busy_world_def gaps_of_def)
  then show ?thesis
    using no_overbooking [OF ref_laws bob_enters_run, of "''bob''"] fresh_ref_empty
    by (simp add: default_capacity busy_world_def)
qed

text \<open>C2. No silent seat: from an empty database, with calls, replies and publications failing
  anywhere and the other pods running any commands but the clearing of this entry, whoever is
  seated has the admission in the journal or published since.\<close>

theorem every_seat_is_announced:
  assumes "redis_service R" and "pod_runs R cfg w w'" and "fresh R (rdb w)" and "q \<noteq> []"
    and "\<forall>f\<in>set (fates w). \<forall>g\<in>gaps_of f. \<exists>cs. set cs \<subseteq> spares m q \<and> g = runs R cap cs"
    and "q \<in> acts R (rdb w') m"
  shows "admit_enter q \<in> pends R (rdb w') m \<or> admit_promote q \<in> pends R (rdb w') m \<or>
    announcement m q \<in> set (drop (length (broker w)) (broker w'))"
  using assms by (rule redis_service.announced_spec)

lemma every_seat_is_announced_witness:
  "admit_enter ''bob'' \<in> pends ref_redis (rdb bob_enters) ''bob'' \<or>
   admit_promote ''bob'' \<in> pends ref_redis (rdb bob_enters) ''bob'' \<or>
   announcement ''bob'' ''bob'' \<in> set (broker bob_enters)"
proof -
  have "\<forall>f\<in>set (fates busy_world). \<forall>g\<in>gaps_of f.
      \<exists>cs. set cs \<subseteq> spares ''bob'' ''bob'' \<and> g = runs ref_redis 2 cs"
    by (auto simp: busy_world_def gaps_of_def intro!: exI [of _ "[CEnter ''7'' ''ann'' 10]"])
  moreover have "ZITEMS ref_redis (rdb bob_enters) (ActiveKey ''bob'') = [(''bob'', 0)]" by code_simp
  ultimately show ?thesis
    using every_seat_is_announced [OF ref_laws bob_enters_run, of "''bob''" "''bob''" 2] fresh_ref_empty
    by (simp add: busy_world_def members_def)
qed

text \<open>C3. Every seat is announced in the end: after a course of events as in C2, failures included, a visitor
  seated in a movie that is on the set of active movies is announced as soon as one sweep finds
  Redis and Kafka answering and the journal of the movie at most 500 entries long, each six seconds
  old: the journal is then empty, the visitor still has the seat, and the broker has the
  admission. (A reset that is cut into can take a movie off the set while somebody is seated in it.)\<close>

theorem every_seat_is_delivered:
  assumes "redis_service R" and "pod_runs R cfg w w'" and "fresh R (rdb w)" and "q \<noteq> []"
    and "\<forall>f\<in>set (fates w). \<forall>g\<in>gaps_of f. \<exists>cs. set cs \<subseteq> spares m q \<and> g = runs R cap cs"
    and "q \<in> acts R (rdb w') m" and "quiet w'" and "m \<in> tracked R (rdb w')"
    and "length (ZITEMS R (rdb w') (PendingKey m)) \<le> nat sweepBatch"
    and "\<forall>(x, s)\<in>set (ZITEMS R (rdb w') (PendingKey m)). s \<le> clock w' - sweepGrace"
    and "w'' = LoopTick ''pending_sweep'' (sweep_processAll R (Some PublishEvents) sweepGrace sweepBatch w')"
  shows "q \<in> acts R (rdb w'') m \<and> pends R (rdb w'') m = {} \<and>
    announcement m q \<in> set (drop (length (broker w)) (broker w''))"
  using assms by (rule redis_service.delivered_spec)

text \<open>A course of events for the witness: \<open>ann\<close> is seated, her admission is lost on the way to Kafka,
  and ten seconds pass.\<close>

definition lost_world :: "ref_db world" where
  "lost_world = (ideal_world ref_empty 0)\<lparr>kfates := [KFate [] False], ticks := [10000]\<rparr>"

definition ann_enters :: "ref_db world" where
  "ann_enters = snd (enter_handler ref_redis (admission_of (Load (\<lambda>_. []))) (Some PublishAdmission)
     (Some (\<lambda>name. Some ''ann'')) lost_world)"

text \<open>What the witness needs of a world, read off at once.\<close>

definition digest :: "ref_db world \<Rightarrow> string \<Rightarrow> (item list \<times> item list \<times> string list) \<times> message list \<times> int \<times> nat \<times> nat" where
  "digest w m =
     ((ZITEMS ref_redis (rdb w) (ActiveKey m), ZITEMS ref_redis (rdb w) (PendingKey m),
       SMEMBERS ref_redis (rdb w) ActiveMoviesKey),
      broker w, clock w, length (fates w), length (kfates w))"

lemma every_seat_is_delivered_witness:
  "announcement ''ann'' ''ann'' \<notin> set (broker ann_enters) \<and>
   announcement ''ann'' ''ann'' \<in> set (broker
     (LoopTick ''pending_sweep'' (sweep_processAll ref_redis (Some PublishEvents) sweepGrace sweepBatch ann_enters)))"
proof -
  have run: "pod_runs ref_redis (Load (\<lambda>_. [])) lost_world ann_enters"
    unfolding ann_enters_def by (rule pod_next [OF pod_start on_enter])
  have "digest ann_enters ''ann'' = (([(''ann'', 0)], [(admit_enter ''ann'', 0)], [''ann'']), [], 10000, 0, 0)"
    by code_simp
  then show ?thesis
    using every_seat_is_delivered [OF ref_laws run _ _ _ _ _ _ _ _ refl, of "''ann''" "''ann''"] fresh_ref_empty
    by (simp add: digest_def lost_world_def members_def quiet_def sweepBatch_def sweepGrace_def)
qed

text \<open>The commands are all there is: whatever a pod does, with calls lost, repeated and cut off
  anywhere, the database ends as after some sequence of the program's commands, its own and
  those of the other pods; so what holds after every such sequence holds of the running system.\<close>

theorem a_pod_is_a_list_of_commands:
  assumes "pod_runs R cfg w w'" and "others_run_commands R (MaxSessions cfg) w"
  shows "\<exists>cs. rdb w' = runs R (MaxSessions cfg) cs (rdb w)"
  using assms by (rule commands_spec)

lemma a_pod_is_a_list_of_commands_witness:
  "\<exists>cs. rdb bob_enters = runs ref_redis 2 cs ref_empty"
proof -
  have "others_run_commands ref_redis 2 busy_world"
    by (auto simp: others_run_commands_def busy_world_def gaps_of_def)
  then show ?thesis
    using a_pod_is_a_list_of_commands [OF bob_enters_run]
    by (simp add: default_capacity) (simp add: busy_world_def)
qed

text \<open>C4. Any traffic: whatever requests arrive, with any methods, paths, parameters and bodies, each is
  answered; one that gin redirects for its trailing slash gets the redirect and nothing else, and
  each other is counted once under its status and the pattern of its route, or \<open>unmatched\<close>, so
  that no client can add to the series; and from an empty database, with calls failing and the
  other pods at work, no movie ever has more visitors seated than the capacity.\<close>

theorem any_traffic_respects_the_capacity:
  assumes "redis_service R" and "fresh R (rdb w)"
    and "others_run_commands R (MaxSessions (Load env)) w"
    and "serve_all R G (Load env) down rqs ((c, w), h) = (resps, (c', w'), h')"
  shows "length resps = length rqs \<and>
    redirects_answered (admission_of (Load env)) (zip rqs resps) \<and>
    map (\<lambda>x. fst (snd x)) (httpDuration h') = map (\<lambda>x. fst (snd x)) (httpDuration h) @
      map (\<lambda>x. rsStatus (snd x)) (passed (admission_of (Load env)) (zip rqs resps)) \<and>
    fst ` set (httpDuration h') \<subseteq> fst ` set (httpDuration h) \<union> path_labels (admission_of (Load env)) \<and>
    int (card (acts R (rdb w') m)) \<le> MaxSessions (Load env)"
proof -
  have "pod_runs R (Load env) w w'"
    using serve_all_run [of R "Load env" w "((c, w), h)" G down rqs] assms(4) by (simp add: pod_start)
  from redis_service.seats_spec [OF assms(1) this assms(2,3)] serve_all_counts [OF assms(4)]
  show ?thesis by blast
qed

text \<open>The requests of the witness: one enters, one asks for a page that does not exist, and one for a page
  with a slash too many.\<close>

definition demo_gin :: gin where
  "demo_gin = \<lparr>decodeJSON = (\<lambda>s. if s = [] then None else Some (\<lambda>name. Some s)),
     recoveredStatus = 500, noRouteStatus = 404\<rparr>"

definition demo_request :: "string \<Rightarrow> string \<Rightarrow> string \<Rightarrow> http_request" where
  "demo_request verb path content = \<lparr>rqMethod = verb, rqPath = path, rqQuery = (\<lambda>_. []), rqHeader = (\<lambda>_. []),
     rqBody = content, rqRemote = ''10.0.0.1'', rqSampled = False, rqTraceID = []\<rparr>"

lemma any_traffic_respects_the_capacity_witness:
  "\<exists>resps c' w' h'. serve_all ref_redis demo_gin (Load (\<lambda>_. [])) False
     [demo_request ''POST'' ''/api/admission/enter'' ''ann'', demo_request ''GET'' ''/secret'' [],
      demo_request ''GET'' ''/health/live/'' []]
     ((\<lambda>_. None, ideal_world ref_empty 0), \<lparr>httpDuration = [], requestLog = [], stopwatch = 0, delays = []\<rparr>) = (resps, (c', w'), h') \<and>
   map (\<lambda>x. fst (snd x)) (httpDuration h') = [rsStatus (resps ! 0), rsStatus (resps ! 1)] \<and>
   rsStatus (resps ! 2) = 301 \<and> card (acts ref_redis (rdb w') ''ann'') \<le> 2"
proof -
  let ?enter = "demo_request ''POST'' ''/api/admission/enter'' ''ann''"
  let ?secret = "demo_request ''GET'' ''/secret'' []"
  let ?slash = "demo_request ''GET'' ''/health/live/'' []"
  let ?a = "admission_of (Load (\<lambda>_. []))"
  let ?h = "\<lparr>httpDuration = [], requestLog = [], stopwatch = 0, delays = []\<rparr>"
  obtain resps c' w' h' where run: "serve_all ref_redis demo_gin (Load (\<lambda>_. [])) False [?enter, ?secret, ?slash]
      ((\<lambda>_. None, ideal_world ref_empty 0), ?h) = (resps, (c', w'), h')"
    by (metis prod.exhaust)
  have "others_run_commands ref_redis (MaxSessions (Load (\<lambda>_. []))) (ideal_world ref_empty 0)"
    by (simp add: others_run_commands_def)
  note claim = any_traffic_respects_the_capacity [OF ref_laws _ this run, of "''ann''"]
  have "length resps = 3" using claim fresh_ref_empty by simp
  then obtain r0 r1 r2 where resps: "resps = [r0, r1, r2]"
    by (auto simp: numeral_3_eq_3 length_Suc_conv)
  have "redirected ?a ?enter = None" "redirected ?a ?secret = None" "redirected ?a ?slash = Some 301"
    by (simp_all add: redirected_def demo_request_def all_routes_def routes_def other_slash_def)
  then show ?thesis
    using claim fresh_ref_empty run
    by (intro exI [of _ resps] exI [of _ c'] exI [of _ w'] exI [of _ h'])
      (simp add: default_capacity resps passed_def redirects_answered_def)
qed

end
